(* ===== verification/Prelude.thy ===== *)
theory Prelude
  imports Main "HOL-Library.Word" "HOL-Library.Multiset" "HOL-Library.Sublist"
begin

text \<open>
  Shared vocabulary of the development: the machine integer types of the source, the
  lemma collections the component theories fill, and generic facts on lists, counting
  maps and word fields.
\<close>

unbundle bit_operations_syntax

type_synonym u8 = "8 word"
type_synonym u16 = "16 word"
type_synonym u32 = "32 word"
type_synonym u64 = "64 word"
type_synonym bytes = "8 word list"

named_theorems lock_defs \<open>definitions of the lock word operations\<close>
named_theorems lock_fields \<open>how an operation on the lock word moves its fields\<close>

section \<open>Bit fields of a word, read as natural numbers\<close>

text \<open>
  \<open>field_of k b n\<close> is the value of the \<open>b\<close>-bit field at bit \<open>k\<close> of \<open>n\<close>. Adding or
  subtracting \<open>2 ^ k\<close> moves that field by one and, as long as the field does not run over,
  leaves every other field alone.
\<close>

definition field_of :: "nat \<Rightarrow> nat \<Rightarrow> nat \<Rightarrow> nat" where
  "field_of k b n = (n div 2 ^ k) mod 2 ^ b"

lemma unat_field:
  fixes w :: "'a::len word"
  shows "unat (drop_bit k (w AND (push_bit k (mask n)))) = field_of k n (unat w)"
proof -
  have "unat (drop_bit k (w AND (push_bit k (mask n)))) = take_bit n (drop_bit k (unat w))"
    by (rule bit_eqI) (auto simp: bit_simps dest: bit_imp_le_length)
  then show ?thesis
    by (simp only: field_of_def drop_bit_eq_div take_bit_eq_mod)
qed

lemma field_of_less: "field_of k b n < 2 ^ b"
  by (simp add: field_of_def)

lemma field_of_add_same:
  assumes "Suc (field_of k b n) < 2 ^ b"
  shows "field_of k b (n + 2 ^ k) = Suc (field_of k b n)"
  using assms by (simp add: field_of_def mod_Suc div_add_self2 del: add_2_eq_Suc add_2_eq_Suc')

lemma field_of_add_below:
  assumes "j + c \<le> k"
  shows "field_of j c (n + 2 ^ k) = field_of j c n"
proof -
  have k: "(2::nat) ^ k = 2 ^ (k - j - c) * 2 ^ c * 2 ^ j"
    using assms by (simp flip: power_add)
  have "(n + 2 ^ k) div 2 ^ j = n div 2 ^ j + 2 ^ (k - j - c) * 2 ^ c"
    unfolding k by simp
  then show ?thesis by (simp add: field_of_def)
qed

lemma field_no_carry:
  assumes "Suc (field_of k b n) < 2 ^ b" and "k + b \<le> j"
  shows "(n + 2 ^ k) div 2 ^ j = n div 2 ^ j"
proof -
  have "Suc (n div 2 ^ k) div 2 ^ b = n div 2 ^ k div 2 ^ b"
    using assms(1) by (simp add: field_of_def div_Suc mod_Suc)
  then have "(n + 2 ^ k) div 2 ^ (k + b) = n div 2 ^ (k + b)"
    by (simp add: power_add div_mult2_eq div_add_self2)
  then have "(n + 2 ^ k) div 2 ^ (k + b) div 2 ^ (j - (k + b)) = n div 2 ^ (k + b) div 2 ^ (j - (k + b))"
    by simp
  then show ?thesis
    using assms(2) by (simp flip: div_mult2_eq power_add)
qed

lemma field_of_add_above:
  assumes "Suc (field_of k b n) < 2 ^ b" and "k + b \<le> j"
  shows "field_of j c (n + 2 ^ k) = field_of j c n"
  using field_no_carry [OF assms] by (simp add: field_of_def)

lemma field_add_bound:
  assumes "Suc (field_of k b n) < 2 ^ b" and "k + b \<le> j" and "n < 2 ^ j"
  shows "n + 2 ^ k < 2 ^ j"
  using field_no_carry [OF assms(1,2)] assms(3) by (simp add: div_eq_0_iff)

lemma field_sub_decomp:
  assumes "0 < field_of k b n"
  shows "2 ^ k \<le> n" and "Suc (field_of k b (n - 2 ^ k)) < 2 ^ b"
    and "field_of k b n = Suc (field_of k b (n - 2 ^ k))"
proof -
  from assms have d: "0 < n div 2 ^ k" by (auto simp: field_of_def intro: gr0I)
  then show le: "2 ^ k \<le> n" by (simp add: div_greater_zero_iff)
  define m where "m = n div 2 ^ k - 1"
  have m: "n div 2 ^ k = Suc m" using d by (simp add: m_def)
  have m': "(n - 2 ^ k) div 2 ^ k = m" using le by (simp add: m_def le_div_geq)
  show eq: "field_of k b n = Suc (field_of k b (n - 2 ^ k))"
    using assms by (auto simp: field_of_def m m' mod_Suc split: if_splits)
  then show "Suc (field_of k b (n - 2 ^ k)) < 2 ^ b"
    using field_of_less [of k b n] by simp
qed

lemma unat_ucast_field:
  fixes w :: "'a::len word"
  assumes "n \<le> LENGTH('b::len)"
  shows "unat (ucast (drop_bit k (w AND push_bit k (mask n))) :: 'b word) = field_of k n (unat w)"
proof -
  have "field_of k n (unat w) < 2 ^ LENGTH('b)"
    using field_of_less [of k n "unat w"] assms
    by (meson less_le_trans one_le_numeral power_increasing)
  then show ?thesis
    by (simp only: unsigned_ucast_eq unat_field take_bit_nat_eq_self)
qed

lemma unat_push_bit_one:
  assumes "(2::nat) ^ k < 2 ^ LENGTH('a::len)"
  shows "unat (push_bit k 1 :: 'a word) = 2 ^ k"
proof -
  have "unat (push_bit k 1 :: 'a word) = take_bit LENGTH('a) (push_bit k (1::nat))"
    by (simp only: unsigned_push_bit_eq unsigned_1)
  then show ?thesis
    using assms by (simp only: push_bit_eq_mult mult_1 take_bit_nat_eq_self)
qed

lemma unat_add_field:
  fixes w :: "'a::len word"
  assumes "Suc (field_of k b (unat w)) < 2 ^ b" and "k + b \<le> LENGTH('a)"
  shows "unat (w + push_bit k 1) = unat w + 2 ^ k"
proof -
  have b: "unat w + 2 ^ k < 2 ^ LENGTH('a)"
    using field_add_bound [OF assms] by simp
  then have "unat (push_bit k 1 :: 'a word) = 2 ^ k"
    by (intro unat_push_bit_one) linarith
  with b show ?thesis by (simp add: unat_word_ariths)
qed

lemma unat_sub_field:
  fixes w :: "'a::len word"
  assumes "0 < field_of k b (unat w)"
  shows "unat (w - push_bit k 1) = unat w - 2 ^ k"
proof -
  have le: "2 ^ k \<le> unat w"
    by (rule field_sub_decomp (1) [OF assms])
  then have "(2::nat) ^ k < 2 ^ LENGTH('a)"
    using unsigned_less [of w] by (rule le_less_trans)
  then have "unat (push_bit k 1 :: 'a word) = 2 ^ k"
    by (rule unat_push_bit_one)
  with le show ?thesis by (simp add: unat_sub word_le_nat_alt)
qed

lemma word_field_inc:
  fixes w :: "'a::len word"
  assumes "Suc (field_of k b (unat w)) < 2 ^ b" and "k + b \<le> LENGTH('a)"
  shows "field_of k b (unat (w + push_bit k 1)) = Suc (field_of k b (unat w))"
    and "j + c \<le> k \<or> k + b \<le> j \<Longrightarrow>
      field_of j c (unat (w + push_bit k 1)) = field_of j c (unat w)"
  unfolding unat_add_field [OF assms]
  using field_of_add_same [OF assms(1)] field_of_add_below field_of_add_above [OF assms(1)] by auto

lemma word_field_dec:
  fixes w :: "'a::len word"
  assumes "0 < field_of k b (unat w)"
  shows "field_of k b (unat (w - push_bit k 1)) = field_of k b (unat w) - 1"
    and "j + c \<le> k \<or> k + b \<le> j \<Longrightarrow>
      field_of j c (unat (w - push_bit k 1)) = field_of j c (unat w)"
proof -
  note d = field_sub_decomp [OF assms]
  then have w: "unat w = unat (w - push_bit k 1) + 2 ^ k"
    by (simp only: unat_sub_field [OF assms])
  have s: "Suc (field_of k b (unat (w - push_bit k 1))) < 2 ^ b"
    using d(2) by (simp only: unat_sub_field [OF assms])
  show "field_of k b (unat (w - push_bit k 1)) = field_of k b (unat w) - 1"
    using d(3) by (simp only: unat_sub_field [OF assms])
  show "field_of j c (unat (w - push_bit k 1)) = field_of j c (unat w)"
    if "j + c \<le> k \<or> k + b \<le> j"
  proof -
    have "field_of j c (unat (w - push_bit k 1) + 2 ^ k) = field_of j c (unat (w - push_bit k 1))"
      using that field_of_add_below field_of_add_above [OF s] by blast
    then show ?thesis by (simp only: w [symmetric])
  qed
qed

section \<open>Association lists\<close>

lemma map_of_filter_distinct:
  assumes "distinct (map fst al)"
  shows "map_of (filter keep al) key =
    (case map_of al key of Some x \<Rightarrow> if keep (key, x) then Some x else None | None \<Rightarrow> None)"
  using assms
proof (induction al)
  case (Cons e al)
  then have "fst e = key \<Longrightarrow> map_of al key = None"
    by (auto simp: map_of_eq_None_iff)
  with Cons show ?case by (cases e) (auto split: option.splits)
qed simp

section \<open>Tables of names\<close>

lemma find_roundtrip:
  assumes "distinct (map f xs)" and "a \<in> set xs"
  shows "find (\<lambda>b. f b = f a) xs = Some a"
  using assms by (induction xs) auto

section \<open>Decimal text\<close>

fun show_nat :: "nat \<Rightarrow> string" where
  "show_nat n = (if n < 10 then [char_of (48 + n)] else show_nat (n div 10) @ [char_of (48 + n mod 10)])"

declare show_nat.simps [simp del]

section \<open>Substrings\<close>

text \<open>\<open>str::contains\<close>\<close>

definition contains :: "string \<Rightarrow> string \<Rightarrow> bool" where
  "contains pat s \<longleftrightarrow> sublist pat s"

lemma contains_append: "contains pat s \<Longrightarrow> contains pat (s @ t)"
  by (simp add: contains_def sublist_appendI sublist_append)

end
