(* ===== verification/FastLock.thy ===== *)
theory FastLock
  imports Prelude
begin

text \<open>
  The packed lock word of \<open>crates/lock/src/fast_lock/state.rs\<close>: one \<open>u64\<close> that holds the
  writer flag, the number of readers and the two waiting counts. Every operation of
  \<open>AtomicLockState\<close> is a compare-and-swap loop; its loop body is a function from the word
  it loaded to the word it tries to store (None where the body returns without a swap),
  and the method applies that body to the current word. \<open>LockInterleave\<close> treats the loop
  itself, with other threads between the load and the swap.
\<close>

section \<open>The layout of the word\<close>

datatype LockMode = Shared | Exclusive

definition WRITER_FLAG_MASK :: u64 where
  "WRITER_FLAG_MASK = 0x1"

definition READERS_SHIFT :: nat where
  "READERS_SHIFT = 8"

definition READERS_MASK :: u64 where
  "READERS_MASK = push_bit READERS_SHIFT 0xFF"

definition READERS_WAITING_SHIFT :: nat where
  "READERS_WAITING_SHIFT = 16"

definition READERS_WAITING_MASK :: u64 where
  "READERS_WAITING_MASK = push_bit READERS_WAITING_SHIFT 0xFFFF"

definition WRITERS_WAITING_SHIFT :: nat where
  "WRITERS_WAITING_SHIFT = 32"

definition WRITERS_WAITING_MASK :: u64 where
  "WRITERS_WAITING_MASK = push_bit WRITERS_WAITING_SHIFT 0xFFFF"

definition NO_WRITER_AND_NO_WAITING_WRITERS :: u64 where
  "NO_WRITER_AND_NO_WAITING_WRITERS = WRITER_FLAG_MASK OR WRITERS_WAITING_MASK"

definition COMPLETELY_UNLOCKED :: u64 where
  "COMPLETELY_UNLOCKED = 0"

definition readers_count :: "u64 \<Rightarrow> u8" where
  "readers_count state = ucast (drop_bit READERS_SHIFT (state AND READERS_MASK))"

definition readers_waiting :: "u64 \<Rightarrow> u16" where
  "readers_waiting state = ucast (drop_bit READERS_WAITING_SHIFT (state AND READERS_WAITING_MASK))"

definition writers_waiting :: "u64 \<Rightarrow> u16" where
  "writers_waiting state = ucast (drop_bit WRITERS_WAITING_SHIFT (state AND WRITERS_WAITING_MASK))"

lemmas layout_defs [lock_defs] =
  WRITER_FLAG_MASK_def READERS_SHIFT_def READERS_MASK_def READERS_WAITING_SHIFT_def
  READERS_WAITING_MASK_def WRITERS_WAITING_SHIFT_def WRITERS_WAITING_MASK_def
  NO_WRITER_AND_NO_WAITING_WRITERS_def COMPLETELY_UNLOCKED_def

section \<open>The bodies of the compare-and-swap loops\<close>

definition try_acquire_shared_body :: "u64 \<Rightarrow> u64 option" where
  "try_acquire_shared_body current =
     (if current AND NO_WRITER_AND_NO_WAITING_WRITERS \<noteq> 0 then None
      else if readers_count current = 0xFF then None
      else Some (current + push_bit READERS_SHIFT 1))"

definition try_acquire_exclusive_body :: "u64 \<Rightarrow> u64 option" where
  "try_acquire_exclusive_body current = (if current = 0 then Some WRITER_FLAG_MASK else None)"

definition release_shared_body :: "u64 \<Rightarrow> u64 option" where
  "release_shared_body current =
     (if readers_count current = 0 then None
      else Some (current - push_bit READERS_SHIFT 1))"

definition release_exclusive_body :: "u64 \<Rightarrow> u64 option" where
  "release_exclusive_body current =
     (if current AND WRITER_FLAG_MASK = 0 then None
      else Some (current AND NOT WRITER_FLAG_MASK))"

definition inc_readers_waiting_body :: "u64 \<Rightarrow> u64 option" where
  "inc_readers_waiting_body current =
     (if readers_waiting current = 0xFFFF then None
      else Some (current + push_bit READERS_WAITING_SHIFT 1))"

definition dec_readers_waiting_body :: "u64 \<Rightarrow> u64 option" where
  "dec_readers_waiting_body current =
     (if readers_waiting current = 0 then None
      else Some (current - push_bit READERS_WAITING_SHIFT 1))"

definition inc_writers_waiting_body :: "u64 \<Rightarrow> u64 option" where
  "inc_writers_waiting_body current =
     (if writers_waiting current = 0xFFFF then None
      else Some (current + push_bit WRITERS_WAITING_SHIFT 1))"

definition dec_writers_waiting_body :: "u64 \<Rightarrow> u64 option" where
  "dec_writers_waiting_body current =
     (if writers_waiting current = 0 then None
      else Some (current - push_bit WRITERS_WAITING_SHIFT 1))"

lemmas body_defs [lock_defs] =
  try_acquire_shared_body_def try_acquire_exclusive_body_def release_shared_body_def
  release_exclusive_body_def inc_readers_waiting_body_def dec_readers_waiting_body_def
  inc_writers_waiting_body_def dec_writers_waiting_body_def

section \<open>The methods of the atomic lock state\<close>

record AtomicLockState =
  lock_word :: u64
  last_accessed :: u64

definition AtomicLockState_new :: "u64 \<Rightarrow> AtomicLockState" where
  "AtomicLockState_new now = \<lparr>lock_word = 0, last_accessed = now\<rparr>"

definition update_access_time :: "u64 \<Rightarrow> AtomicLockState \<Rightarrow> AtomicLockState" where
  "update_access_time now a = a\<lparr>last_accessed := now\<rparr>"

definition is_fast_path_available :: "AtomicLockState \<Rightarrow> LockMode \<Rightarrow> bool" where
  "is_fast_path_available a mode =
     (case mode of
        Shared \<Rightarrow> lock_word a AND NO_WRITER_AND_NO_WAITING_WRITERS = 0
      | Exclusive \<Rightarrow> lock_word a = COMPLETELY_UNLOCKED)"

definition try_acquire_shared :: "u64 \<Rightarrow> AtomicLockState \<Rightarrow> bool \<times> AtomicLockState" where
  "try_acquire_shared now a =
     (let a = update_access_time now a in
      case try_acquire_shared_body (lock_word a) of
        None \<Rightarrow> (False, a)
      | Some w \<Rightarrow> (True, a\<lparr>lock_word := w\<rparr>))"

definition try_acquire_exclusive :: "u64 \<Rightarrow> AtomicLockState \<Rightarrow> bool \<times> AtomicLockState" where
  "try_acquire_exclusive now a =
     (let a = update_access_time now a in
      case try_acquire_exclusive_body (lock_word a) of
        None \<Rightarrow> (False, a)
      | Some w \<Rightarrow> (True, a\<lparr>lock_word := w\<rparr>))"

definition release_shared :: "u64 \<Rightarrow> AtomicLockState \<Rightarrow> bool \<times> AtomicLockState" where
  "release_shared now a =
     (case release_shared_body (lock_word a) of
        None \<Rightarrow> (False, a)
      | Some w \<Rightarrow> (True, update_access_time now (a\<lparr>lock_word := w\<rparr>)))"

definition release_exclusive :: "u64 \<Rightarrow> AtomicLockState \<Rightarrow> bool \<times> AtomicLockState" where
  "release_exclusive now a =
     (case release_exclusive_body (lock_word a) of
        None \<Rightarrow> (False, a)
      | Some w \<Rightarrow> (True, update_access_time now (a\<lparr>lock_word := w\<rparr>)))"

definition apply_body :: "(u64 \<Rightarrow> u64 option) \<Rightarrow> AtomicLockState \<Rightarrow> AtomicLockState" where
  "apply_body body a =
     (case body (lock_word a) of None \<Rightarrow> a | Some w \<Rightarrow> a\<lparr>lock_word := w\<rparr>)"

definition inc_readers_waiting :: "AtomicLockState \<Rightarrow> AtomicLockState" where
  "inc_readers_waiting = apply_body inc_readers_waiting_body"

definition dec_readers_waiting :: "AtomicLockState \<Rightarrow> AtomicLockState" where
  "dec_readers_waiting = apply_body dec_readers_waiting_body"

definition inc_writers_waiting :: "AtomicLockState \<Rightarrow> AtomicLockState" where
  "inc_writers_waiting = apply_body inc_writers_waiting_body"

definition dec_writers_waiting :: "AtomicLockState \<Rightarrow> AtomicLockState" where
  "dec_writers_waiting = apply_body dec_writers_waiting_body"

definition is_free :: "AtomicLockState \<Rightarrow> bool" where
  "is_free a \<longleftrightarrow> lock_word a = 0"

definition has_waiters :: "AtomicLockState \<Rightarrow> bool" where
  "has_waiters a \<longleftrightarrow> readers_waiting (lock_word a) > 0 \<or> writers_waiting (lock_word a) > 0"

section \<open>The fields as numbers\<close>

definition writer_n :: "u64 \<Rightarrow> nat" where
  "writer_n w = field_of 0 1 (unat w)"

definition readers_n :: "u64 \<Rightarrow> nat" where
  "readers_n w = field_of 8 8 (unat w)"

definition rwait_n :: "u64 \<Rightarrow> nat" where
  "rwait_n w = field_of 16 16 (unat w)"

definition wwait_n :: "u64 \<Rightarrow> nat" where
  "wwait_n w = field_of 32 16 (unat w)"

lemmas field_defs = writer_n_def readers_n_def rwait_n_def wwait_n_def

lemma masks:
  "READERS_MASK = push_bit 8 (mask 8)"
  "READERS_WAITING_MASK = push_bit 16 (mask 16)"
  "WRITERS_WAITING_MASK = push_bit 32 (mask 16)"
  "WRITER_FLAG_MASK = push_bit 0 (mask 1)"
  by (simp_all add: layout_defs mask_eq_exp_minus_1)

lemma unat_readers_count: "unat (readers_count w) = readers_n w"
  unfolding readers_count_def masks READERS_SHIFT_def
  by (simp only: readers_n_def) (rule unat_ucast_field, simp)

lemma unat_readers_waiting: "unat (readers_waiting w) = rwait_n w"
  unfolding readers_waiting_def masks READERS_WAITING_SHIFT_def
  by (simp only: rwait_n_def) (rule unat_ucast_field, simp)

lemma unat_writers_waiting: "unat (writers_waiting w) = wwait_n w"
  unfolding writers_waiting_def masks WRITERS_WAITING_SHIFT_def
  by (simp only: wwait_n_def) (rule unat_ucast_field, simp)


lemma field_le:
  "writer_n w \<le> 1" "readers_n w \<le> 255" "rwait_n w \<le> 65535" "wwait_n w \<le> 65535"
  using field_of_less [of 0 1 "unat w"] field_of_less [of 8 8 "unat w"]
    field_of_less [of 16 16 "unat w"] field_of_less [of 32 16 "unat w"]
  by (simp_all add: field_defs)

lemma field_zero [simp]:
  "writer_n 0 = 0" "readers_n 0 = 0" "rwait_n 0 = 0" "wwait_n 0 = 0"
  by (simp_all add: field_defs field_of_def)

lemma field_one [simp]:
  "writer_n 1 = 1" "readers_n 1 = 0" "rwait_n 1 = 0" "wwait_n 1 = 0"
  by (simp_all add: field_defs field_of_def)

lemma field_writer_flag [simp]:
  "writer_n WRITER_FLAG_MASK = 1" "readers_n WRITER_FLAG_MASK = 0"
  "rwait_n WRITER_FLAG_MASK = 0" "wwait_n WRITER_FLAG_MASK = 0"
  by (simp_all add: WRITER_FLAG_MASK_def)

lemma count_conv:
  "readers_count w = 0xFF \<longleftrightarrow> readers_n w = 255"
  "readers_count w = 0 \<longleftrightarrow> readers_n w = 0"
  "readers_waiting w = 0xFFFF \<longleftrightarrow> rwait_n w = 65535"
  "readers_waiting w = 0 \<longleftrightarrow> rwait_n w = 0"
  "writers_waiting w = 0xFFFF \<longleftrightarrow> wwait_n w = 65535"
  "writers_waiting w = 0 \<longleftrightarrow> wwait_n w = 0"
  by (simp_all flip: unat_readers_count unat_readers_waiting unat_writers_waiting
      add: word_unat_eq_iff)

lemma and_field_zero:
  fixes w :: "'a::len word"
  shows "w AND push_bit k (mask n) = 0 \<longleftrightarrow> field_of k n (unat w) = 0"
proof -
  have "w AND push_bit k (mask n) = push_bit k (drop_bit k (w AND push_bit k (mask n)))"
    by (rule bit_eqI) (auto simp: bit_simps)
  then have "w AND push_bit k (mask n) = 0 \<longleftrightarrow> drop_bit k (w AND push_bit k (mask n)) = 0"
    by (metis drop_bit_of_0 push_bit_of_0)
  also have "\<dots> \<longleftrightarrow> unat (drop_bit k (w AND push_bit k (mask n))) = 0"
    by (simp only: unat_eq_0)
  finally show ?thesis by (simp only: unat_field)
qed

lemma writer_flag_conv: "w AND WRITER_FLAG_MASK = 0 \<longleftrightarrow> writer_n w = 0"
  by (simp only: masks and_field_zero writer_n_def)

lemma fast_mask_conv:
  "w AND NO_WRITER_AND_NO_WAITING_WRITERS = 0 \<longleftrightarrow> writer_n w = 0 \<and> wwait_n w = 0"
proof -
  have "w AND NO_WRITER_AND_NO_WAITING_WRITERS = 0 \<longleftrightarrow>
      w AND WRITER_FLAG_MASK = 0 \<and> w AND WRITERS_WAITING_MASK = 0"
    by (simp add: NO_WRITER_AND_NO_WAITING_WRITERS_def bit.conj_disj_distrib or_eq_0_iff)
  then show ?thesis
    by (simp only: masks and_field_zero field_defs)
qed

section \<open>How each body moves the fields\<close>

text \<open>
  The bits outside the four fields (bits 1 to 7 and 48 to 63) are written by no operation;
  \<open>reserved_clear\<close> says they are zero, as they are from \<open>AtomicLockState::new\<close> on.
\<close>

definition reserved_clear :: "u64 \<Rightarrow> bool" where
  "reserved_clear w \<longleftrightarrow> field_of 1 7 (unat w) = 0 \<and> field_of 48 16 (unat w) = 0"

lemma readers_inc [lock_fields]:
  assumes "readers_n w < 255"
  defines "w' \<equiv> w + 2 ^ READERS_SHIFT"
  shows "readers_n w' = Suc (readers_n w)" "writer_n w' = writer_n w" "rwait_n w' = rwait_n w" "wwait_n w' = wwait_n w"
    "reserved_clear w' = reserved_clear w"
  using word_field_inc [of 8 8 w] assms(1)
  by (simp_all add: w'_def READERS_SHIFT_def field_defs reserved_clear_def)

lemma readers_dec [lock_fields]:
  assumes "0 < readers_n w"
  defines "w' \<equiv> w - 2 ^ READERS_SHIFT"
  shows "readers_n w' = readers_n w - 1" "writer_n w' = writer_n w" "rwait_n w' = rwait_n w" "wwait_n w' = wwait_n w"
    "reserved_clear w' = reserved_clear w"
  using word_field_dec [of 8 8 w] assms(1)
  by (simp_all add: w'_def READERS_SHIFT_def field_defs reserved_clear_def)

lemma rwait_inc [lock_fields]:
  assumes "rwait_n w < 65535"
  defines "w' \<equiv> w + 2 ^ READERS_WAITING_SHIFT"
  shows "rwait_n w' = Suc (rwait_n w)" "readers_n w' = readers_n w" "writer_n w' = writer_n w" "wwait_n w' = wwait_n w"
    "reserved_clear w' = reserved_clear w"
  using word_field_inc [of 16 16 w] assms(1)
  by (simp_all add: w'_def READERS_WAITING_SHIFT_def field_defs reserved_clear_def)

lemma rwait_dec [lock_fields]:
  assumes "0 < rwait_n w"
  defines "w' \<equiv> w - 2 ^ READERS_WAITING_SHIFT"
  shows "rwait_n w' = rwait_n w - 1" "readers_n w' = readers_n w" "writer_n w' = writer_n w" "wwait_n w' = wwait_n w"
    "reserved_clear w' = reserved_clear w"
  using word_field_dec [of 16 16 w] assms(1)
  by (simp_all add: w'_def READERS_WAITING_SHIFT_def field_defs reserved_clear_def)

lemma wwait_inc [lock_fields]:
  assumes "wwait_n w < 65535"
  defines "w' \<equiv> w + 2 ^ WRITERS_WAITING_SHIFT"
  shows "wwait_n w' = Suc (wwait_n w)" "readers_n w' = readers_n w" "writer_n w' = writer_n w" "rwait_n w' = rwait_n w"
    "reserved_clear w' = reserved_clear w"
  using word_field_inc [of 32 16 w] assms(1)
  by (simp_all add: w'_def WRITERS_WAITING_SHIFT_def field_defs reserved_clear_def)

lemma wwait_dec [lock_fields]:
  assumes "0 < wwait_n w"
  defines "w' \<equiv> w - 2 ^ WRITERS_WAITING_SHIFT"
  shows "wwait_n w' = wwait_n w - 1" "readers_n w' = readers_n w" "writer_n w' = writer_n w" "rwait_n w' = rwait_n w"
    "reserved_clear w' = reserved_clear w"
  using word_field_dec [of 32 16 w] assms(1)
  by (simp_all add: w'_def WRITERS_WAITING_SHIFT_def field_defs reserved_clear_def)

lemma clear_writer_conv:
  assumes "0 < writer_n w"
  shows "w AND NOT WRITER_FLAG_MASK = w - 1"
proof -
  have "bit (unat w) 0"
    using assms by (simp add: writer_n_def field_of_def bit_0 odd_iff_mod_2_eq_one)
  then have "bit w 0"
    by (simp only: bit_unsigned_iff)
  then have "w = (w AND NOT 1) OR 1"
    by (intro bit_eqI) (auto simp: bit_simps)
  moreover have "(w AND NOT 1) OR 1 = (w AND NOT 1) + (1::u64)"
    by (rule disjunctive_add [symmetric]) (auto simp: bit_simps)
  ultimately have "w = (w AND NOT 1) + 1" by simp
  then show ?thesis by (simp add: WRITER_FLAG_MASK_def) (metis add_diff_cancel_right')
qed

lemma writer_clear [lock_fields]:
  assumes "0 < writer_n w"
  defines "w' \<equiv> w AND NOT WRITER_FLAG_MASK"
  shows "writer_n w' = 0" "readers_n w' = readers_n w" "rwait_n w' = rwait_n w"
    "wwait_n w' = wwait_n w" "reserved_clear w' = reserved_clear w"
  unfolding w'_def clear_writer_conv [OF assms(1)]
  using word_field_dec [of 0 1 w] assms(1) field_le(1) [of w]
  by (simp_all add: field_defs reserved_clear_def)

section \<open>The abstract reader-writer cell\<close>

text \<open>
  What the word stands for: whether a writer holds it, how many readers hold it and how many
  of each kind have announced that they wait. \<open>spec_of\<close> is the contract of the eight
  operations at that level.
\<close>

datatype rmw = AcqS | AcqX | RelS | RelX | IncRW | DecRW | IncWW | DecWW

record lock_view =
  v_writer :: bool
  v_readers :: nat
  v_rwait :: nat
  v_wwait :: nat

definition view :: "u64 \<Rightarrow> lock_view" where
  "view w = \<lparr>v_writer = (writer_n w \<noteq> 0), v_readers = readers_n w,
             v_rwait = rwait_n w, v_wwait = wwait_n w\<rparr>"

fun body_of :: "rmw \<Rightarrow> u64 \<Rightarrow> u64 option" where
  "body_of AcqS = try_acquire_shared_body"
| "body_of AcqX = try_acquire_exclusive_body"
| "body_of RelS = release_shared_body"
| "body_of RelX = release_exclusive_body"
| "body_of IncRW = inc_readers_waiting_body"
| "body_of DecRW = dec_readers_waiting_body"
| "body_of IncWW = inc_writers_waiting_body"
| "body_of DecWW = dec_writers_waiting_body"

fun spec_of :: "rmw \<Rightarrow> lock_view \<Rightarrow> lock_view option" where
  "spec_of AcqS v = (if v_writer v \<or> 0 < v_wwait v \<or> v_readers v = 255 then None
                     else Some (v\<lparr>v_readers := Suc (v_readers v)\<rparr>))"
| "spec_of AcqX v = (if v_writer v \<or> 0 < v_readers v \<or> 0 < v_rwait v \<or> 0 < v_wwait v then None
                     else Some (v\<lparr>v_writer := True\<rparr>))"
| "spec_of RelS v = (if v_readers v = 0 then None else Some (v\<lparr>v_readers := v_readers v - 1\<rparr>))"
| "spec_of RelX v = (if \<not> v_writer v then None else Some (v\<lparr>v_writer := False\<rparr>))"
| "spec_of IncRW v = (if v_rwait v = 65535 then None else Some (v\<lparr>v_rwait := Suc (v_rwait v)\<rparr>))"
| "spec_of DecRW v = (if v_rwait v = 0 then None else Some (v\<lparr>v_rwait := v_rwait v - 1\<rparr>))"
| "spec_of IncWW v = (if v_wwait v = 65535 then None else Some (v\<lparr>v_wwait := Suc (v_wwait v)\<rparr>))"
| "spec_of DecWW v = (if v_wwait v = 0 then None else Some (v\<lparr>v_wwait := v_wwait v - 1\<rparr>))"

lemma field_peel: "field_of k b n = 0 \<Longrightarrow> n div 2 ^ (k + b) = 0 \<Longrightarrow> n div 2 ^ k = 0"
  using div_mult_mod_eq [of "n div 2 ^ k" "2 ^ b"]
  by (simp add: field_of_def power_add div_mult2_eq)

lemma word_zero_iff:
  fixes w :: u64
  assumes "reserved_clear w"
  shows "w = 0 \<longleftrightarrow> writer_n w = 0 \<and> readers_n w = 0 \<and> rwait_n w = 0 \<and> wwait_n w = 0"
proof
  assume f: "writer_n w = 0 \<and> readers_n w = 0 \<and> rwait_n w = 0 \<and> wwait_n w = 0"
  have "unat w div 2 ^ (48 + 16) = 0"
    using unsigned_less [of w, where ?'a = nat] by simp
  then have "unat w div 2 ^ (32 + 16) = 0"
    using field_peel [of 48 16 "unat w"] assms by (simp add: reserved_clear_def)
  then have "unat w div 2 ^ (16 + 16) = 0"
    using field_peel [of 32 16 "unat w"] f by (simp add: field_defs)
  then have "unat w div 2 ^ (8 + 8) = 0"
    using field_peel [of 16 16 "unat w"] f by (simp add: field_defs)
  then have "unat w div 2 ^ (1 + 7) = 0"
    using field_peel [of 8 8 "unat w"] f by (simp add: field_defs)
  then have "unat w div 2 ^ (0 + 1) = 0"
    using field_peel [of 1 7 "unat w"] assms by (simp add: reserved_clear_def)
  then have "unat w div 2 ^ 0 = 0"
    using field_peel [of 0 1 "unat w"] f by (simp add: field_defs)
  then show "w = 0" by (simp add: unat_eq_0)
qed simp

lemma reserved_clear_init [simp]: "reserved_clear 0" "reserved_clear WRITER_FLAG_MASK"
  by (simp_all add: reserved_clear_def field_of_def WRITER_FLAG_MASK_def)

lemma body_keeps_reserved:
  "reserved_clear w \<Longrightarrow> body_of op w = Some w' \<Longrightarrow> reserved_clear w'"
  using field_le [of w]
  by (cases op) (auto simp: body_defs lock_fields count_conv writer_flag_conv
      split: if_splits)

lemma body_refines:
  assumes "reserved_clear w"
  shows "map_option view (body_of op w) = spec_of op (view w)"
  using assms field_le [of w]
  by (cases op) (auto simp: body_defs view_def lock_fields count_conv writer_flag_conv
      fast_mask_conv word_zero_iff)

section \<open>Properties\<close>

text \<open>
  C6: Every read-modify-write operation on the packed 64-bit lock word does to its four
  fields (writer flag, readers, waiting readers, waiting writers) what the reader-writer
  specification says, refuses exactly when the specification refuses, and never carries or
  borrows into another field or into the reserved bits.
\<close>

theorem lock_word_refines:
  assumes "reserved_clear w"
  shows "map_option view (body_of op w) = spec_of op (view w)
    \<and> pred_option reserved_clear (body_of op w)"
  using body_refines [OF assms] body_keeps_reserved [OF assms]
  by (auto simp: option.pred_set)

theorem lock_word_refines_witness:
  "reserved_clear 0x200 \<and>
   map_option view (body_of AcqS 0x200) =
     Some \<lparr>v_writer = False, v_readers = 3, v_rwait = 0, v_wwait = 0\<rparr>"
proof -
  have r: "reserved_clear 0x200" by (simp add: reserved_clear_def field_of_def)
  have v: "view 0x200 = \<lparr>v_writer = False, v_readers = 2, v_rwait = 0, v_wwait = 0\<rparr>"
    by (simp add: view_def field_defs field_of_def)
  show ?thesis using r lock_word_refines [OF r, of AcqS] by (simp add: v)
qed

end
