(* ===== verification/LockInterleave.thy ===== *)
theory LockInterleave
  imports FastLock
begin

text \<open>
  The compare-and-swap loops of \<open>AtomicLockState\<close> run by any number of threads. A thread
  inside a loop has either not loaded the word yet, or has loaded it and is about to swap;
  between the two any other thread may move. The safety of the lock is proved once, in the
  locale \<open>rw_cell\<close>, for every cell whose operations meet the contract \<open>spec_of\<close>, and
  carried to the packed word by an interpretation.
\<close>

section \<open>Threads\<close>

datatype hold = NotHeld | HeldShared | HeldExclusive

text \<open>
  What a thread holds when it enters an operation, and what it holds once its swap is done.
  The waiting counts are moved by threads that hold nothing.
\<close>

fun hold_before :: "rmw \<Rightarrow> hold" where
  "hold_before RelS = HeldShared"
| "hold_before RelX = HeldExclusive"
| "hold_before _ = NotHeld"

fun hold_after :: "rmw \<Rightarrow> hold" where
  "hold_after AcqS = HeldShared"
| "hold_after AcqX = HeldExclusive"
| "hold_after _ = NotHeld"

datatype 's pc = Ready hold | Loop rmw | Cas rmw 's

record 's sys =
  cell :: 's
  pcs :: "nat \<Rightarrow> 's pc"

fun hold_of :: "'s pc \<Rightarrow> hold" where
  "hold_of (Ready h) = h"
| "hold_of (Loop op) = hold_before op"
| "hold_of (Cas op c) = hold_before op"

definition init_sys :: "'s \<Rightarrow> 's sys" where
  "init_sys c = \<lparr>cell = c, pcs = (\<lambda>_. Ready NotHeld)\<rparr>"

text \<open>
  \<open>try_acquire_exclusive\<close> is one strong compare-and-swap without a loop, so it loads and
  swaps in one step (\<open>xchg\<close>). All other operations load first; their weak swap may fail at
  any time, also when the word is the one they loaded.
\<close>

inductive lstep :: "(rmw \<Rightarrow> 's \<Rightarrow> 's option) \<Rightarrow> 's sys \<Rightarrow> 's sys \<Rightarrow> bool"
  for body :: "rmw \<Rightarrow> 's \<Rightarrow> 's option" where
  call: "pcs s t = Ready (hold_before op) \<Longrightarrow>
    lstep body s (s\<lparr>pcs := (pcs s)(t := Loop op)\<rparr>)"
| leave: "pcs s t = Loop op \<Longrightarrow> body op (cell s) = None \<Longrightarrow>
    lstep body s (s\<lparr>pcs := (pcs s)(t := Ready (hold_before op))\<rparr>)"
| load: "pcs s t = Loop op \<Longrightarrow> op \<noteq> AcqX \<Longrightarrow> body op (cell s) = Some c' \<Longrightarrow>
    lstep body s (s\<lparr>pcs := (pcs s)(t := Cas op (cell s))\<rparr>)"
| swap: "pcs s t = Cas op c \<Longrightarrow> cell s = c \<Longrightarrow> body op c = Some c' \<Longrightarrow>
    lstep body s (s\<lparr>cell := c', pcs := (pcs s)(t := Ready (hold_after op))\<rparr>)"
| retry: "pcs s t = Cas op c \<Longrightarrow>
    lstep body s (s\<lparr>pcs := (pcs s)(t := Loop op)\<rparr>)"
| xchg: "pcs s t = Loop AcqX \<Longrightarrow> body AcqX (cell s) = Some c' \<Longrightarrow>
    lstep body s (s\<lparr>cell := c', pcs := (pcs s)(t := Ready HeldExclusive)\<rparr>)"

inductive lreach :: "(rmw \<Rightarrow> 's \<Rightarrow> 's option) \<Rightarrow> 's \<Rightarrow> 's sys \<Rightarrow> bool"
  for body :: "rmw \<Rightarrow> 's \<Rightarrow> 's option" and c0 :: 's where
  start: "lreach body c0 (init_sys c0)"
| step: "lreach body c0 s \<Longrightarrow> lstep body s s' \<Longrightarrow> lreach body c0 s'"

section \<open>The threads that hold the cell\<close>

definition holders :: "hold \<Rightarrow> 's sys \<Rightarrow> nat set" where
  "holders h s = {t. hold_of (pcs s t) = h}"

lemma holders_upd:
  "holders h (s\<lparr>pcs := (pcs s)(t := p)\<rparr>) =
     (if hold_of p = h then insert t (holders h s) else holders h s - {t})"
  by (auto simp: holders_def)

lemma holders_cell [simp]: "holders h (s\<lparr>cell := c\<rparr>) = holders h s"
  by (simp add: holders_def)

lemma holders_same: "hold_of p = hold_of (pcs s t) \<Longrightarrow>
    holders h (s\<lparr>pcs := (pcs s)(t := p)\<rparr>) = holders h s"
  by (auto simp: holders_def)

lemma mem_holders: "t \<in> holders h s \<longleftrightarrow> hold_of (pcs s t) = h"
  by (simp add: holders_def)

definition counts_agree :: "lock_view \<Rightarrow> 's sys \<Rightarrow> bool" where
  "counts_agree v s \<longleftrightarrow> finite (holders HeldShared s) \<and> finite (holders HeldExclusive s)
     \<and> card (holders HeldShared s) = v_readers v
     \<and> card (holders HeldExclusive s) = (if v_writer v then 1 else 0)
     \<and> (v_writer v \<longrightarrow> v_readers v = 0)"

lemma counts_agree_same:
  "hold_of p = hold_of (pcs s t) \<Longrightarrow>
   counts_agree v (s\<lparr>pcs := (pcs s)(t := p)\<rparr>) = counts_agree v s"
  by (simp add: counts_agree_def holders_same)

lemma counts_agree_cell [simp]:
  "counts_agree v (s\<lparr>cell := c, pcs := f\<rparr>) = counts_agree v (s\<lparr>pcs := f\<rparr>)"
  by (simp add: counts_agree_def holders_def)

lemma counts_agree_spec:
  assumes "counts_agree v s" and "hold_of (pcs s t) = hold_before op"
    and "spec_of op v = Some v'"
  shows "counts_agree v' (s\<lparr>pcs := (pcs s)(t := Ready (hold_after op))\<rparr>)"
  using assms
  by (cases op) (auto simp: counts_agree_def holders_upd mem_holders card_insert_if card_Diff_singleton_if
      split: if_splits)

lemma counts_agree_alone:
  assumes "counts_agree v s" and "hold_of (pcs s t) = HeldExclusive" and "t' \<noteq> t"
  shows "hold_of (pcs s t') = NotHeld"
proof -
  have t: "t \<in> holders HeldExclusive s" using assms(2) by (simp add: mem_holders)
  with assms(1) have w: "v_writer v"
    by (auto simp: counts_agree_def card_eq_0_iff split: if_splits)
  then have "holders HeldShared s = {}" and "\<exists>x. holders HeldExclusive s = {x}"
    using assms(1) by (auto simp: counts_agree_def card_eq_0_iff card_1_singleton_iff)
  then have "t' \<notin> holders HeldShared s" "t' \<notin> holders HeldExclusive s"
    using t assms(3) by auto
  then show ?thesis by (cases "hold_of (pcs s t')") (auto simp: mem_holders)
qed

lemma counts_agree_release:
  assumes "counts_agree v s" and "hold_of (pcs s t) = hold_before op" and "hold_before op \<noteq> NotHeld"
  shows "spec_of op v \<noteq> None"
proof -
  have "holders (hold_before op) s \<noteq> {}" using assms(2) by (auto simp: mem_holders)
  then have "finite (holders (hold_before op) s) \<Longrightarrow> 0 < card (holders (hold_before op) s)"
    by (simp add: card_gt_0_iff)
  then show ?thesis
    using assms(1,3) by (cases op) (auto simp: counts_agree_def split: if_splits)
qed

section \<open>A cell that meets the contract\<close>

locale rw_cell =
  fixes body :: "rmw \<Rightarrow> 's \<Rightarrow> 's option"
    and viewc :: "'s \<Rightarrow> lock_view"
    and ok :: "'s \<Rightarrow> bool"
    and c0 :: 's
  assumes refines: "ok c \<Longrightarrow> map_option viewc (body op c) = spec_of op (viewc c)"
    and keeps_ok: "ok c \<Longrightarrow> body op c = Some c' \<Longrightarrow> ok c'"
    and ok_init: "ok c0"
    and view_init: "\<not> v_writer (viewc c0)" "v_readers (viewc c0) = 0"
begin

definition cinv :: "'s sys \<Rightarrow> bool" where
  "cinv s \<longleftrightarrow> ok (cell s) \<and> counts_agree (viewc (cell s)) s"

lemma body_spec: "ok c \<Longrightarrow> body op c = Some c' \<Longrightarrow> spec_of op (viewc c) = Some (viewc c')"
  using refines [of c op] by simp

lemma body_none: "ok c \<Longrightarrow> body op c = None \<longleftrightarrow> spec_of op (viewc c) = None"
  using refines [of c op] by (metis map_option_is_None)

lemma cinv_init: "cinv (init_sys c0)"
  using ok_init view_init by (simp add: cinv_def counts_agree_def init_sys_def holders_def)

lemma cinv_move:
  assumes "cinv s" and "hold_of p = hold_of (pcs s t)"
  shows "cinv (s\<lparr>pcs := (pcs s)(t := p)\<rparr>)"
  using assms by (simp add: cinv_def counts_agree_same)

lemma cinv_swap:
  assumes inv: "cinv s" and h: "hold_of (pcs s t) = hold_before op"
    and b: "body op (cell s) = Some c'"
  shows "cinv (s\<lparr>cell := c', pcs := (pcs s)(t := Ready (hold_after op))\<rparr>)"
proof -
  have "ok (cell s)" using inv by (simp add: cinv_def)
  then have "ok c'" and "spec_of op (viewc (cell s)) = Some (viewc c')"
    using keeps_ok body_spec b by blast+
  with inv h show ?thesis
    using counts_agree_spec [of "viewc (cell s)" s t op "viewc c'"]
    by (simp add: cinv_def)
qed

lemma cinv_step: "lstep body s s' \<Longrightarrow> cinv s \<Longrightarrow> cinv s'"
proof (induction rule: lstep.induct)
  case (swap s t op c c')
  then show ?case using cinv_swap [of s t op c'] by simp
next
  case (xchg s t c')
  then show ?case using cinv_swap [of s t AcqX c'] by simp
qed (auto intro: cinv_move)

lemma cinv_reach: "lreach body c0 s \<Longrightarrow> cinv s"
  by (induction rule: lreach.induct) (auto intro: cinv_init cinv_step)

lemma exclusive_alone:
  assumes "lreach body c0 s" and "hold_of (pcs s t) = HeldExclusive" and "t' \<noteq> t"
  shows "hold_of (pcs s t') = NotHeld"
  using counts_agree_alone cinv_reach [OF assms(1)] assms(2,3) by (auto simp: cinv_def)

lemma readers_counted:
  assumes "lreach body c0 s"
  shows "v_readers (viewc (cell s)) = card (holders HeldShared s)"
  using cinv_reach [OF assms] by (simp add: cinv_def counts_agree_def)

lemma release_never_refused:
  assumes "lreach body c0 s" and "pcs s t = Loop op" and "hold_before op \<noteq> NotHeld"
  shows "body op (cell s) \<noteq> None"
  using counts_agree_release [of "viewc (cell s)" s t op] cinv_reach [OF assms(1)] assms(2,3)
  by (simp add: cinv_def body_none)

end

interpretation word_cell: rw_cell body_of view reserved_clear 0
  by unfold_locales (auto simp: body_refines body_keeps_reserved view_def)

section \<open>Properties\<close>

text \<open>An operation that no other thread disturbs.\<close>

lemma lreach_op:
  assumes "lreach body c0 s" and "pcs s t = Ready (hold_before op)" and "body op (cell s) = Some c'"
  shows "lreach body c0 (s\<lparr>cell := c', pcs := (pcs s)(t := Ready (hold_after op))\<rparr>)"
proof -
  let ?s1 = "s\<lparr>pcs := (pcs s)(t := Loop op)\<rparr>"
  have 1: "lreach body c0 ?s1"
    by (rule lreach.step [OF assms(1) lstep.call [OF assms(2)]])
  show ?thesis
  proof (cases "op = AcqX")
    case True
    then have "lstep body ?s1 (s\<lparr>cell := c', pcs := (pcs s)(t := Ready (hold_after op))\<rparr>)"
      using lstep.xchg [of ?s1 t body c'] assms(3) by simp
    with 1 show ?thesis by (rule lreach.step)
  next
    case False
    let ?s2 = "s\<lparr>pcs := (pcs s)(t := Cas op (cell s))\<rparr>"
    have "lstep body ?s1 ?s2" using lstep.load [of ?s1 t op body c'] False assms(3) by simp
    then have 2: "lreach body c0 ?s2" by (rule lreach.step [OF 1])
    have "lstep body ?s2 (s\<lparr>cell := c', pcs := (pcs s)(t := Ready (hold_after op))\<rparr>)"
      using lstep.swap [of ?s2 t op "cell s" body c'] assms(3) by simp
    with 2 show ?thesis by (rule lreach.step)
  qed
qed

text \<open>
  C2: Mutual exclusion. However the compare-and-swap loops of any number of threads
  interleave on one lock word, while a thread holds the lock exclusively no other thread
  holds it in either mode.
\<close>

theorem lock_mutual_exclusion:
  assumes "lreach body_of 0 s" and "hold_of (pcs s t) = HeldExclusive" and "t' \<noteq> t"
  shows "hold_of (pcs s t') = NotHeld"
  using assms by (rule word_cell.exclusive_alone)

theorem lock_mutual_exclusion_witness:
  "\<exists>s. lreach body_of 0 s \<and> hold_of (pcs s 0) = HeldExclusive \<and> hold_of (pcs s 1) = NotHeld"
proof -
  let ?s = "(init_sys 0)\<lparr>cell := WRITER_FLAG_MASK, pcs := (pcs (init_sys 0))(0 := Ready HeldExclusive)\<rparr>"
  have r: "lreach body_of 0 ?s"
    using lreach_op [OF lreach.start, of 0 0 AcqX body_of WRITER_FLAG_MASK]
    by (simp add: init_sys_def body_defs)
  then have "hold_of (pcs ?s 1) = NotHeld" by (rule lock_mutual_exclusion [where t = 0]) simp_all
  with r show ?thesis by (intro exI [of _ ?s]) simp
qed

text \<open>
  C14: In every reachable state the reader field of the word is the number of threads that
  hold the lock shared, and a thread that holds the lock is never refused its release.
\<close>

theorem lock_word_counts_holders:
  assumes "lreach body_of 0 s"
  shows "readers_n (cell s) = card (holders HeldShared s)
    \<and> (\<forall>t op. pcs s t = Loop op \<and> hold_before op \<noteq> NotHeld \<longrightarrow> body_of op (cell s) \<noteq> None)"
  using word_cell.readers_counted [OF assms] word_cell.release_never_refused [OF assms]
  by (auto simp: view_def)

theorem lock_word_counts_holders_witness:
  "\<exists>s. lreach body_of 0 s \<and> readers_n (cell s) = 1 \<and> card (holders HeldShared s) = 1"
proof -
  let ?s = "(init_sys 0)\<lparr>cell := 2 ^ READERS_SHIFT, pcs := (pcs (init_sys 0))(0 := Ready HeldShared)\<rparr>"
  have b: "body_of AcqS 0 = Some (2 ^ READERS_SHIFT)"
    by (simp add: body_defs layout_defs readers_count_def)
  have r: "lreach body_of 0 ?s"
    using lreach_op [OF lreach.start, of 0 0 AcqS body_of "2 ^ READERS_SHIFT"] b
    by (simp add: init_sys_def)
  have "readers_n (cell ?s) = 1" by (simp add: field_defs layout_defs field_of_def)
  with r lock_word_counts_holders [OF r] show ?thesis by (intro exI [of _ ?s]) simp
qed


end
