(* ===== verification/ObjectLock.thy ===== *)
theory ObjectLock
  imports FastLock
begin

text \<open>
  \<open>ObjectLockState\<close> of \<open>crates/lock/src/fast_lock/state.rs\<close>: the packed word together with
  the owners that hold it, the notification counters of \<open>optimized_notify.rs\<close> and the
  reset of \<open>object_pool.rs\<close>. A method reads the clock once: \<open>now\<close> is that reading in
  nanoseconds since the epoch. A signal sent to the pool of notifiers is part of the
  result. The tokio \<open>Notify\<close> fields \<open>read_notify\<close> and \<open>write_notify\<close> are touched by no
  method and are left out.
\<close>

section \<open>Data\<close>

type_synonym owner = string

datatype LockPriority = Low | Normal | High | Critical

record ExclusiveOwnerInfo =
  xo_owner :: owner
  xo_acquired_at :: nat
  xo_lock_timeout :: nat

record SharedOwnerEntry =
  so_owner :: owner
  so_count :: nat
  so_acquired_at :: nat
  so_lock_timeout :: nat

record OptimizedNotify =
  reader_waiters :: nat
  writer_waiters :: nat
  notify_pool_index :: nat

datatype signal = NotifyWaiters nat | NotifyOne nat

record ObjectLockState =
  atomic_state :: AtomicLockState
  optimized_notify :: OptimizedNotify
  current_owner :: "ExclusiveOwnerInfo option"
  shared_owners :: "SharedOwnerEntry list"
  priority :: LockPriority

definition NOTIFY_POOL_LEN :: nat where
  "NOTIFY_POOL_LEN = 128"

text \<open>The clock: whole seconds for the access time, and \<open>u32::saturating_add\<close>.\<close>

definition as_secs :: "nat \<Rightarrow> u64" where
  "as_secs now = of_nat (now div 10 ^ 9)"

definition sat_inc :: "nat \<Rightarrow> nat" where
  "sat_inc n = min (Suc n) (2 ^ 32 - 1)"

section \<open>Operations\<close>

definition OptimizedNotify_new :: "nat \<Rightarrow> OptimizedNotify" where
  "OptimizedNotify_new now =
     \<lparr>reader_waiters = 0, writer_waiters = 0, notify_pool_index = now mod 2 ^ 64 mod NOTIFY_POOL_LEN\<rparr>"

definition notify_readers :: "OptimizedNotify \<Rightarrow> signal list" where
  "notify_readers n =
     (if reader_waiters n > 0 then [NotifyWaiters (notify_pool_index n mod NOTIFY_POOL_LEN)] else [])"

definition notify_writer :: "OptimizedNotify \<Rightarrow> signal list" where
  "notify_writer n =
     (if writer_waiters n > 0 then [NotifyOne (notify_pool_index n mod NOTIFY_POOL_LEN)] else [])"

definition ObjectLockState_new :: "nat \<Rightarrow> ObjectLockState" where
  "ObjectLockState_new now =
     \<lparr>atomic_state = AtomicLockState_new (as_secs now),
      optimized_notify = OptimizedNotify_new now,
      current_owner = None,
      shared_owners = [],
      priority = Normal\<rparr>"

definition reset_for_reuse :: "nat \<Rightarrow> ObjectLockState \<Rightarrow> ObjectLockState" where
  "reset_for_reuse now s =
     s\<lparr>atomic_state := AtomicLockState_new (as_secs now),
       current_owner := None,
       shared_owners := [],
       priority := Normal,
       optimized_notify := OptimizedNotify_new now\<rparr>"

text \<open>
  The entry of the first owner with that name is bumped and refreshed; without one, a new
  entry goes to the end.
\<close>

fun record_shared :: "owner \<Rightarrow> nat \<Rightarrow> nat \<Rightarrow> SharedOwnerEntry list \<Rightarrow> SharedOwnerEntry list" where
  "record_shared own now tmo [] =
     [\<lparr>so_owner = own, so_count = 1, so_acquired_at = now, so_lock_timeout = tmo\<rparr>]"
| "record_shared own now tmo (e # es) =
     (if so_owner e = own
      then e\<lparr>so_count := sat_inc (so_count e), so_acquired_at := now, so_lock_timeout := tmo\<rparr> # es
      else e # record_shared own now tmo es)"

definition try_acquire_shared_fast ::
    "nat \<Rightarrow> owner \<Rightarrow> nat \<Rightarrow> ObjectLockState \<Rightarrow> bool \<times> ObjectLockState" where
  "try_acquire_shared_fast now own lock_timeout s =
     (case try_acquire_shared (as_secs now) (atomic_state s) of
        (False, a) \<Rightarrow> (False, s\<lparr>atomic_state := a\<rparr>)
      | (True, a) \<Rightarrow>
          (True, s\<lparr>atomic_state := update_access_time (as_secs now) a,
                   shared_owners := record_shared own now lock_timeout (shared_owners s)\<rparr>))"

definition try_acquire_exclusive_fast ::
    "nat \<Rightarrow> owner \<Rightarrow> nat \<Rightarrow> ObjectLockState \<Rightarrow> bool \<times> ObjectLockState" where
  "try_acquire_exclusive_fast now own lock_timeout s =
     (case try_acquire_exclusive (as_secs now) (atomic_state s) of
        (False, a) \<Rightarrow> (False, s\<lparr>atomic_state := a\<rparr>)
      | (True, a) \<Rightarrow>
          (True, s\<lparr>atomic_state := update_access_time (as_secs now) a,
                   current_owner := Some \<lparr>xo_owner = own, xo_acquired_at = now,
                                          xo_lock_timeout = lock_timeout\<rparr>\<rparr>))"

text \<open>
  The two list edits of \<open>release_shared\<close>: one share less at the owner's position (the entry
  goes away with its last share), and its undo when the word refused the release.
\<close>

fun drop_share :: "owner \<Rightarrow> SharedOwnerEntry list \<Rightarrow> SharedOwnerEntry list" where
  "drop_share own [] = []"
| "drop_share own (e # es) =
     (if so_owner e = own
      then (if so_count e > 1 then e\<lparr>so_count := so_count e - 1\<rparr> # es else es)
      else e # drop_share own es)"

fun bump_share :: "owner \<Rightarrow> SharedOwnerEntry list \<Rightarrow> SharedOwnerEntry list option" where
  "bump_share own [] = None"
| "bump_share own (e # es) =
     (if so_owner e = own then Some (e\<lparr>so_count := sat_inc (so_count e)\<rparr> # es)
      else map_option ((#) e) (bump_share own es))"

definition release_shared_obj ::
    "nat \<Rightarrow> owner \<Rightarrow> ObjectLockState \<Rightarrow> bool \<times> ObjectLockState \<times> signal list" where
  "release_shared_obj now own s =
     (case find (\<lambda>e. so_owner e = own) (shared_owners s) of
        None \<Rightarrow> (False, s, [])
      | Some original_entry \<Rightarrow>
          (let shared = drop_share own (shared_owners s) in
           case release_shared (as_secs now) (atomic_state s) of
             (True, a) \<Rightarrow>
               (True, s\<lparr>atomic_state := a, shared_owners := shared\<rparr>,
                if shared = [] then notify_writer (optimized_notify s) else [])
           | (False, a) \<Rightarrow>
               (False,
                s\<lparr>atomic_state := a,
                  shared_owners :=
                    (if so_count original_entry > 1
                     then (case bump_share own shared of
                             Some es \<Rightarrow> es
                           | None \<Rightarrow> shared @ [original_entry])
                     else shared @ [original_entry])\<rparr>, [])))"

definition release_exclusive_obj ::
    "nat \<Rightarrow> owner \<Rightarrow> ObjectLockState \<Rightarrow> bool \<times> ObjectLockState \<times> signal list" where
  "release_exclusive_obj now own s =
     (case current_owner s of
        None \<Rightarrow> (False, s, [])
      | Some info \<Rightarrow>
          if xo_owner info = own then
            (case release_exclusive (as_secs now) (atomic_state s) of
               (True, a) \<Rightarrow>
                 (True, s\<lparr>atomic_state := a, current_owner := None\<rparr>,
                  if writers_waiting (lock_word a) > 0
                  then notify_writer (optimized_notify s)
                  else notify_readers (optimized_notify s))
             | (False, a) \<Rightarrow> (False, s\<lparr>atomic_state := a\<rparr>, []))
          else (False, s, []))"

definition is_locked :: "ObjectLockState \<Rightarrow> bool" where
  "is_locked s \<longleftrightarrow> \<not> is_free (atomic_state s)"

definition current_mode :: "ObjectLockState \<Rightarrow> LockMode option" where
  "current_mode s =
     (let state = lock_word (atomic_state s) in
      if state AND WRITER_FLAG_MASK \<noteq> 0 then Some Exclusive
      else if readers_count state > 0 then Some Shared
      else None)"

section \<open>The owners agree with the word\<close>

definition shares :: "owner \<Rightarrow> SharedOwnerEntry list \<Rightarrow> nat" where
  "shares own es = (case find (\<lambda>e. so_owner e = own) es of None \<Rightarrow> 0 | Some e \<Rightarrow> so_count e)"

definition entries_ok :: "SharedOwnerEntry list \<Rightarrow> bool" where
  "entries_ok es \<longleftrightarrow> distinct (map so_owner es) \<and> (\<forall>e \<in> set es. 0 < so_count e)"

definition total_shares :: "SharedOwnerEntry list \<Rightarrow> nat" where
  "total_shares es = sum_list (map so_count es)"

definition obj_inv :: "ObjectLockState \<Rightarrow> bool" where
  "obj_inv s \<longleftrightarrow>
     reserved_clear (lock_word (atomic_state s))
     \<and> entries_ok (shared_owners s)
     \<and> total_shares (shared_owners s) = readers_n (lock_word (atomic_state s))
     \<and> (current_owner s \<noteq> None \<longleftrightarrow> writer_n (lock_word (atomic_state s)) \<noteq> 0)
     \<and> (current_owner s \<noteq> None \<longrightarrow> shared_owners s = [])"

lemma shares_simps [simp]:
  "shares own [] = 0"
  "shares own (e # es) = (if so_owner e = own then so_count e else shares own es)"
  by (simp_all add: shares_def)

lemma total_simps [simp]:
  "total_shares [] = 0" "total_shares (e # es) = so_count e + total_shares es"
  by (simp_all add: total_shares_def)

lemma entries_ok_simps [simp]:
  "entries_ok []"
  "entries_ok (e # es) \<longleftrightarrow> so_owner e \<notin> so_owner ` set es \<and> 0 < so_count e \<and> entries_ok es"
  by (auto simp: entries_ok_def)

lemma shares_le_total: "shares own es \<le> total_shares es"
  by (induction es) auto

lemma find_owner_iff: "find (\<lambda>e. so_owner e = own) es = None \<longleftrightarrow> own \<notin> so_owner ` set es"
  by (auto simp: find_None_iff)

lemma shares_pos_iff: "entries_ok es \<Longrightarrow> 0 < shares own es \<longleftrightarrow> own \<in> so_owner ` set es"
  by (induction es) auto

lemma owner_record_shared: "so_owner ` set (record_shared own now tmo es) = insert own (so_owner ` set es)"
  by (induction es) auto

lemma owner_drop_share: "so_owner ` set (drop_share own es) \<subseteq> so_owner ` set es"
  by (induction es) auto

lemma sat_inc_small: "n < 2 ^ 32 - 1 \<Longrightarrow> sat_inc n = Suc n"
  by (simp add: sat_inc_def)

lemma entries_ok_record: "entries_ok es \<Longrightarrow> entries_ok (record_shared own now tmo es)"
  by (induction es) (auto simp: owner_record_shared sat_inc_def)

lemma total_record:
  "total_shares es < 255 \<Longrightarrow> total_shares (record_shared own now tmo es) = Suc (total_shares es)"
  by (induction es) (auto simp: sat_inc_small)

lemma shares_record:
  "total_shares es < 255 \<Longrightarrow>
   shares o' (record_shared own now tmo es) = (if o' = own then Suc (shares own es) else shares o' es)"
  by (induction es) (auto simp: sat_inc_small)

lemma entries_ok_drop: "entries_ok es \<Longrightarrow> entries_ok (drop_share own es)"
  using owner_drop_share [of own] by (induction es) (auto; blast)+

lemma total_drop:
  "own \<in> so_owner ` set es \<Longrightarrow> entries_ok es \<Longrightarrow>
   Suc (total_shares (drop_share own es)) = total_shares es"
  by (induction es) auto

lemma shares_absent: "own \<notin> so_owner ` set es \<Longrightarrow> shares own es = 0"
  by (induction es) auto

lemma shares_drop:
  "entries_ok es \<Longrightarrow>
   shares o' (drop_share own es) = (if o' = own then shares own es - 1 else shares o' es)"
  by (induction es) (auto simp: shares_absent)

section \<open>What each operation does\<close>

lemma obj_inv_new [simp]: "obj_inv (ObjectLockState_new now)" "obj_inv (reset_for_reuse now s)"
  by (simp_all add: obj_inv_def ObjectLockState_new_def reset_for_reuse_def AtomicLockState_new_def)

lemmas method_defs =
  try_acquire_shared_def try_acquire_exclusive_def release_shared_def release_exclusive_def
  update_access_time_def Let_def

lemma total_zero_iff: "entries_ok es \<Longrightarrow> total_shares es = 0 \<longleftrightarrow> es = []"
  by (cases es) auto

lemma has_waiters_conv:
  "has_waiters a \<longleftrightarrow> 0 < rwait_n (lock_word a) \<or> 0 < wwait_n (lock_word a)"
  by (simp add: has_waiters_def count_conv flip: neq0_conv word_neq_0_conv)

lemma acquire_shared_fast:
  assumes inv: "obj_inv s" and call: "try_acquire_shared_fast now own tmo s = (r, s')"
  shows "obj_inv s'
    \<and> (r \<longleftrightarrow> current_owner s = None \<and> wwait_n (lock_word (atomic_state s)) = 0
          \<and> total_shares (shared_owners s) < 255)
    \<and> current_owner s' = current_owner s
    \<and> shares o' (shared_owners s') =
          (if r \<and> o' = own then Suc (shares own (shared_owners s)) else shares o' (shared_owners s))"
proof (cases "try_acquire_shared_body (lock_word (atomic_state s))")
  case None
  then show ?thesis
    using inv call field_le [of "lock_word (atomic_state s)"]
    by (auto simp: try_acquire_shared_fast_def method_defs obj_inv_def body_defs
        fast_mask_conv count_conv split: if_splits)
next
  case (Some w')
  let ?w = "lock_word (atomic_state s)"
  from Some have "writer_n ?w = 0" "wwait_n ?w = 0" "readers_n ?w < 255" "w' = ?w + 2 ^ READERS_SHIFT"
    using field_le [of ?w] by (auto simp: body_defs fast_mask_conv count_conv split: if_splits)
  then show ?thesis
    using inv call Some
    by (auto simp: try_acquire_shared_fast_def method_defs obj_inv_def lock_fields
        entries_ok_record total_record shares_record)
qed

lemma acquire_exclusive_fast:
  assumes inv: "obj_inv s" and call: "try_acquire_exclusive_fast now own tmo s = (r, s')"
  shows "obj_inv s'
    \<and> (r \<longleftrightarrow> current_owner s = None \<and> shared_owners s = [] \<and> \<not> has_waiters (atomic_state s))
    \<and> shared_owners s' = shared_owners s
    \<and> map_option xo_owner (current_owner s') =
          (if r then Some own else map_option xo_owner (current_owner s))"
proof -
  let ?w = "lock_word (atomic_state s)"
  have "?w = 0 \<longleftrightarrow> current_owner s = None \<and> shared_owners s = [] \<and> \<not> has_waiters (atomic_state s)"
    using inv word_zero_iff [of ?w] total_zero_iff
    by (auto simp: obj_inv_def has_waiters_conv)
  then show ?thesis
    using inv call
    by (auto simp: try_acquire_exclusive_fast_def method_defs obj_inv_def body_defs split: if_splits)
qed

lemma release_shared_obj:
  assumes inv: "obj_inv s" and call: "release_shared_obj now own s = (r, s', sig)"
  shows "obj_inv s'
    \<and> (r \<longleftrightarrow> 0 < shares own (shared_owners s))
    \<and> current_owner s' = current_owner s
    \<and> shares o' (shared_owners s') =
          (if o' = own then shares own (shared_owners s) - 1 else shares o' (shared_owners s))
    \<and> (\<not> r \<longrightarrow> s' = s)"
proof (cases "own \<in> so_owner ` set (shared_owners s)")
  case False
  then have "find (\<lambda>e. so_owner e = own) (shared_owners s) = None"
    by (simp add: find_owner_iff)
  with False inv call show ?thesis
    by (auto simp: release_shared_obj_def shares_absent)
next
  case True
  let ?w = "lock_word (atomic_state s)"
  have ok: "entries_ok (shared_owners s)" and tot: "total_shares (shared_owners s) = readers_n ?w"
    using inv by (auto simp: obj_inv_def)
  have pos: "0 < shares own (shared_owners s)" using True ok by (simp add: shares_pos_iff)
  then have rd: "0 < readers_n ?w"
    using shares_le_total [of own "shared_owners s"] tot by simp
  then have b: "release_shared_body ?w = Some (?w - 2 ^ READERS_SHIFT)"
    by (simp add: body_defs count_conv)
  obtain e where "find (\<lambda>e. so_owner e = own) (shared_owners s) = Some e"
    using True find_owner_iff [of own "shared_owners s"] by (auto simp del: find_None_iff)
  then show ?thesis
    using call inv True pos rd b ok total_drop [OF True ok]
    by (auto simp: release_shared_obj_def method_defs obj_inv_def lock_fields
        entries_ok_drop shares_drop)
qed

lemma release_exclusive_obj:
  assumes inv: "obj_inv s" and call: "release_exclusive_obj now own s = (r, s', sig)"
  shows "obj_inv s'
    \<and> (r \<longleftrightarrow> map_option xo_owner (current_owner s) = Some own)
    \<and> shared_owners s' = shared_owners s
    \<and> current_owner s' = (if r then None else current_owner s)
    \<and> (\<not> r \<longrightarrow> s' = s)"
proof (cases "map_option xo_owner (current_owner s) = Some own")
  case False
  with inv call show ?thesis
    by (auto simp: release_exclusive_obj_def split: option.splits)
next
  case True
  let ?w = "lock_word (atomic_state s)"
  from True inv have "0 < writer_n ?w" by (auto simp: obj_inv_def)
  then have "release_exclusive_body ?w = Some (?w AND NOT WRITER_FLAG_MASK)"
    and "writer_n (?w AND NOT WRITER_FLAG_MASK) = 0"
    by (simp_all add: body_defs writer_flag_conv lock_fields)
  then show ?thesis
    using True call inv \<open>0 < writer_n ?w\<close>
    by (auto simp: release_exclusive_obj_def method_defs obj_inv_def lock_fields)
qed

lemma current_mode_conv:
  assumes "obj_inv s"
  shows "current_mode s = Some Exclusive \<longleftrightarrow> current_owner s \<noteq> None"
    and "current_mode s = Some Shared \<longleftrightarrow> shared_owners s \<noteq> []"
    and "current_mode s = None \<longleftrightarrow> current_owner s = None \<and> shared_owners s = []"
  using assms total_zero_iff [of "shared_owners s"]
  by (auto simp: current_mode_def Let_def obj_inv_def writer_flag_conv count_conv word_gt_0)

text \<open>A waiter announces itself and leaves again: only the waiting counts move.\<close>

definition on_word :: "(AtomicLockState \<Rightarrow> AtomicLockState) \<Rightarrow> ObjectLockState \<Rightarrow> ObjectLockState" where
  "on_word f s = s\<lparr>atomic_state := f (atomic_state s)\<rparr>"

lemma waiting_keeps_obj_inv:
  assumes "obj_inv s"
  shows "obj_inv (on_word inc_readers_waiting s)" "obj_inv (on_word dec_readers_waiting s)"
    "obj_inv (on_word inc_writers_waiting s)" "obj_inv (on_word dec_writers_waiting s)"
  using assms field_le [of "lock_word (atomic_state s)"]
  by (auto simp: on_word_def obj_inv_def inc_readers_waiting_def dec_readers_waiting_def
      inc_writers_waiting_def dec_writers_waiting_def apply_body_def body_defs count_conv lock_fields)

lemma waiting_keeps_owners [simp]:
  "current_owner (on_word f s) = current_owner s" "shared_owners (on_word f s) = shared_owners s"
  by (simp_all add: on_word_def)

end
