(* ===== verification/Shard.thy ===== *)
theory Shard
  imports Complex_Main ObjectLock "HOL-Library.AList" "HOL-Library.List_Lexorder" "HOL-Library.Char_ord"
    "HOL-Library.Option_ord" "HOL-Library.Product_Lexorder"
begin

text \<open>
  One shard of the lock table (\<open>crates/lock/src/fast_lock/shard.rs\<close>), with its state pool
  (\<open>object_pool.rs\<close>) and its counters (\<open>metrics.rs\<close>). The hash map of lock states is an
  association list with distinct keys. Where the source walks the map in hash order, the
  order is an argument. The \<open>f64\<close> load factor is a rational number: a quotient of two
  counts compared with a two-digit constant, on which rounding has no effect below \<open>2^50\<close>
  objects.
\<close>

section \<open>Keys, requests and the shard\<close>

datatype ObjectKey = ObjectKey (key_bucket: string) (key_object: string) (key_version: "string option")

text \<open>The derived order of the key: bucket, then object, then version (none first).\<close>

instantiation ObjectKey :: linorder
begin

definition less_eq_ObjectKey :: "ObjectKey \<Rightarrow> ObjectKey \<Rightarrow> bool" where
  "less_eq_ObjectKey a b \<longleftrightarrow>
     (key_bucket a, key_object a, key_version a) \<le> (key_bucket b, key_object b, key_version b)"

definition less_ObjectKey :: "ObjectKey \<Rightarrow> ObjectKey \<Rightarrow> bool" where
  "less_ObjectKey a b \<longleftrightarrow>
     (key_bucket a, key_object a, key_version a) < (key_bucket b, key_object b, key_version b)"

instance
proof
  fix x y z :: ObjectKey
  show "x < y \<longleftrightarrow> x \<le> y \<and> \<not> y \<le> x"
    by (simp only: less_ObjectKey_def less_eq_ObjectKey_def less_le_not_le)
  show "x \<le> x" by (simp only: less_eq_ObjectKey_def order_refl)
  show "x \<le> y \<Longrightarrow> y \<le> z \<Longrightarrow> x \<le> z"
    unfolding less_eq_ObjectKey_def by (rule order_trans)
  show "x \<le> y \<or> y \<le> x" unfolding less_eq_ObjectKey_def by (rule linear)
  assume "x \<le> y" "y \<le> x"
  then have "(key_bucket x, key_object x, key_version x) = (key_bucket y, key_object y, key_version y)"
    unfolding less_eq_ObjectKey_def by (rule order_antisym)
  then show "x = y" by (simp add: ObjectKey.expand)
qed

end

record ObjectLockRequest =
  req_key :: ObjectKey
  req_mode :: LockMode
  req_owner :: owner
  req_acquire_timeout :: nat
  req_lock_timeout :: nat
  req_priority :: LockPriority

datatype LockResult = Acquired | Timeout | Conflict owner LockMode

record ShardMetrics =
  fast_path_success :: u64
  slow_path_success :: u64
  timeouts :: u64
  releases :: u64
  cleanups :: u64
  contention_events :: u64
  total_wait_time_ns :: u64
  max_wait_time_ns :: u64

record ObjectStatePool =
  pool :: "ObjectLockState list"
  hits :: u64
  misses :: u64
  pool_releases :: u64

type_synonym object_map = "(ObjectKey \<times> ObjectLockState) list"

record LockShard =
  objects :: object_map
  object_pool :: ObjectStatePool
  metrics :: ShardMetrics
  active_guards :: "u64 set"

definition ShardMetrics_new :: ShardMetrics where
  "ShardMetrics_new = \<lparr>fast_path_success = 0, slow_path_success = 0, timeouts = 0, releases = 0,
     cleanups = 0, contention_events = 0, total_wait_time_ns = 0, max_wait_time_ns = 0\<rparr>"

definition ObjectStatePool_new :: ObjectStatePool where
  "ObjectStatePool_new = \<lparr>pool = [], hits = 0, misses = 0, pool_releases = 0\<rparr>"

definition LockShard_new :: LockShard where
  "LockShard_new = \<lparr>objects = [], object_pool = ObjectStatePool_new, metrics = ShardMetrics_new,
     active_guards = {}\<rparr>"

section \<open>The counters and the pool\<close>

definition record_fast_path_success :: "LockShard \<Rightarrow> LockShard" where
  "record_fast_path_success sh =
     sh\<lparr>metrics := (metrics sh)\<lparr>fast_path_success := fast_path_success (metrics sh) + 1\<rparr>\<rparr>"

definition record_slow_path_success :: "LockShard \<Rightarrow> LockShard" where
  "record_slow_path_success sh =
     sh\<lparr>metrics := (metrics sh)\<lparr>slow_path_success := slow_path_success (metrics sh) + 1,
                               contention_events := contention_events (metrics sh) + 1\<rparr>\<rparr>"

definition record_timeout :: "LockShard \<Rightarrow> LockShard" where
  "record_timeout sh = sh\<lparr>metrics := (metrics sh)\<lparr>timeouts := timeouts (metrics sh) + 1\<rparr>\<rparr>"

definition record_release :: "LockShard \<Rightarrow> LockShard" where
  "record_release sh = sh\<lparr>metrics := (metrics sh)\<lparr>releases := releases (metrics sh) + 1\<rparr>\<rparr>"

definition record_cleanup :: "nat \<Rightarrow> LockShard \<Rightarrow> LockShard" where
  "record_cleanup n sh =
     sh\<lparr>metrics := (metrics sh)\<lparr>cleanups := cleanups (metrics sh) + of_nat n\<rparr>\<rparr>"

definition pool_acquire :: "nat \<Rightarrow> ObjectStatePool \<Rightarrow> ObjectLockState \<times> ObjectStatePool" where
  "pool_acquire now p =
     (case pool p of
        obj # rest \<Rightarrow> (reset_for_reuse now obj, p\<lparr>pool := rest, hits := hits p + 1\<rparr>)
      | [] \<Rightarrow> (ObjectLockState_new now, p\<lparr>misses := misses p + 1\<rparr>))"

definition pool_release :: "ObjectLockState \<Rightarrow> ObjectStatePool \<Rightarrow> ObjectStatePool" where
  "pool_release obj p =
     (if length (pool p) < 1000
      then p\<lparr>pool_releases := pool_releases p + 1, pool := pool p @ [obj]\<rparr>
      else p)"

section \<open>Acquiring\<close>

definition try_acquire_mode ::
    "nat \<Rightarrow> ObjectLockRequest \<Rightarrow> ObjectLockState \<Rightarrow> bool \<times> ObjectLockState" where
  "try_acquire_mode now req s =
     (case req_mode req of
        Shared \<Rightarrow> try_acquire_shared_fast now (req_owner req) (req_lock_timeout req) s
      | Exclusive \<Rightarrow> try_acquire_exclusive_fast now (req_owner req) (req_lock_timeout req) s)"

definition put_obj :: "ObjectKey \<Rightarrow> ObjectLockState \<Rightarrow> LockShard \<Rightarrow> LockShard" where
  "put_obj k s sh = sh\<lparr>objects := AList.update k s (objects sh)\<rparr>"

definition try_existing :: "nat \<Rightarrow> ObjectLockRequest \<Rightarrow> LockShard \<Rightarrow> bool \<times> LockShard" where
  "try_existing now req sh =
     (case map_of (objects sh) (req_key req) of
        None \<Rightarrow> (False, sh)
      | Some s \<Rightarrow> (case try_acquire_mode now req s of
                     (r, s') \<Rightarrow> (r, put_obj (req_key req) s' sh)))"

definition try_fast_path :: "nat \<Rightarrow> ObjectLockRequest \<Rightarrow> LockShard \<Rightarrow> bool \<times> LockShard" where
  "try_fast_path now req sh =
     (case try_existing now req sh of
        (True, sh1) \<Rightarrow> (True, sh1)
      | (False, sh1) \<Rightarrow>
          if req_mode req = Exclusive then
            (case map_of (objects sh1) (req_key req) of
               Some s \<Rightarrow> try_existing now req sh1
             | None \<Rightarrow>
                 (case pool_acquire now (object_pool sh1) of
                    (s, p) \<Rightarrow>
                      (case try_acquire_exclusive_fast now (req_owner req) (req_lock_timeout req) s of
                         (True, s') \<Rightarrow> (True, put_obj (req_key req) s' (sh1\<lparr>object_pool := p\<rparr>))
                       | (False, _) \<Rightarrow> (False, sh1\<lparr>object_pool := p\<rparr>))))
          else (False, sh1))"

definition try_fast_path_only :: "nat \<Rightarrow> ObjectLockRequest \<Rightarrow> LockShard \<Rightarrow> bool \<times> LockShard" where
  "try_fast_path_only now req sh =
     (case map_of (objects sh) (req_key req) of
        Some s \<Rightarrow> if \<not> is_fast_path_available (atomic_state s) (req_mode req) then (False, sh)
                  else try_fast_path now req sh
      | None \<Rightarrow> try_fast_path now req sh)"

definition get_or_create :: "nat \<Rightarrow> ObjectKey \<Rightarrow> LockShard \<Rightarrow> LockShard" where
  "get_or_create now k sh =
     (case map_of (objects sh) k of
        Some _ \<Rightarrow> sh
      | None \<Rightarrow> (case pool_acquire now (object_pool sh) of
                   (s, p) \<Rightarrow> put_obj k s (sh\<lparr>object_pool := p\<rparr>)))"

section \<open>Waiting\<close>

definition on_obj :: "ObjectKey \<Rightarrow> (ObjectLockState \<Rightarrow> ObjectLockState) \<Rightarrow> LockShard \<Rightarrow> LockShard" where
  "on_obj k f sh =
     (case map_of (objects sh) k of None \<Rightarrow> sh | Some s \<Rightarrow> put_obj k (f s) sh)"

definition on_notify ::
    "(OptimizedNotify \<Rightarrow> OptimizedNotify) \<Rightarrow> ObjectLockState \<Rightarrow> ObjectLockState" where
  "on_notify f s = s\<lparr>optimized_notify := f (optimized_notify s)\<rparr>"

definition fetch_add_u32 :: "nat \<Rightarrow> nat" where
  "fetch_add_u32 n = (n + 1) mod 2 ^ 32"

definition fetch_sub_u32 :: "nat \<Rightarrow> nat" where
  "fetch_sub_u32 n = (n + (2 ^ 32 - 1)) mod 2 ^ 32"

text \<open>
  The wait announces the task in the lock word and in the notification counter. When the
  timeout fires the waiting future is dropped, so only the lock word is restored.
\<close>

definition enter_wait :: "LockMode \<Rightarrow> ObjectLockState \<Rightarrow> ObjectLockState" where
  "enter_wait m s =
     (case m of
        Shared \<Rightarrow> on_notify (\<lambda>n. n\<lparr>reader_waiters := fetch_add_u32 (reader_waiters n)\<rparr>)
                    (on_word inc_readers_waiting s)
      | Exclusive \<Rightarrow> on_notify (\<lambda>n. n\<lparr>writer_waiters := fetch_add_u32 (writer_waiters n)\<rparr>)
                    (on_word inc_writers_waiting s))"

definition leave_wait :: "bool \<Rightarrow> LockMode \<Rightarrow> ObjectLockState \<Rightarrow> ObjectLockState" where
  "leave_wait woken m s =
     (case m of
        Shared \<Rightarrow> on_word dec_readers_waiting
                    (if woken then on_notify (\<lambda>n. n\<lparr>reader_waiters := fetch_sub_u32 (reader_waiters n)\<rparr>) s
                     else s)
      | Exclusive \<Rightarrow> on_word dec_writers_waiting
                    (if woken then on_notify (\<lambda>n. n\<lparr>writer_waiters := fetch_sub_u32 (writer_waiters n)\<rparr>) s
                     else s))"

section \<open>Releasing and guards\<close>

definition release_mode ::
    "nat \<Rightarrow> owner \<Rightarrow> LockMode \<Rightarrow> ObjectLockState \<Rightarrow> bool \<times> ObjectLockState \<times> signal list" where
  "release_mode now own m s =
     (case m of Shared \<Rightarrow> release_shared_obj now own s | Exclusive \<Rightarrow> release_exclusive_obj now own s)"

definition release_lock ::
    "nat \<Rightarrow> ObjectKey \<Rightarrow> owner \<Rightarrow> LockMode \<Rightarrow> LockShard \<Rightarrow> bool \<times> LockShard" where
  "release_lock now k own m sh =
     (case map_of (objects sh) k of
        None \<Rightarrow> (False, sh)
      | Some s \<Rightarrow>
          (case release_mode now own m s of
             (r, s', _) \<Rightarrow> (r, (if r then record_release else id) (put_obj k s' sh))))"

definition release_lock_with_guard ::
    "nat \<Rightarrow> ObjectKey \<Rightarrow> owner \<Rightarrow> LockMode \<Rightarrow> u64 \<Rightarrow> LockShard \<Rightarrow> bool \<times> LockShard" where
  "release_lock_with_guard now k own m guard_id sh =
     (if guard_id \<notin> active_guards sh then (False, sh)
      else
        (let sh1 = sh\<lparr>active_guards := active_guards sh - {guard_id}\<rparr> in
         case map_of (objects sh1) k of
           None \<Rightarrow> (False, sh1)
         | Some s \<Rightarrow>
             (case release_mode now own m s of
                (r, s', _) \<Rightarrow> (r, (if r then record_release else id) (put_obj k s' sh1)))))"

definition register_guard :: "u64 \<Rightarrow> LockShard \<Rightarrow> LockShard" where
  "register_guard guard_id sh = sh\<lparr>active_guards := insert guard_id (active_guards sh)\<rparr>"

definition unregister_guard :: "u64 \<Rightarrow> LockShard \<Rightarrow> LockShard" where
  "unregister_guard guard_id sh = sh\<lparr>active_guards := active_guards sh - {guard_id}\<rparr>"

section \<open>Cleanup\<close>

definition sat_sub :: "u64 \<Rightarrow> u64 \<Rightarrow> u64" where
  "sat_sub a b = (if a < b then 0 else a - b)"

definition idle_over :: "u64 \<Rightarrow> u64 \<Rightarrow> ObjectLockState \<Rightarrow> bool" where
  "idle_over now_millis max_idle_millis s \<longleftrightarrow>
     \<not> is_locked s \<and> \<not> has_waiters (atomic_state s) \<and>
     sat_sub now_millis (last_accessed (atomic_state s) * 1000) > max_idle_millis"

definition cleanup_expired_millis :: "u64 \<Rightarrow> u64 \<Rightarrow> LockShard \<Rightarrow> nat \<times> LockShard" where
  "cleanup_expired_millis now_millis max_idle_millis sh =
     (let gone = filter (\<lambda>(k, s). idle_over now_millis max_idle_millis s) (objects sh);
          kept = filter (\<lambda>(k, s). \<not> idle_over now_millis max_idle_millis s) (objects sh)
      in (length gone, record_cleanup (length gone) (sh\<lparr>objects := kept\<rparr>)))"

definition cleanup_expired :: "u64 \<Rightarrow> u64 \<Rightarrow> LockShard \<Rightarrow> nat \<times> LockShard" where
  "cleanup_expired now_millis max_idle_secs sh =
     cleanup_expired_millis now_millis (max_idle_secs * 1000) sh"

text \<open>\<open>Arc::try_unwrap\<close> succeeds when the handle it is given is the only one.\<close>

definition arc_try_unwrap :: "nat \<Rightarrow> 'a \<Rightarrow> 'a option" where
  "arc_try_unwrap strong_count x = (if strong_count = 1 then Some x else None)"

text \<open>
  The batch visits the first \<open>max_batch_size\<close> keys of the map's iteration order, \<open>ord\<close>.
  \<open>refs k\<close> counts the handles on the state of \<open>k\<close> that running tasks hold; the map holds
  one more, and \<open>state.clone()\<close> makes another.
\<close>

definition cleanup_expired_batch ::
    "u64 \<Rightarrow> ObjectKey list \<Rightarrow> (ObjectKey \<Rightarrow> nat) \<Rightarrow> nat \<Rightarrow> u64 \<Rightarrow> LockShard \<Rightarrow> nat \<times> LockShard" where
  "cleanup_expired_batch now_millis ord refs max_batch_size threshold sh =
     (let visited = take max_batch_size ord;
          goes = (\<lambda>(k, s). k \<in> set visited \<and> idle_over now_millis threshold s);
          gone = filter goes (objects sh);
          to_recycle = List.map_filter (\<lambda>(k, s). arc_try_unwrap (refs k + 1 + 1) s) gone
      in (length gone,
          record_cleanup (length gone)
            (sh\<lparr>objects := filter (\<lambda>e. \<not> goes e) (objects sh),
                object_pool := fold pool_release to_recycle (object_pool sh)\<rparr>)))"

definition active_lock_count :: "LockShard \<Rightarrow> nat" where
  "active_lock_count sh = length (filter (\<lambda>(k, s). is_locked s) (objects sh))"

definition lock_count :: "LockShard \<Rightarrow> nat" where
  "lock_count sh = length (objects sh)"

definition current_load_factor :: "LockShard \<Rightarrow> rat" where
  "current_load_factor sh =
     (if lock_count sh = 0 then 0 else of_nat (active_lock_count sh) / of_nat (lock_count sh))"

definition cleanup_expired_batch_protected ::
    "u64 \<Rightarrow> ObjectKey list \<Rightarrow> (ObjectKey \<Rightarrow> nat) \<Rightarrow> nat \<Rightarrow> u64 \<Rightarrow> LockShard \<Rightarrow> nat \<times> LockShard" where
  "cleanup_expired_batch_protected now_millis ord refs max_batch_size threshold sh =
     cleanup_expired_batch now_millis ord refs max_batch_size threshold sh"

definition adaptive_cleanup ::
    "u64 \<Rightarrow> ObjectKey list \<Rightarrow> (ObjectKey \<Rightarrow> nat) \<Rightarrow> LockShard \<Rightarrow> nat \<times> LockShard" where
  "adaptive_cleanup now_millis ord refs sh =
     (let load = current_load_factor sh; n = lock_count sh; guards = card (active_guards sh) in
      if guards > 0 \<and> load > 8 / 10
      then cleanup_expired_batch now_millis ord refs 3 1200000 sh
      else if load > 15 / 10 \<and> guards > 10 then (0, sh)
      else
        (let batch = (if load > 9 / 10 then n div 50 else if load > 7 / 10 then n div 20 else n div 10);
             threshold = (if load > 8 / 10 then 600000 else if load > 5 / 10 then 300000 else 120000)
         in cleanup_expired_batch_protected now_millis ord refs (max batch 5) threshold sh))"

section \<open>Atomic actions\<close>

text \<open>
  The critical sections of the shard's methods. Whatever tasks do to a shard is a sequence
  of these.
\<close>

datatype atom =
    TryFast nat ObjectLockRequest
  | TryFastOnly nat ObjectLockRequest
  | GetOrCreate nat ObjectKey
  | TryExisting nat ObjectLockRequest
  | EnterWait ObjectKey LockMode
  | LeaveWait bool ObjectKey LockMode
  | Release nat ObjectKey owner LockMode
  | ReleaseGuard nat ObjectKey owner LockMode u64
  | RegisterGuard u64
  | UnregisterGuard u64
  | Cleanup u64 u64
  | CleanupBatch u64 "ObjectKey list" "ObjectKey \<Rightarrow> nat" nat u64

fun run_atom :: "atom \<Rightarrow> LockShard \<Rightarrow> LockShard" where
  "run_atom (TryFast now req) sh = snd (try_fast_path now req sh)"
| "run_atom (TryFastOnly now req) sh = snd (try_fast_path_only now req sh)"
| "run_atom (GetOrCreate now k) sh = get_or_create now k sh"
| "run_atom (TryExisting now req) sh = snd (try_existing now req sh)"
| "run_atom (EnterWait k m) sh = on_obj k (enter_wait m) sh"
| "run_atom (LeaveWait w k m) sh = on_obj k (leave_wait w m) sh"
| "run_atom (Release now k own m) sh = snd (release_lock now k own m sh)"
| "run_atom (ReleaseGuard now k own m g) sh = snd (release_lock_with_guard now k own m g sh)"
| "run_atom (RegisterGuard g) sh = register_guard g sh"
| "run_atom (UnregisterGuard g) sh = unregister_guard g sh"
| "run_atom (Cleanup now idle) sh = snd (cleanup_expired_millis now idle sh)"
| "run_atom (CleanupBatch now ord refs b t) sh = snd (cleanup_expired_batch now ord refs b t sh)"

definition run_atoms :: "atom list \<Rightarrow> LockShard \<Rightarrow> LockShard" where
  "run_atoms as sh = fold run_atom as sh"

section \<open>The acquire loop\<close>

text \<open>
  The waiting loop runs against an environment. Each round of the loop takes one \<open>round\<close>:
  what other tasks do to the shard before it, the clock readings, what they do while the
  task sleeps or waits, and whether the notification arrives in time. A schedule that ends
  before the loop does gives no result.
\<close>

record round =
  others :: "atom list"
  t_now :: nat
  t_check :: nat
  t_remaining :: nat
  others_during_wait :: "atom list"
  notified :: bool

definition MAX_RETRIES :: nat where
  "MAX_RETRIES = 10"

definition backs_off :: "nat \<Rightarrow> nat \<Rightarrow> bool" where
  "backs_off retry_count remaining \<longleftrightarrow>
     retry_count < MAX_RETRIES \<and> remaining > 10 * 10 ^ 6 \<and>
     min (10 * 2 ^ retry_count) 100 * 10 ^ 6 < remaining"

fun acquire_lock_slow_path ::
    "ObjectLockRequest \<Rightarrow> nat \<Rightarrow> nat \<Rightarrow> round list \<Rightarrow> LockShard \<Rightarrow> (LockResult + unit) option \<times> LockShard" where
  "acquire_lock_slow_path req deadline retry_count [] sh = (None, sh)"
| "acquire_lock_slow_path req deadline retry_count (t # ts) sh0 =
     (let sh = get_or_create (t_now t) (req_key req) (run_atoms (others t) sh0) in
      case try_existing (t_now t) req sh of
        (True, sh1) \<Rightarrow> (Some (Inr ()), record_slow_path_success sh1)
      | (False, sh1) \<Rightarrow>
          if t_check t \<ge> deadline then (Some (Inl Timeout), record_timeout sh1)
          else if backs_off retry_count (deadline - t_remaining t)
          then acquire_lock_slow_path req deadline (retry_count + 1) ts (run_atoms (others_during_wait t) sh1)
          else
            (let sh2 = on_obj (req_key req) (enter_wait (req_mode req)) sh1;
                 sh3 = on_obj (req_key req) (leave_wait (notified t) (req_mode req))
                         (run_atoms (others_during_wait t) sh2) in
             if \<not> notified t then (Some (Inl Timeout), record_timeout sh3)
             else acquire_lock_slow_path req deadline (retry_count + 1) ts sh3))"

definition acquire_lock ::
    "nat \<Rightarrow> ObjectLockRequest \<Rightarrow> nat \<Rightarrow> round list \<Rightarrow> LockShard \<Rightarrow> (LockResult + unit) option \<times> LockShard" where
  "acquire_lock now req deadline ts sh =
     (case try_fast_path now req sh of
        (True, sh1) \<Rightarrow> (Some (Inr ()), record_fast_path_success sh1)
      | (False, sh1) \<Rightarrow> acquire_lock_slow_path req deadline 0 ts sh1)"

section \<open>Batches and monitoring\<close>

type_synonym hold_rec = "ObjectKey \<times> LockMode \<times> owner"

fun release_acquired :: "nat \<Rightarrow> hold_rec list \<Rightarrow> LockShard \<Rightarrow> LockShard" where
  "release_acquired now [] sh = sh"
| "release_acquired now ((k, m, own) # as) sh =
     release_acquired now as (snd (release_lock now k own m sh))"

text \<open>
  \<open>sched i\<close> is the schedule of the \<open>i\<close>th request in key order: the clock at its start, its deadline and the rounds of its loop.
  \<open>rnow\<close> is the clock of the rollback.
\<close>

type_synonym schedule = "nat \<times> nat \<times> round list"

fun batch_loop ::
    "nat \<Rightarrow> bool \<Rightarrow> (ObjectLockRequest \<times> schedule) list \<Rightarrow> hold_rec list \<Rightarrow> (ObjectKey \<times> LockResult) list
       \<Rightarrow> LockShard \<Rightarrow> ((ObjectKey \<times> LockResult) list + ObjectKey list) option \<times> LockShard" where
  "batch_loop rnow all_or_nothing [] acquired failed sh =
     (Some (if failed = [] then Inr (map fst acquired) else Inl failed), sh)"
| "batch_loop rnow all_or_nothing ((req, now, deadline, ts) # rest) acquired failed sh =
     (case acquire_lock now req deadline ts sh of
        (None, sh1) \<Rightarrow> (None, sh1)
      | (Some (Inr _), sh1) \<Rightarrow>
          batch_loop rnow all_or_nothing rest
            (acquired @ [(req_key req, req_mode req, req_owner req)]) failed sh1
      | (Some (Inl err), sh1) \<Rightarrow>
          if all_or_nothing
          then (Some (Inl (failed @ [(req_key req, err)])), release_acquired rnow acquired sh1)
          else batch_loop rnow all_or_nothing rest acquired (failed @ [(req_key req, err)]) sh1)"

definition acquire_locks_batch ::
    "nat \<Rightarrow> (nat \<Rightarrow> schedule) \<Rightarrow> ObjectLockRequest list \<Rightarrow> bool \<Rightarrow> LockShard
       \<Rightarrow> ((ObjectKey \<times> LockResult) list + ObjectKey list) option \<times> LockShard" where
  "acquire_locks_batch rnow sched requests all_or_nothing sh =
     batch_loop rnow all_or_nothing 
       (zip (sort_key req_key requests) (map sched [0..<length requests])) [] [] sh"

text \<open>Times are nanoseconds since the epoch; \<open>SystemTime\<close> counts seconds in an \<open>i64\<close>.\<close>

definition DEFAULT_LOCK_TIMEOUT :: nat where
  "DEFAULT_LOCK_TIMEOUT = 30 * 10 ^ 9"

definition time_checked_add :: "nat \<Rightarrow> nat \<Rightarrow> nat option" where
  "time_checked_add t d = (if (t + d) div 10 ^ 9 < 2 ^ 63 then Some (t + d) else None)"

record ObjectLockInfo =
  info_key :: ObjectKey
  info_mode :: LockMode
  info_owner :: owner
  info_acquired_at :: nat
  info_expires_at :: nat
  info_priority :: LockPriority

definition get_lock_info :: "ObjectKey \<Rightarrow> LockShard \<Rightarrow> ObjectLockInfo option" where
  "get_lock_info k sh =
     (case map_of (objects sh) k of
        None \<Rightarrow> None
      | Some s \<Rightarrow>
          (let info = (\<lambda>m own since tmo. \<lparr>info_key = k, info_mode = m, info_owner = own, info_acquired_at = since,
                         info_expires_at = (case time_checked_add since tmo of Some e \<Rightarrow> e
                                           | None \<Rightarrow> since + DEFAULT_LOCK_TIMEOUT), info_priority = priority s\<rparr>) in
           case current_mode s of
             None \<Rightarrow> None
           | Some Exclusive \<Rightarrow>
               (case current_owner s of None \<Rightarrow> None
                | Some i \<Rightarrow> Some (info Exclusive (xo_owner i) (xo_acquired_at i) (xo_lock_timeout i)))
           | Some Shared \<Rightarrow>
               (case shared_owners s of [] \<Rightarrow> None
                | e # _ \<Rightarrow> Some (info Shared (so_owner e) (so_acquired_at e) (so_lock_timeout e)))))"

end
