(* ===== verification/ShardSpec.thy ===== *)
theory ShardSpec
  imports Shard
begin

text \<open>
  What a shard promises. Its invariant, the abstract table of holds it implements, and the
  contract of a lock table as a locale with the shard as its instance.
\<close>

section \<open>The abstract table\<close>

text \<open>How often an owner holds a key in a mode.\<close>

definition obj_held :: "ObjectLockState \<Rightarrow> LockMode \<times> owner \<Rightarrow> nat" where
  "obj_held s x =
     (case x of
        (Exclusive, own) \<Rightarrow> if map_option xo_owner (current_owner s) = Some own then 1 else 0
      | (Shared, own) \<Rightarrow> shares own (shared_owners s))"

definition held :: "LockShard \<Rightarrow> hold_rec \<Rightarrow> nat" where
  "held sh x =
     (case map_of (objects sh) (fst x) of None \<Rightarrow> 0 | Some s \<Rightarrow> obj_held s (snd x))"

definition shard_inv :: "LockShard \<Rightarrow> bool" where
  "shard_inv sh \<longleftrightarrow>
     distinct (map fst (objects sh)) \<and> (\<forall>k s. map_of (objects sh) k = Some s \<longrightarrow> obj_inv s)"

lemma obj_held_simps:
  "obj_held s (Exclusive, own) = (if map_option xo_owner (current_owner s) = Some own then 1 else 0)"
  "obj_held s (Shared, own) = shares own (shared_owners s)"
  by (simp_all add: obj_held_def)

lemma obj_held_eqI:
  assumes "map_option xo_owner (current_owner s') = map_option xo_owner (current_owner s)"
    and "\<And>own. shares own (shared_owners s') = shares own (shared_owners s)"
  shows "obj_held s' = obj_held s"
proof
  fix x show "obj_held s' x = obj_held s x"
    using assms by (cases x; cases "fst x") (auto simp: obj_held_def)
qed

lemma obj_held_new [simp]:
  "obj_held (ObjectLockState_new now) = (\<lambda>_. 0)" "obj_held (reset_for_reuse now s) = (\<lambda>_. 0)"
  by (auto simp: obj_held_def ObjectLockState_new_def reset_for_reuse_def fun_eq_iff
      split: LockMode.splits)

lemma try_acquire_mode_spec:
  assumes "obj_inv s" and "try_acquire_mode now req s = (r, s')"
  shows "obj_inv s'"
    and "obj_held s' = (if r then (obj_held s)((req_mode req, req_owner req) :=
                          Suc (obj_held s (req_mode req, req_owner req))) else obj_held s)"
proof -
  have "obj_inv s' \<and> obj_held s' x =
          (if r \<and> x = (req_mode req, req_owner req) then Suc (obj_held s x) else obj_held s x)" for x
  proof (cases "req_mode req")
    case Shared
    then show ?thesis
      using assms acquire_shared_fast [of s now "req_owner req" "req_lock_timeout req" r s' "snd x"]
      by (cases x; cases "fst x") (auto simp: try_acquire_mode_def obj_held_simps)
  next
    case Exclusive
    then show ?thesis
      using assms acquire_exclusive_fast [of s now "req_owner req" "req_lock_timeout req" r s']
      by (cases x; cases "fst x") (auto simp: try_acquire_mode_def obj_held_simps)
  qed
  then show "obj_inv s'"
    and "obj_held s' = (if r then (obj_held s)((req_mode req, req_owner req) :=
                          Suc (obj_held s (req_mode req, req_owner req))) else obj_held s)"
    by (auto simp: fun_eq_iff)
qed

lemma release_mode_spec:
  assumes "obj_inv s" and "release_mode now own m s = (r, s', sig)"
  shows "obj_inv s'" and "r \<longleftrightarrow> 0 < obj_held s (m, own)"
    and "obj_held s' = (obj_held s)((m, own) := obj_held s (m, own) - 1)"
proof -
  have "obj_inv s' \<and> (r \<longleftrightarrow> 0 < obj_held s (m, own)) \<and>
        obj_held s' x = (if x = (m, own) then obj_held s x - 1 else obj_held s x)" for x
  proof (cases m)
    case Shared
    then show ?thesis
      using assms release_shared_obj [of s now own r s' sig "snd x"]
      by (cases x; cases "fst x") (auto simp: release_mode_def obj_held_simps)
  next
    case Exclusive
    then show ?thesis
      using assms release_exclusive_obj [of s now own r s' sig]
      by (cases x; cases "fst x") (auto simp: release_mode_def obj_held_simps)
  qed
  then show "obj_inv s'" and "r \<longleftrightarrow> 0 < obj_held s (m, own)"
    and "obj_held s' = (obj_held s)((m, own) := obj_held s (m, own) - 1)"
    by (auto simp: fun_eq_iff)
qed

lemma obj_exclusive_alone:
  assumes "obj_inv s" and "0 < obj_held s (Exclusive, own)"
  shows "obj_held s (m, o') = (if (m, o') = (Exclusive, own) then 1 else 0)"
  using assms by (cases m) (auto simp: obj_held_simps obj_inv_def split: if_splits)

section \<open>Reading and writing entries\<close>

lemma put_obj_simps [simp]:
  "map_of (objects (put_obj k s sh)) = (map_of (objects sh))(k \<mapsto> s)"
  "object_pool (put_obj k s sh) = object_pool sh"
  "active_guards (put_obj k s sh) = active_guards sh"
  by (simp_all add: put_obj_def update_conv' fun_eq_iff)

lemma put_obj_inv [intro]: "shard_inv sh \<Longrightarrow> obj_inv s \<Longrightarrow> shard_inv (put_obj k s sh)"
  by (simp add: shard_inv_def put_obj_def update_conv' distinct_update)

lemma held_put_obj: "held (put_obj k s sh) x = (if fst x = k then obj_held s (snd x) else held sh x)"
  by (simp add: held_def)

lemma shard_inv_objD: "shard_inv sh \<Longrightarrow> map_of (objects sh) k = Some s \<Longrightarrow> obj_inv s"
  by (simp add: shard_inv_def)

text \<open>The counters, the pool and the guards are no part of the invariant or of the holds.\<close>

lemma shard_inv_cong: "objects sh' = objects sh \<Longrightarrow> shard_inv sh' = shard_inv sh"
  by (simp add: shard_inv_def)

lemma held_cong: "objects sh' = objects sh \<Longrightarrow> held sh' = held sh"
  by (simp add: held_def fun_eq_iff)

lemma objects_record [simp]:
  "objects (record_fast_path_success sh) = objects sh" "objects (record_slow_path_success sh) = objects sh"
  "objects (record_timeout sh) = objects sh" "objects (record_release sh) = objects sh"
  "objects (record_cleanup n sh) = objects sh"
  by (simp_all add: record_fast_path_success_def record_slow_path_success_def record_timeout_def
      record_release_def record_cleanup_def)

lemma inv_record [simp]:
  "shard_inv (record_fast_path_success sh) = shard_inv sh" "shard_inv (record_slow_path_success sh) = shard_inv sh"
  "shard_inv (record_timeout sh) = shard_inv sh" "shard_inv (record_release sh) = shard_inv sh"
  "shard_inv (record_cleanup n sh) = shard_inv sh"
  "shard_inv (sh\<lparr>object_pool := p\<rparr>) = shard_inv sh" "shard_inv (sh\<lparr>active_guards := g\<rparr>) = shard_inv sh"
  by (simp_all add: shard_inv_def)

lemma held_record [simp]:
  "held (record_fast_path_success sh) = held sh" "held (record_slow_path_success sh) = held sh"
  "held (record_timeout sh) = held sh" "held (record_release sh) = held sh"
  "held (record_cleanup n sh) = held sh"
  "held (sh\<lparr>object_pool := p\<rparr>) = held sh" "held (sh\<lparr>active_guards := g\<rparr>) = held sh"
  by (simp_all add: held_def fun_eq_iff)

section \<open>The operations against the table\<close>

definition req_hold :: "ObjectLockRequest \<Rightarrow> hold_rec" where
  "req_hold req = (req_key req, req_mode req, req_owner req)"

text \<open>The one step an acquisition makes: a hold more on success, no change otherwise.\<close>

definition acq_step :: "hold_rec \<Rightarrow> bool \<Rightarrow> LockShard \<Rightarrow> LockShard \<Rightarrow> bool" where
  "acq_step x r sh sh' \<longleftrightarrow>
     shard_inv sh' \<and> held sh' = (if r then (held sh)(x := Suc (held sh x)) else held sh)"

lemma put_acquired:
  assumes "shard_inv sh" and "obj_inv s" and "obj_held s = (\<lambda>y. held sh (req_key req, y))"
    and "try_acquire_mode now req s = (r, s')"
  shows "acq_step (req_hold req) r sh (put_obj (req_key req) s' sh)"
proof -
  have "obj_inv s'" and h: "obj_held s' = (if r then (obj_held s)((req_mode req, req_owner req) :=
                          Suc (obj_held s (req_mode req, req_owner req))) else obj_held s)"
    using try_acquire_mode_spec [OF assms(2,4)] by auto
  then show ?thesis
    using assms(1,3) by (auto simp: acq_step_def req_hold_def fun_eq_iff held_put_obj)
qed

lemma try_existing_spec:
  assumes "shard_inv sh" and "try_existing now req sh = (r, sh')"
  shows "acq_step (req_hold req) r sh sh'"
proof (cases "map_of (objects sh) (req_key req)")
  case None
  with assms show ?thesis by (auto simp: try_existing_def acq_step_def)
next
  case (Some s)
  have "obj_held s = (\<lambda>y. held sh (req_key req, y))" using Some by (simp add: held_def fun_eq_iff)
  then show ?thesis
    using assms Some put_acquired [of sh s req now] shard_inv_objD [of sh]
    by (auto simp: try_existing_def split: prod.splits)
qed

lemma pool_acquire_spec:
  assumes "pool_acquire now p = (s, p')"
  shows "obj_inv s" "obj_held s = (\<lambda>_. 0)"
  using assms by (auto simp: pool_acquire_def split: list.splits)

lemma acq_step_trans: "acq_step x False a b \<Longrightarrow> acq_step x r b c \<Longrightarrow> acq_step x r a c"
  by (auto simp: acq_step_def)

lemma acq_stepD: "acq_step x r sh sh' \<Longrightarrow> shard_inv sh'"
  by (simp add: acq_step_def)

lemma try_fast_path_spec:
  assumes inv: "shard_inv sh" and call: "try_fast_path now req sh = (r, sh')"
  shows "acq_step (req_hold req) r sh sh'"
proof -
  obtain r1 sh1 where first: "try_existing now req sh = (r1, sh1)" by fastforce
  note s1 = try_existing_spec [OF inv first]
  show ?thesis
  proof (cases "\<not> r1 \<and> req_mode req = Exclusive \<and> map_of (objects sh1) (req_key req) = None")
    case True
    obtain s p where pa: "pool_acquire now (object_pool sh1) = (s, p)" by fastforce
    have zero: "obj_held s = (\<lambda>y. held (sh1\<lparr>object_pool := p\<rparr>) (req_key req, y))"
      using True pool_acquire_spec(2) [OF pa] by (simp add: held_def)
    obtain r2 s' where ta: "try_acquire_mode now req s = (r2, s')" by fastforce
    have "acq_step (req_hold req) r2 (sh1\<lparr>object_pool := p\<rparr>) (put_obj (req_key req) s' (sh1\<lparr>object_pool := p\<rparr>))"
      using put_acquired [OF _ pool_acquire_spec(1) [OF pa] zero ta] s1 by (simp add: acq_step_def)
    then show ?thesis
      using call first s1 True pa ta
      by (auto simp: try_fast_path_def try_acquire_mode_def acq_step_def split: bool.splits prod.splits)
  next
    case False
    then show ?thesis
      using call first s1 acq_step_trans [OF _ try_existing_spec [of sh1]] acq_stepD
      by (auto simp: try_fast_path_def split: if_splits option.splits bool.splits prod.splits)
  qed
qed

lemma try_fast_path_only_spec:
  assumes "shard_inv sh" and "try_fast_path_only now req sh = (r, sh')"
  shows "acq_step (req_hold req) r sh sh'"
  using assms try_fast_path_spec
  by (auto simp: try_fast_path_only_def acq_step_def split: option.splits if_splits)

lemma get_or_create_spec:
  assumes "shard_inv sh"
  shows "shard_inv (get_or_create now k sh)" and "held (get_or_create now k sh) = held sh"
    and "map_of (objects (get_or_create now k sh)) k \<noteq> None"
  using assms
  by (auto simp: get_or_create_def fun_eq_iff held_put_obj pool_acquire_spec(2) held_def
      dest: pool_acquire_spec(1) intro!: put_obj_inv split: option.splits prod.splits)

lemma release_lock_spec:
  assumes "shard_inv sh" and "release_lock now k own m sh = (r, sh')"
  shows "shard_inv sh'" and "r \<longleftrightarrow> 0 < held sh (k, m, own)"
    and "held sh' = (held sh)((k, m, own) := held sh (k, m, own) - 1)"
proof -
  have "shard_inv sh' \<and> (r \<longleftrightarrow> 0 < held sh (k, m, own)) \<and>
        held sh' = (held sh)((k, m, own) := held sh (k, m, own) - 1)"
  proof (cases "map_of (objects sh) k")
    case None
    with assms show ?thesis by (auto simp: release_lock_def held_def)
  next
    case (Some s)
    obtain r' s' sig where rel: "release_mode now own m s = (r', s', sig)" by (metis prod_cases3)
    have "held sh (k, y) = obj_held s y" for y using Some by (simp add: held_def)
    with assms Some rel release_mode_spec [OF shard_inv_objD [OF assms(1) Some] rel] show ?thesis
      by (auto simp: release_lock_def fun_eq_iff held_put_obj)
  qed
  then show "shard_inv sh'" and "r \<longleftrightarrow> 0 < held sh (k, m, own)"
    and "held sh' = (held sh)((k, m, own) := held sh (k, m, own) - 1)" by auto
qed

text \<open>The guarded release is the plain one on the shard without the guard.\<close>

lemma release_with_guard_conv:
  "release_lock_with_guard now k own m g sh =
     (if g \<in> active_guards sh
      then release_lock now k own m (sh\<lparr>active_guards := active_guards sh - {g}\<rparr>)
      else (False, sh))"
  by (simp add: release_lock_with_guard_def release_lock_def Let_def)

lemma release_lock_guards [simp]:
  "active_guards (snd (release_lock now k own m sh)) = active_guards sh"
  by (auto simp: release_lock_def record_release_def split: option.splits prod.splits)

section \<open>Waiting and cleanup\<close>

lemma on_notify_keeps [simp]:
  "obj_inv (on_notify f s) = obj_inv s" "obj_held (on_notify f s) = obj_held s"
  by (simp add: on_notify_def obj_inv_def) (rule obj_held_eqI; simp add: on_notify_def)

lemma obj_held_on_word [simp]: "obj_held (on_word f s) = obj_held s"
  by (rule obj_held_eqI) simp_all

lemma wait_spec:
  shows "obj_inv s \<Longrightarrow> obj_inv (enter_wait m s)" "obj_held (enter_wait m s) = obj_held s"
    "obj_inv s \<Longrightarrow> obj_inv (leave_wait w m s)" "obj_held (leave_wait w m s) = obj_held s"
  by (auto simp: enter_wait_def leave_wait_def waiting_keeps_obj_inv split: LockMode.splits)

lemma on_obj_spec:
  assumes "\<And>s. obj_inv s \<Longrightarrow> obj_inv (f s)" and "\<And>s. obj_held (f s) = obj_held s"
    and "shard_inv sh"
  shows "shard_inv (on_obj k f sh)" "held (on_obj k f sh) = held sh"
  using assms shard_inv_objD [of sh k]
  by (auto simp: on_obj_def held_put_obj fun_eq_iff held_def intro!: put_obj_inv split: option.splits)

text \<open>An entry that cleanup may take is held by nobody and awaited by nobody.\<close>

lemma is_locked_conv:
  assumes "obj_inv s"
  shows "is_locked s \<longleftrightarrow> current_owner s \<noteq> None \<or> shared_owners s \<noteq> [] \<or> has_waiters (atomic_state s)"
  using assms total_zero_iff [of "shared_owners s"] word_zero_iff [of "lock_word (atomic_state s)"]
  by (auto simp: is_locked_def is_free_def obj_inv_def has_waiters_conv)

lemma unlocked_held: "obj_inv s \<Longrightarrow> \<not> is_locked s \<Longrightarrow> obj_held s = (\<lambda>_. 0)"
  by (auto simp: is_locked_conv obj_held_def fun_eq_iff split: LockMode.splits)

lemma filter_objects:
  assumes "shard_inv sh" and "\<And>k s. (k, s) \<in> set (objects sh) \<Longrightarrow> \<not> keep (k, s) \<Longrightarrow> \<not> is_locked s"
  shows "shard_inv (sh\<lparr>objects := filter keep (objects sh)\<rparr>)"
    and "held (sh\<lparr>objects := filter keep (objects sh)\<rparr>) = held sh"
proof -
  have d: "distinct (map fst (objects sh))" using assms(1) by (simp add: shard_inv_def)
  then have d': "distinct (map fst (filter keep (objects sh)))" by (rule distinct_map_filter)
  have lookup: "map_of (filter keep (objects sh)) k =
      (case map_of (objects sh) k of None \<Rightarrow> None | Some s \<Rightarrow> if keep (k, s) then Some s else None)" for k
    using d by (rule map_of_filter_distinct)
  show "shard_inv (sh\<lparr>objects := filter keep (objects sh)\<rparr>)"
    using assms(1) d' by (auto simp: shard_inv_def lookup split: option.splits if_splits)
  have "obj_held s = (\<lambda>_. 0)" if "map_of (objects sh) k = Some s" "\<not> keep (k, s)" for k s
    using that assms shard_inv_objD unlocked_held by (blast dest: map_of_SomeD)
  then show "held (sh\<lparr>objects := filter keep (objects sh)\<rparr>) = held sh"
    by (auto simp: held_def fun_eq_iff lookup split: option.splits)
qed

lemma cleanup_millis_spec:
  assumes "shard_inv sh"
  shows "shard_inv (snd (cleanup_expired_millis now idle sh))"
    and "held (snd (cleanup_expired_millis now idle sh)) = held sh"
  using filter_objects [OF assms, of "\<lambda>(k, s). \<not> idle_over now idle s"]
  by (auto simp: cleanup_expired_millis_def Let_def idle_over_def)

lemma to_recycle_empty [simp]: "List.map_filter (\<lambda>(k, s). arc_try_unwrap (refs k + 1 + 1) s) xs = []"
  by (induction xs) (auto simp: map_filter_simps arc_try_unwrap_def)

lemma cleanup_batch_conv:
  "snd (cleanup_expired_batch now ord refs b thr sh) =
     record_cleanup (fst (cleanup_expired_batch now ord refs b thr sh))
       (sh\<lparr>objects := filter (\<lambda>(k, s). \<not> (k \<in> set (take b ord) \<and> idle_over now thr s)) (objects sh)\<rparr>)"
  by (simp only: cleanup_expired_batch_def Let_def to_recycle_empty) (simp add: case_prod_unfold)

lemma cleanup_batch_spec:
  assumes "shard_inv sh"
  shows "shard_inv (snd (cleanup_expired_batch now ord refs b thr sh))"
    and "held (snd (cleanup_expired_batch now ord refs b thr sh)) = held sh"
  using filter_objects [OF assms, of "\<lambda>(k, s). \<not> (k \<in> set (take b ord) \<and> idle_over now thr s)"]
  by (auto simp: cleanup_batch_conv idle_over_def)

section \<open>A lock table as an interface\<close>

text \<open>
  What a client that only releases relies on: a release succeeds exactly for a hold that is
  there, and takes away that hold and nothing else.
\<close>

locale lock_table =
  fixes tinv :: "'t \<Rightarrow> bool" and holds :: "'t \<Rightarrow> 'x \<Rightarrow> nat" and rel :: "'x \<Rightarrow> 't \<Rightarrow> bool \<times> 't"
  assumes rel_inv: "tinv t \<Longrightarrow> tinv (snd (rel x t))"
    and rel_ok: "tinv t \<Longrightarrow> fst (rel x t) \<longleftrightarrow> 0 < holds t x"
    and rel_holds: "tinv t \<Longrightarrow> holds (snd (rel x t)) = (holds t)(x := holds t x - 1)"
begin

definition rel_all :: "'x list \<Rightarrow> 't \<Rightarrow> 't" where
  "rel_all xs t = fold (\<lambda>x t. snd (rel x t)) xs t"

lemma rel_all_inv: "tinv t \<Longrightarrow> tinv (rel_all xs t)"
  unfolding rel_all_def by (induction xs arbitrary: t) (auto simp: rel_inv)

lemma rel_all_holds: "tinv t \<Longrightarrow> holds (rel_all xs t) y = holds t y - count_list xs y"
  unfolding rel_all_def by (induction xs arbitrary: t) (auto simp: rel_inv rel_holds)

lemma rel_all_undoes:
  "tinv t \<Longrightarrow> holds t y = base + count_list xs y \<Longrightarrow> holds (rel_all xs t) y = base"
  by (simp add: rel_all_holds)

lemma rel_twice:
  "tinv t \<Longrightarrow> holds t x \<le> 1 \<Longrightarrow> \<not> fst (rel x (snd (rel x t)))"
  by (simp add: rel_ok rel_inv rel_holds)

end

definition release_hold :: "nat \<Rightarrow> hold_rec \<Rightarrow> LockShard \<Rightarrow> bool \<times> LockShard" where
  "release_hold now x sh = (case x of (k, m, own) \<Rightarrow> release_lock now k own m sh)"

interpretation shard_table: lock_table shard_inv held "release_hold now"
proof
  fix x and sh assume "shard_inv sh"
  obtain k m own r sh' where "x = (k, m, own)" and "release_lock now k own m sh = (r, sh')"
    by (metis prod_cases3 surj_pair)
  with release_lock_spec [OF \<open>shard_inv sh\<close> this(2)]
  show "shard_inv (snd (release_hold now x sh))"
    and "fst (release_hold now x sh) \<longleftrightarrow> 0 < held sh x"
    and "held (snd (release_hold now x sh)) = (held sh)(x := held sh x - 1)"
    by (simp_all add: release_hold_def)
qed

lemma release_acquired_conv: "release_acquired now xs sh = shard_table.rel_all now xs sh"
  by (induction xs arbitrary: sh) (auto simp: shard_table.rel_all_def release_hold_def)

section \<open>Interleaved tasks\<close>

text \<open>The owner whose holds an atomic action may change.\<close>

fun atom_owner :: "atom \<Rightarrow> owner option" where
  "atom_owner (TryFast _ req) = Some (req_owner req)"
| "atom_owner (TryFastOnly _ req) = Some (req_owner req)"
| "atom_owner (TryExisting _ req) = Some (req_owner req)"
| "atom_owner (Release _ _ own _) = Some own"
| "atom_owner (ReleaseGuard _ _ own _ _) = Some own"
| "atom_owner _ = None"

lemma acq_step_other:
  "acq_step (k, m, own) r sh sh' \<Longrightarrow> snd (snd x) \<noteq> own \<Longrightarrow> held sh' x = held sh x"
  by (cases x) (auto simp: acq_step_def)

lemma run_atom_inv: "shard_inv sh \<Longrightarrow> shard_inv (run_atom a sh)"
  by (cases a)
    (auto simp: get_or_create_spec on_obj_spec wait_spec cleanup_millis_spec cleanup_batch_spec
      release_with_guard_conv register_guard_def unregister_guard_def
      intro: acq_stepD [OF try_fast_path_spec [OF _ prod.collapse [symmetric]]]
        acq_stepD [OF try_fast_path_only_spec [OF _ prod.collapse [symmetric]]]
        acq_stepD [OF try_existing_spec [OF _ prod.collapse [symmetric]]]
        release_lock_spec(1) [OF _ prod.collapse [symmetric]])

lemma run_atom_other:
  assumes "shard_inv sh" and "atom_owner a \<noteq> Some (snd (snd x))"
  shows "held (run_atom a sh) x = held sh x"
  using assms
    acq_step_other [OF try_fast_path_spec [OF _ prod.collapse [symmetric], unfolded req_hold_def]]
    acq_step_other [OF try_fast_path_only_spec [OF _ prod.collapse [symmetric], unfolded req_hold_def]]
    acq_step_other [OF try_existing_spec [OF _ prod.collapse [symmetric], unfolded req_hold_def]]
  by (cases a)
    (auto simp: get_or_create_spec on_obj_spec wait_spec cleanup_millis_spec cleanup_batch_spec
      release_with_guard_conv register_guard_def unregister_guard_def
      release_lock_spec(3) [OF _ prod.collapse [symmetric]])

lemma run_atoms_spec:
  assumes "shard_inv sh"
  shows "shard_inv (run_atoms as sh)"
    and "\<forall>a \<in> set as. atom_owner a \<noteq> Some (snd (snd x)) \<Longrightarrow> held (run_atoms as sh) x = held sh x"
  using assms unfolding run_atoms_def
  by (induction as arbitrary: sh) (auto simp: run_atom_inv run_atom_other)

section \<open>The acquire loop and batches\<close>

text \<open>
  The effect of an acquisition on the holds of the owners in \<open>A\<close> while other tasks run. The
  environment leaves those owners alone.
\<close>

definition acq_among :: "owner set \<Rightarrow> hold_rec \<Rightarrow> bool \<Rightarrow> LockShard \<Rightarrow> LockShard \<Rightarrow> bool" where
  "acq_among A x r sh sh' \<longleftrightarrow>
     shard_inv sh' \<and>
     (\<forall>y. snd (snd y) \<in> A \<longrightarrow> held sh' y = (if r \<and> y = x then Suc (held sh y) else held sh y))"

definition spares :: "owner set \<Rightarrow> round list \<Rightarrow> bool" where
  "spares A ts \<longleftrightarrow>
     (\<forall>t \<in> set ts. \<forall>a \<in> set (others t) \<union> set (others_during_wait t). \<forall>own \<in> A. atom_owner a \<noteq> Some own)"

lemma spares_simps [simp]:
  "spares A []"
  "spares A (t # ts) \<longleftrightarrow>
     (\<forall>a \<in> set (others t) \<union> set (others_during_wait t). \<forall>own \<in> A. atom_owner a \<noteq> Some own) \<and> spares A ts"
  by (auto simp: spares_def)

lemma acq_among_step: "acq_step x r sh sh' \<Longrightarrow> acq_among A x r sh sh'"
  by (auto simp: acq_step_def acq_among_def)

lemma acq_among_trans:
  "acq_among A x False a b \<Longrightarrow> acq_among A x r b c \<Longrightarrow> acq_among A x r a c"
  by (auto simp: acq_among_def)

lemma acq_among_atoms:
  assumes "shard_inv sh" and "\<forall>a \<in> set as. \<forall>own \<in> A. atom_owner a \<noteq> Some own"
  shows "acq_among A x False sh (run_atoms as sh)"
  using assms run_atoms_spec [OF assms(1)] by (auto simp: acq_among_def)

lemma acq_among_same: "shard_inv sh' \<Longrightarrow> held sh' = held sh \<Longrightarrow> acq_among A x False sh sh'"
  by (auto simp: acq_among_def)

lemma acq_amongD: "acq_among A x r sh sh' \<Longrightarrow> shard_inv sh'"
  by (simp add: acq_among_def)

lemma acq_among_record [simp]:
  "acq_among A x r sh (record_fast_path_success sh') = acq_among A x r sh sh'"
  "acq_among A x r sh (record_slow_path_success sh') = acq_among A x r sh sh'"
  "acq_among A x r sh (record_timeout sh') = acq_among A x r sh sh'"
  by (simp_all add: acq_among_def)

text \<open>One round of the loop up to its test, and its wait.\<close>

lemma round_try:
  assumes "shard_inv sh" and "\<forall>a \<in> set (others t). \<forall>own \<in> A. atom_owner a \<noteq> Some own"
    and "try_existing (t_now t) req (get_or_create (t_now t) (req_key req) (run_atoms (others t) sh)) = (r, sh1)"
  shows "acq_among A (req_hold req) r sh sh1"
proof -
  note a = acq_among_atoms [OF assms(1,2), of "req_hold req"]
  note g = get_or_create_spec [OF acq_amongD [OF a], of "t_now t" "req_key req"]
  show ?thesis
    using acq_among_trans [OF acq_among_trans [OF a acq_among_same [OF g(1,2)]]
        acq_among_step [OF try_existing_spec [OF g(1) assms(3)]]] .
qed

lemma round_wait:
  assumes "shard_inv sh" and "\<forall>a \<in> set as. \<forall>own \<in> A. atom_owner a \<noteq> Some own"
  shows "acq_among A x False sh
    (on_obj k (leave_wait w m) (run_atoms as (on_obj k (enter_wait m) sh)))"
proof -
  have e: "shard_inv (on_obj k (enter_wait m) sh)" "held (on_obj k (enter_wait m) sh) = held sh"
    using assms(1) by (simp_all add: on_obj_spec wait_spec)
  note a = acq_among_atoms [OF e(1) assms(2), of x]
  have l: "shard_inv (on_obj k (leave_wait w m) sh')" "held (on_obj k (leave_wait w m) sh') = held sh'"
    if "shard_inv sh'" for sh' using that by (simp_all add: on_obj_spec wait_spec)
  show ?thesis
    by (rule acq_among_trans [OF acq_among_same [OF e] acq_among_trans [OF a acq_among_same [OF l]]])
      (rule acq_amongD [OF a])+
qed

lemma slow_path_spec:
  assumes "shard_inv sh" and "spares A ts"
    and "acquire_lock_slow_path req deadline n ts sh = (res, sh')"
  shows "acq_among A (req_hold req) (res = Some (Inr ())) sh sh'"
  using assms
proof (induction ts arbitrary: n sh)
  case Nil
  then show ?case by (auto simp: acq_among_def)
next
  case (Cons t ts)
  obtain r sh1 where try_it:
    "try_existing (t_now t) req (get_or_create (t_now t) (req_key req) (run_atoms (others t) sh)) = (r, sh1)"
    by fastforce
  have one: "acq_among A (req_hold req) r sh sh1"
    using round_try [OF Cons.prems(1) _ try_it] Cons.prems(2) by auto
  note inv1 = acq_amongD [OF one]
  let ?b = "run_atoms (others_during_wait t) sh1"
  let ?w = "on_obj (req_key req) (leave_wait (notified t) (req_mode req))
              (run_atoms (others_during_wait t) (on_obj (req_key req) (enter_wait (req_mode req)) sh1))"
  have quiet: "\<forall>a \<in> set (others_during_wait t). \<forall>own \<in> A. atom_owner a \<noteq> Some own"
    using Cons.prems(2) by auto
  have step: "acq_among A (req_hold req) False sh1 ?b" "acq_among A (req_hold req) False sh1 ?w"
    using acq_among_atoms [OF inv1 quiet] round_wait [OF inv1 quiet] by auto
  have go: "acq_among A (req_hold req) (res = Some (Inr ())) sh sh'"
    if "\<not> r" "acq_among A (req_hold req) False sh1 s" "acquire_lock_slow_path req deadline (n + 1) ts s = (res, sh')" for s
    using Cons.IH [OF acq_amongD [OF that(2)] _ that(3)] Cons.prems(2) one that(1,2)
    by (auto intro: acq_among_trans)
  show ?case
    using Cons.prems(3) try_it one step go acq_among_trans [OF _ step(2), of sh]
    by (auto simp: Let_def split: bool.splits if_splits)
qed

lemma acquire_lock_spec:
  assumes "shard_inv sh" and "spares A ts" and "acquire_lock now req deadline ts sh = (res, sh')"
  shows "acq_among A (req_hold req) (res = Some (Inr ())) sh sh'"
proof -
  obtain r sh1 where fast: "try_fast_path now req sh = (r, sh1)" by fastforce
  note one = acq_among_step [OF try_fast_path_spec [OF assms(1) fast], of A]
  show ?thesis
    using assms(3) fast one slow_path_spec [OF acq_amongD [OF one] assms(2)]
    by (auto simp: acquire_lock_def split: bool.splits intro: acq_among_trans)
qed

text \<open>A schedule with a round past the deadline is long enough.\<close>

lemma slow_path_returns:
  "\<exists>t \<in> set ts. deadline \<le> t_check t \<Longrightarrow> fst (acquire_lock_slow_path req deadline n ts sh) \<noteq> None"
  by (induction ts arbitrary: n sh) (auto simp: Let_def split: prod.splits bool.splits)

lemma batch_loop_spec:
  assumes "shard_inv sh" and "\<forall>x \<in> set rs. spares A (snd (snd (snd x)))"
    and "\<forall>y. snd (snd y) \<in> A \<longrightarrow> held sh y = base y + count_list acquired y"
    and "batch_loop rnow True rs acquired [] sh = (Some res, sh')"
  shows "shard_inv sh' \<and>
    (\<forall>y. snd (snd y) \<in> A \<longrightarrow>
       held sh' y = base y +
         (case res of Inl _ \<Rightarrow> 0 | Inr _ \<Rightarrow> count_list (acquired @ map (req_hold \<circ> fst) rs) y))"
  using assms
proof (induction rs arbitrary: acquired sh)
  case Nil
  then show ?case by auto
next
  case (Cons x rs)
  obtain req now deadline ts where x: "x = (req, now, deadline, ts)" by (metis prod_cases4)
  obtain r sh1 where acq: "acquire_lock now req deadline ts sh = (r, sh1)" by fastforce
  have one: "acq_among A (req_hold req) (r = Some (Inr ())) sh sh1"
    using acquire_lock_spec [OF Cons.prems(1) _ acq] Cons.prems(2) x by auto
  note inv1 = acq_amongD [OF one]
  show ?case
  proof (cases "r = Some (Inr ())")
    case True
    with Cons.prems(4) x acq
    have "batch_loop rnow True rs (acquired @ [req_hold req]) [] sh1 = (Some res, sh')"
      by (simp add: req_hold_def)
    moreover have "\<forall>y. snd (snd y) \<in> A \<longrightarrow> held sh1 y = base y + count_list (acquired @ [req_hold req]) y"
      using one True Cons.prems(3) by (simp add: acq_among_def del: split_paired_All)
    ultimately show ?thesis
      using Cons.IH [of sh1 "acquired @ [req_hold req]"] inv1 Cons.prems(2) x
      by (cases res) (simp_all add: count_list.simps del: split_paired_All)
  next
    case False
    with Cons.prems(4) x acq have "sh' = release_acquired rnow acquired sh1" "\<exists>e. res = Inl e"
      by (auto split: option.splits sum.splits)
    with one False Cons.prems(3) inv1 show ?thesis
      by (auto simp: release_acquired_conv shard_table.rel_all_inv shard_table.rel_all_holds acq_among_def)
  qed
qed

section \<open>Guards, pool and kept entries\<close>

lemma pool_acquire_empty: "pool p = [] \<Longrightarrow> pool (snd (pool_acquire now p)) = [] \<and> hits (snd (pool_acquire now p)) = hits p"
  by (simp add: pool_acquire_def)

lemma put_obj_guards [simp]:
  "active_guards (record_release sh) = active_guards sh"
  "active_guards (record_cleanup n sh) = active_guards sh"
  "object_pool (record_release sh) = object_pool sh"
  "object_pool (record_cleanup n sh) = object_pool sh"
  by (simp_all add: record_release_def record_cleanup_def)

lemma try_existing_frame:
  "active_guards (snd (try_existing now req sh)) = active_guards sh"
  "object_pool (snd (try_existing now req sh)) = object_pool sh"
  by (auto simp: try_existing_def split: option.splits prod.splits)

definition frame_kept :: "LockShard \<Rightarrow> LockShard \<Rightarrow> bool" where
  "frame_kept sh sh' \<longleftrightarrow> active_guards sh' = active_guards sh \<and>
     (pool (object_pool sh) = [] \<longrightarrow>
        pool (object_pool sh') = [] \<and> hits (object_pool sh') = hits (object_pool sh))"

lemma frame_kept_trans: "frame_kept a b \<Longrightarrow> frame_kept b c \<Longrightarrow> frame_kept a c"
  by (simp add: frame_kept_def)

lemma frame_kept_pool:
  "pool_acquire now (object_pool sh) = (s, p) \<Longrightarrow> frame_kept sh (sh\<lparr>object_pool := p\<rparr>)"
  by (auto simp: frame_kept_def pool_acquire_def)

lemma frame_kept_put: "frame_kept sh sh' \<Longrightarrow> frame_kept sh (put_obj k s sh')"
  by (simp add: frame_kept_def)

lemma frame_kept_existing: "frame_kept sh (snd (try_existing now req sh))"
  by (simp add: frame_kept_def try_existing_frame)

lemma frame_kept_fast: "frame_kept sh (snd (try_fast_path now req sh))"
proof -
  obtain r1 sh1 where first: "try_existing now req sh = (r1, sh1)" by fastforce
  have k1: "frame_kept sh sh1" using frame_kept_existing [of sh now req] first by simp
  obtain s p where pa: "pool_acquire now (object_pool sh1) = (s, p)" by fastforce
  obtain r2 s' where ta: "try_acquire_exclusive_fast now (req_owner req) (req_lock_timeout req) s = (r2, s')"
    by fastforce
  have k2: "frame_kept sh (sh1\<lparr>object_pool := p\<rparr>)"
    by (rule frame_kept_trans [OF k1 frame_kept_pool [OF pa]])
  have k3: "frame_kept sh (snd (try_existing now req sh1))"
    by (rule frame_kept_trans [OF k1 frame_kept_existing])
  show ?thesis
    unfolding try_fast_path_def first prod.case
    using k1 k2 k3 frame_kept_put [OF k2]
    by (cases r1; cases r2; cases "map_of (objects sh1) (req_key req)") (simp_all add: pa ta)
qed

lemma try_fast_path_frame:
  "active_guards (snd (try_fast_path now req sh)) = active_guards sh"
  "pool (object_pool sh) = [] \<Longrightarrow>
     pool (object_pool (snd (try_fast_path now req sh))) = []
     \<and> hits (object_pool (snd (try_fast_path now req sh))) = hits (object_pool sh)"
  using frame_kept_fast [of sh now req] by (simp_all add: frame_kept_def)

lemma release_lock_frame:
  "object_pool (snd (release_lock now k own m sh)) = object_pool sh"
  by (auto simp: release_lock_def split: option.splits prod.splits)

lemma on_obj_frame [simp]:
  "active_guards (on_obj k f sh) = active_guards sh" "object_pool (on_obj k f sh) = object_pool sh"
  by (auto simp: on_obj_def split: option.splits)

lemma run_atom_guards:
  assumes "a \<noteq> RegisterGuard g" and "g \<notin> active_guards sh"
  shows "g \<notin> active_guards (run_atom a sh)"
  using assms
  by (cases a)
    (auto simp: try_fast_path_frame try_existing_frame try_fast_path_only_def get_or_create_def
      release_with_guard_conv register_guard_def unregister_guard_def cleanup_expired_millis_def
      cleanup_batch_conv Let_def split: option.splits prod.splits)

lemma run_atom_pool:
  assumes "pool (object_pool sh) = [] \<and> hits (object_pool sh) = 0"
  shows "pool (object_pool (run_atom a sh)) = [] \<and> hits (object_pool (run_atom a sh)) = 0"
  using assms
  by (cases a)
    (auto simp: pool_acquire_def try_fast_path_frame try_existing_frame try_fast_path_only_def get_or_create_def
      release_with_guard_conv register_guard_def unregister_guard_def cleanup_expired_millis_def
      cleanup_batch_conv release_lock_frame Let_def split: option.splits prod.splits)

lemma run_atoms_keep:
  assumes "\<And>a sh. a \<in> set as \<Longrightarrow> P sh \<Longrightarrow> P (run_atom a sh)" and "P sh"
  shows "P (run_atoms as sh)"
  using assms unfolding run_atoms_def by (induction as arbitrary: sh) simp_all

lemma locked_kept:
  assumes "distinct (map fst (objects sh))" and "map_of (objects sh) k = Some s" and "is_locked s"
  shows "map_of (objects (snd (cleanup_expired_millis now idle sh))) k = Some s"
    and "map_of (objects (snd (cleanup_expired_batch now ord refs b thr sh))) k = Some s"
  using assms
  by (simp_all add: cleanup_expired_millis_def cleanup_batch_conv Let_def map_of_filter_distinct idle_over_def)

lemma adaptive_cleanup_cases:
  "(\<exists>b thr. adaptive_cleanup now ord refs sh = cleanup_expired_batch now ord refs b thr sh)
   \<or> adaptive_cleanup now ord refs sh = (0, sh)"
  unfolding adaptive_cleanup_def Let_def cleanup_expired_batch_protected_def
  by (simp only: split: if_split) blast

lemma load_factor_le_one: "current_load_factor sh \<le> 1"
  unfolding current_load_factor_def active_lock_count_def lock_count_def
  by (auto simp: divide_le_eq_1)

section \<open>Properties\<close>

text \<open>A request and a round of the loop, for concrete runs.\<close>

definition ex_req :: "ObjectLockRequest" where
  "ex_req = \<lparr>req_key = ObjectKey ''b'' ''o'' None, req_mode = Exclusive, req_owner = ''w'',
     req_acquire_timeout = 0, req_lock_timeout = 0, req_priority = Normal\<rparr>"

definition ex_round :: round where
  "ex_round = \<lparr>others = [], t_now = 0, t_check = 0, t_remaining = 0,
     others_during_wait = [], notified = False\<rparr>"

lemmas run_defs =
  ex_req_def ex_round_def acquire_lock_def try_fast_path_def try_existing_def LockShard_new_def
  ObjectStatePool_new_def pool_acquire_def ObjectLockState_new_def try_acquire_exclusive_fast_def
  method_defs AtomicLockState_new_def body_defs layout_defs put_obj_def record_fast_path_success_def
  held_def obj_held_def req_hold_def get_or_create_def try_acquire_mode_def record_timeout_def
  run_atoms_def backs_off_def release_lock_def release_mode_def release_exclusive_obj_def
  acquire_locks_batch_def

lemma shard_inv_new: "shard_inv LockShard_new"
  by (simp add: shard_inv_def LockShard_new_def)





text \<open>
  C18: A release succeeds exactly when the owner holds the key in that mode; it removes that
  one hold and leaves every other hold as it was.
\<close>

theorem release_lock_effect:
  assumes "shard_inv sh" and "release_lock now k own m sh = (r, sh')"
  shows "shard_inv sh' \<and> (r \<longleftrightarrow> 0 < held sh (k, m, own)) \<and>
    held sh' = (held sh)((k, m, own) := held sh (k, m, own) - 1)"
  using release_lock_spec [OF assms] by blast

theorem release_lock_effect_witness:
  "shard_inv LockShard_new \<and> release_lock 0 (req_key ex_req) ''w'' Exclusive LockShard_new = (False, LockShard_new)
   \<and> held LockShard_new (req_key ex_req, Exclusive, ''w'') = 0
   \<and> shard_inv (snd (try_fast_path 0 ex_req LockShard_new))
   \<and> fst (release_lock 0 (req_key ex_req) ''w'' Exclusive (snd (try_fast_path 0 ex_req LockShard_new)))"
proof -
  have none: "release_lock 0 (req_key ex_req) ''w'' Exclusive LockShard_new = (False, LockShard_new)"
    by (simp add: release_lock_def LockShard_new_def)
  let ?sh = "snd (try_fast_path 0 ex_req LockShard_new)"
  have inv: "shard_inv ?sh"
    using try_fast_path_spec [OF shard_inv_new prod.collapse [symmetric]] by (rule acq_stepD)
  have "held ?sh (req_key ex_req, Exclusive, ''w'') = 1" by (simp add: run_defs)
  with none inv release_lock_effect [OF shard_inv_new none] shard_inv_new
    release_lock_effect [OF inv prod.collapse [symmetric], of 0 "req_key ex_req" "''w''" Exclusive]
  show ?thesis by simp
qed



text \<open>
  The acquire loop ends: as soon as one of its rounds reads a clock at or past the
  deadline, the call has returned.
\<close>

theorem acquire_lock_returns:
  assumes "\<exists>t \<in> set ts. deadline \<le> t_check t"
  shows "fst (acquire_lock now req deadline ts sh) \<noteq> None"
  using slow_path_returns [OF assms]
  by (auto simp: acquire_lock_def split: prod.splits bool.splits)

theorem acquire_lock_returns_witness:
  "fst (acquire_lock 0 ex_req 0 [ex_round] (snd (try_fast_path 0 ex_req LockShard_new))) = Some (Inl Timeout)
   \<and> fst (acquire_lock 0 ex_req 0 [ex_round] (snd (try_fast_path 0 ex_req LockShard_new))) \<noteq> None"
proof -
  have "\<exists>t \<in> set [ex_round]. 0 \<le> t_check t" by simp
  from acquire_lock_returns [OF this] show ?thesis by (simp add: run_defs)
qed

text \<open>
  A guard releases at most once. After a guarded release, and whatever tasks do until
  the guard id is registered again, a second release with that id reports failure and
  changes nothing.
\<close>

theorem guard_releases_once:
  assumes "release_lock_with_guard now k own m g sh = (r, sh')" and "RegisterGuard g \<notin> set as"
  shows "release_lock_with_guard now' k' own' m' g (run_atoms as sh') = (False, run_atoms as sh')"
proof -
  have "g \<notin> active_guards sh'"
    using arg_cong [OF assms(1), of "\<lambda>x. active_guards (snd x)"]
    by (auto simp: release_with_guard_conv split: if_splits)
  then have "g \<notin> active_guards (run_atoms as sh')"
    using assms(2) run_atom_guards
    by (intro run_atoms_keep [where P = "\<lambda>sh. g \<notin> active_guards sh"]) metis+
  then show ?thesis by (simp add: release_lock_with_guard_def)
qed

theorem guard_releases_once_witness:
  "fst (release_lock_with_guard 0 (req_key ex_req) ''w'' Exclusive 7
          (register_guard 7 (snd (try_fast_path 0 ex_req LockShard_new)))) = True
   \<and> fst (release_lock_with_guard 0 (req_key ex_req) ''w'' Exclusive 7
          (run_atoms [] (snd (release_lock_with_guard 0 (req_key ex_req) ''w'' Exclusive 7
            (register_guard 7 (snd (try_fast_path 0 ex_req LockShard_new))))))) = False"
  using guard_releases_once [OF prod.collapse [symmetric], where as = "[]" and now' = 0
      and k' = "req_key ex_req" and own' = "''w''" and m' = Exclusive and g = 7 and now = 0
      and k = "req_key ex_req" and own = "''w''" and m = Exclusive
      and sh = "register_guard 7 (snd (try_fast_path 0 ex_req LockShard_new))"]
  by (simp add: run_defs register_guard_def release_lock_with_guard_def)

text \<open>
  Cleanup never touches a lock in use: the periodic and the adaptive cleanup keep the
  entry of every object that is held or awaited, and change no hold.
\<close>

theorem cleanup_keeps_locks_in_use:
  assumes "shard_inv sh"
  shows "held (snd (adaptive_cleanup now ord refs sh)) = held sh
    \<and> held (snd (cleanup_expired now secs sh)) = held sh
    \<and> (\<forall>k s. map_of (objects sh) k = Some s \<and> (is_locked s \<or> has_waiters (atomic_state s)) \<longrightarrow>
         map_of (objects (snd (adaptive_cleanup now ord refs sh))) k = Some s
         \<and> map_of (objects (snd (cleanup_expired now secs sh))) k = Some s)"
proof -
  have d: "distinct (map fst (objects sh))" using assms by (simp add: shard_inv_def)
  have kept: "map_of (objects (snd (cleanup_expired_millis now idle sh))) k = Some s"
    "map_of (objects (snd (cleanup_expired_batch now ord refs b thr sh))) k = Some s"
    if "map_of (objects sh) k = Some s" "is_locked s \<or> has_waiters (atomic_state s)" for k s idle b thr
    using locked_kept [OF d that(1)] is_locked_conv [OF shard_inv_objD [OF assms that(1)]] that(2)
    by simp_all
  show ?thesis
    using kept cleanup_millis_spec(2) [OF assms] cleanup_batch_spec(2) [OF assms]
      adaptive_cleanup_cases [of now ord refs sh]
    by (auto simp: cleanup_expired_def)
qed

theorem cleanup_keeps_locks_in_use_witness:
  "shard_inv (snd (try_fast_path 0 ex_req LockShard_new))
   \<and> held (snd (cleanup_expired 1000000 0 (snd (try_fast_path 0 ex_req LockShard_new))))
       (req_key ex_req, Exclusive, ''w'') = 1"
proof -
  let ?sh = "snd (try_fast_path 0 ex_req LockShard_new)"
  have inv: "shard_inv ?sh"
    using try_fast_path_spec [OF shard_inv_new prod.collapse [symmetric]] by (rule acq_stepD)
  have "held ?sh (req_key ex_req, Exclusive, ''w'') = 1" by (simp add: run_defs)
  with inv cleanup_keeps_locks_in_use [OF inv, of 1000000 "[]" "\<lambda>_. 0" 0] show ?thesis by simp
qed

text \<open>
  The state pool of a shard is never refilled: in every run from a fresh shard the pool
  stays empty and no acquisition is ever served from it.
\<close>

theorem pool_never_refilled:
  "pool (object_pool (run_atoms as LockShard_new)) = [] \<and> hits (object_pool (run_atoms as LockShard_new)) = 0"
proof -
  let ?P = "\<lambda>sh. pool (object_pool sh) = [] \<and> hits (object_pool sh) = 0"
  have "?P LockShard_new" by (simp add: LockShard_new_def ObjectStatePool_new_def)
  then show ?thesis
    by (rule run_atoms_keep [where P = ?P, rotated]) (rule run_atom_pool)
qed

text \<open>
  A writer whose wait times out restores the lock word but stays counted as a waiter of the
  notifier.
\<close>

lemma timed_out_wait_leaks:
  assumes "wwait_n (lock_word (atomic_state s)) < 65535"
  shows "lock_word (atomic_state (leave_wait False Exclusive (enter_wait Exclusive s))) = lock_word (atomic_state s)"
    and "writer_waiters (optimized_notify (leave_wait False Exclusive (enter_wait Exclusive s))) =
           (writer_waiters (optimized_notify s) + 1) mod 2 ^ 32"
proof -
  let ?w = "lock_word (atomic_state s)"
  have "inc_writers_waiting_body ?w = Some (?w + 2 ^ WRITERS_WAITING_SHIFT)"
    using assms by (simp add: body_defs count_conv)
  moreover have "0 < wwait_n (?w + 2 ^ WRITERS_WAITING_SHIFT)"
    using assms by (simp add: lock_fields)
  then have "dec_writers_waiting_body (?w + 2 ^ WRITERS_WAITING_SHIFT) = Some ?w"
    by (simp add: body_defs count_conv)
  ultimately show "lock_word (atomic_state (leave_wait False Exclusive (enter_wait Exclusive s))) = ?w"
    by (simp add: leave_wait_def enter_wait_def on_word_def on_notify_def inc_writers_waiting_def
        dec_writers_waiting_def apply_body_def)
  show "writer_waiters (optimized_notify (leave_wait False Exclusive (enter_wait Exclusive s))) =
          (writer_waiters (optimized_notify s) + 1) mod 2 ^ 32"
    by (simp add: leave_wait_def enter_wait_def on_word_def on_notify_def fetch_add_u32_def)
qed

end
