(* ===== verification/LockManager.thy ===== *)
theory LockManager
  imports ShardSpec
begin

text \<open>
  \<open>FastObjectLockManager\<close> (\<open>crates/lock/src/fast_lock/manager.rs\<close>) spreads the keys over shards, and
  \<open>FastLockGuard\<close> (\<open>guard.rs\<close>) releases on drop. The hash of a key is an argument, and so is the guard
  id that the global counter hands out. The deadline and the rounds of an acquisition are
  its \<open>schedule\<close>, as in the shard.
\<close>

section \<open>Guards\<close>

record FastLockGuard =
  fg_key :: ObjectKey
  fg_mode :: LockMode
  fg_owner :: owner
  fg_released :: bool
  fg_disabled :: bool
  fg_guard_id :: u64

definition FastLockGuard_new :: "u64 \<Rightarrow> ObjectKey \<Rightarrow> LockMode \<Rightarrow> owner \<Rightarrow> FastLockGuard" where
  "FastLockGuard_new gid k m own =
     \<lparr>fg_key = k, fg_mode = m, fg_owner = own, fg_released = False, fg_disabled = False,
      fg_guard_id = gid\<rparr>"

definition FastLockGuard_new_disabled :: "u64 \<Rightarrow> ObjectKey \<Rightarrow> LockMode \<Rightarrow> owner \<Rightarrow> FastLockGuard" where
  "FastLockGuard_new_disabled gid k m own =
     \<lparr>fg_key = k, fg_mode = m, fg_owner = own, fg_released = False, fg_disabled = True,
      fg_guard_id = gid\<rparr>"

text \<open>
  \<open>release\<close> and \<open>drop\<close> take the guard's shard, which is absent for a disabled guard.
\<close>

definition guard_release ::
    "nat \<Rightarrow> FastLockGuard \<Rightarrow> LockShard option \<Rightarrow> bool \<times> FastLockGuard \<times> LockShard option" where
  "guard_release now g shard =
     (if fg_released g then (False, g, shard)
      else if fg_disabled g then
        (True, g\<lparr>fg_released := True\<rparr>, map_option (unregister_guard (fg_guard_id g)) shard)
      else
        (case shard of
           Some sh \<Rightarrow>
             (case release_lock_with_guard now (fg_key g) (fg_owner g) (fg_mode g) (fg_guard_id g) sh of
                (True, sh') \<Rightarrow> (True, g\<lparr>fg_released := True\<rparr>, Some (unregister_guard (fg_guard_id g) sh'))
              | (False, sh') \<Rightarrow> (False, g, Some sh'))
         | None \<Rightarrow> (False, g\<lparr>fg_released := True\<rparr>, None)))"

definition guard_drop :: "nat \<Rightarrow> FastLockGuard \<Rightarrow> LockShard option \<Rightarrow> LockShard option" where
  "guard_drop now g shard =
     map_option (\<lambda>sh.
       if \<not> fg_released g \<and> \<not> fg_disabled g
       then unregister_guard (fg_guard_id g)
              (snd (release_lock_with_guard now (fg_key g) (fg_owner g) (fg_mode g) (fg_guard_id g) sh))
       else unregister_guard (fg_guard_id g) sh) shard"

section \<open>The manager\<close>

record FastObjectLockManager =
  shards :: "LockShard list"
  shard_mask :: u64

definition is_power_of_two :: "nat \<Rightarrow> bool" where
  "is_power_of_two n \<longleftrightarrow> (\<exists>k < 64. n = 2 ^ k)"

definition with_config :: "nat \<Rightarrow> FastObjectLockManager option" where
  "with_config shard_count =
     (if is_power_of_two shard_count
      then Some \<lparr>shards = replicate shard_count LockShard_new, shard_mask = of_nat (shard_count - 1)\<rparr>
      else None)"

definition shard_index :: "(ObjectKey \<Rightarrow> u64) \<Rightarrow> u64 \<Rightarrow> ObjectKey \<Rightarrow> nat" where
  "shard_index hash msk k = unat (hash k AND msk)"

abbreviation shard_of :: "(ObjectKey \<Rightarrow> u64) \<Rightarrow> FastObjectLockManager \<Rightarrow> ObjectKey \<Rightarrow> LockShard" where
  "shard_of hash mgr k \<equiv> shards mgr ! shard_index hash (shard_mask mgr) k"

definition put_shard :: "(ObjectKey \<Rightarrow> u64) \<Rightarrow> ObjectKey \<Rightarrow> LockShard \<Rightarrow> FastObjectLockManager \<Rightarrow> FastObjectLockManager" where
  "put_shard hash k sh mgr = mgr\<lparr>shards := (shards mgr)[shard_index hash (shard_mask mgr) k := sh]\<rparr>"

definition manager_acquire_lock ::
    "(ObjectKey \<Rightarrow> u64) \<Rightarrow> u64 \<Rightarrow> schedule \<Rightarrow> ObjectLockRequest \<Rightarrow> FastObjectLockManager
       \<Rightarrow> (LockResult + FastLockGuard) option \<times> FastObjectLockManager" where
  "manager_acquire_lock hash gid sched req mgr =
     (case sched of (now, deadline, ts) \<Rightarrow>
        (case acquire_lock now req deadline ts (shard_of hash mgr (req_key req)) of
           (None, sh) \<Rightarrow> (None, put_shard hash (req_key req) sh mgr)
         | (Some (Inl err), sh) \<Rightarrow> (Some (Inl err), put_shard hash (req_key req) sh mgr)
         | (Some (Inr _), sh) \<Rightarrow>
             (Some (Inr (FastLockGuard_new gid (req_key req) (req_mode req) (req_owner req))),
              put_shard hash (req_key req) (register_guard gid sh) mgr)))"

definition drop_in_manager ::
    "(ObjectKey \<Rightarrow> u64) \<Rightarrow> nat \<Rightarrow> FastLockGuard \<Rightarrow> FastObjectLockManager \<Rightarrow> FastObjectLockManager" where
  "drop_in_manager hash now g mgr =
     (case guard_drop now g (Some (shard_of hash mgr (fg_key g))) of
        Some sh \<Rightarrow> put_shard hash (fg_key g) sh mgr
      | None \<Rightarrow> mgr)"

text \<open>
  The two-phase batch. The requests arrive grouped by shard, in the iteration order of the
  hash map of groups; the groups are a list here. Each request has its guard id and its
  schedule. The first failure drops every guard acquired so far.
\<close>

record BatchLockResult =
  successful_locks :: "ObjectKey list"
  failed_locks :: "(ObjectKey \<times> LockResult) list"
  all_acquired :: bool
  guards :: "FastLockGuard list"

fun two_phase_loop ::
    "(ObjectKey \<Rightarrow> u64) \<Rightarrow> nat \<Rightarrow> (ObjectLockRequest \<times> u64 \<times> schedule) list \<Rightarrow> FastLockGuard list
       \<Rightarrow> FastObjectLockManager \<Rightarrow> BatchLockResult option \<times> FastObjectLockManager" where
  "two_phase_loop hash dnow [] acquired mgr =
     (Some \<lparr>successful_locks = map fg_key acquired, failed_locks = [], all_acquired = True,
            guards = acquired\<rparr>, mgr)"
| "two_phase_loop hash dnow ((req, gid, sched) # rest) acquired mgr =
     (case manager_acquire_lock hash gid sched req mgr of
        (None, mgr') \<Rightarrow> (None, mgr')
      | (Some (Inr g), mgr') \<Rightarrow> two_phase_loop hash dnow rest (acquired @ [g]) mgr'
      | (Some (Inl err), mgr') \<Rightarrow>
          (Some \<lparr>successful_locks = [], failed_locks = [(req_key req, err)], all_acquired = False,
                 guards = []\<rparr>,
           fold (drop_in_manager hash dnow) acquired mgr'))"

definition group_requests_by_shard ::
    "(ObjectKey \<Rightarrow> u64) \<Rightarrow> u64 \<Rightarrow> ObjectLockRequest list \<Rightarrow> nat \<Rightarrow> ObjectLockRequest list" where
  "group_requests_by_shard hash msk requests i =
     filter (\<lambda>r. shard_index hash msk (req_key r) = i) requests"

definition sort_requests ::
    "(ObjectKey \<Rightarrow> u64) \<Rightarrow> u64 \<Rightarrow> ObjectLockRequest list \<Rightarrow> ObjectLockRequest list" where
  "sort_requests hash msk requests =
     sort_key (\<lambda>r. (shard_index hash msk (req_key r), req_key r)) requests"

text \<open>\<open>order\<close> lists the shard ids in the order in which the hash map of groups is walked.\<close>

definition manager_batch_order ::
    "(ObjectKey \<Rightarrow> u64) \<Rightarrow> u64 \<Rightarrow> nat list \<Rightarrow> ObjectLockRequest list \<Rightarrow> ObjectLockRequest list" where
  "manager_batch_order hash msk order requests =
     concat (map (group_requests_by_shard hash msk (sort_requests hash msk requests)) order)"

definition acquire_locks_two_phase_commit ::
    "(ObjectKey \<Rightarrow> u64) \<Rightarrow> nat \<Rightarrow> nat list \<Rightarrow> (nat \<Rightarrow> u64) \<Rightarrow> (nat \<Rightarrow> schedule) \<Rightarrow> ObjectLockRequest list
       \<Rightarrow> FastObjectLockManager \<Rightarrow> BatchLockResult option \<times> FastObjectLockManager" where
  "acquire_locks_two_phase_commit hash dnow order gid sched requests mgr =
     (let rs = manager_batch_order hash (shard_mask mgr) order requests in
      two_phase_loop hash dnow (zip rs (map (\<lambda>i. (gid i, sched i)) [0..<length rs])) [] mgr)"

end
