(* ===== verification/DistLock.thy ===== *)
theory DistLock
  imports LockManager
begin

text \<open>
  The lock client of one node (\<open>crates/lock/src/client/local.rs\<close>), the quorum lock over many clients
  (\<open>distributed_lock.rs\<close>) and the namespace lock in front of it (\<open>namespace/mod.rs\<close>). A fresh UUID, a
  guard id, a clock reading and the schedule of an acquisition are arguments. A client of
  the quorum lock is a state with the two calls the lock makes on it, so the same definitions
  serve local and remote clients.
\<close>

section \<open>Requests and responses\<close>

datatype LockType = LExclusive | LShared

datatype LockStatus = SAcquired | SWaiting | SReleased | SExpired | SForceReleased

record LockId =
  id_resource :: ObjectKey
  id_uuid :: string

record LockInfo =
  li_id :: LockId
  li_resource :: ObjectKey
  li_lock_type :: LockType
  li_status :: LockStatus
  li_owner :: string
  li_acquired_at :: nat
  li_expires_at :: nat
  li_last_refreshed :: nat
  li_priority :: LockPriority

definition has_expired :: "nat \<Rightarrow> LockInfo \<Rightarrow> bool" where
  "has_expired now i \<longleftrightarrow> li_expires_at i \<le> now"

definition remaining_time :: "nat \<Rightarrow> LockInfo \<Rightarrow> nat" where
  "remaining_time now i = (if li_expires_at i > now then li_expires_at i - now else 0)"

definition is_valid_lock :: "nat \<Rightarrow> LockInfo \<Rightarrow> bool" where
  "is_valid_lock now i \<longleftrightarrow> \<not> has_expired now i \<and> li_status i = SAcquired"

record LockRequest =
  lr_resource :: ObjectKey
  lr_lock_type :: LockType
  lr_owner :: string
  lr_acquire_timeout :: nat
  lr_ttl :: nat
  lr_priority :: LockPriority

definition LockRequest_new :: "ObjectKey \<Rightarrow> LockType \<Rightarrow> string \<Rightarrow> LockRequest" where
  "LockRequest_new k ty own =
     \<lparr>lr_resource = k, lr_lock_type = ty, lr_owner = own, lr_acquire_timeout = 10 * 10 ^ 9,
      lr_ttl = 30 * 10 ^ 9, lr_priority = Normal\<rparr>"

record LockResponse =
  success :: bool
  lock_info :: "LockInfo option"
  error_msg :: "string option"
  wait_time :: nat

definition LockResponse_success :: "LockInfo \<Rightarrow> nat \<Rightarrow> LockResponse" where
  "LockResponse_success i w = \<lparr>success = True, lock_info = Some i, error_msg = None, wait_time = w\<rparr>"

definition LockResponse_failure :: "string \<Rightarrow> nat \<Rightarrow> LockResponse" where
  "LockResponse_failure e w = \<lparr>success = False, lock_info = None, error_msg = Some e, wait_time = w\<rparr>"

definition mk_info :: "nat \<Rightarrow> LockId \<Rightarrow> LockRequest \<Rightarrow> LockInfo" where
  "mk_info now i req =
     \<lparr>li_id = i, li_resource = lr_resource req, li_lock_type = lr_lock_type req, li_status = SAcquired,
      li_owner = lr_owner req, li_acquired_at = now, li_expires_at = now + lr_ttl req,
      li_last_refreshed = now, li_priority = lr_priority req\<rparr>"

definition mode_of :: "LockType \<Rightarrow> LockMode" where
  "mode_of ty = (case ty of LExclusive \<Rightarrow> Exclusive | LShared \<Rightarrow> Shared)"

text \<open>Errors; \<open>unreachable!\<close> is the value \<open>Panic\<close>.\<close>

datatype LockError = QuorumNotReached nat nat | LockTimeout string nat | Internal string | Panic string

definition show_key :: "ObjectKey \<Rightarrow> string" where
  "show_key k = key_bucket k @ ''/'' @ key_object k @ ''@'' @
     (case key_version k of Some v \<Rightarrow> v | None \<Rightarrow> ''latest'')"

section \<open>The client of one node\<close>

record LocalClient =
  guard_storage :: "(LockId \<times> FastLockGuard) list list"
  guard_mask :: u64
  manager :: FastObjectLockManager

text \<open>What an acquisition draws from outside: hashes, a UUID, a guard id, a clock, a schedule.\<close>

record acq_env =
  e_uuid :: string
  e_gid :: u64
  e_now :: nat
  e_sched :: schedule

definition client_request :: "LockRequest \<Rightarrow> ObjectLockRequest" where
  "client_request req =
     \<lparr>req_key = lr_resource req, req_mode = mode_of (lr_lock_type req), req_owner = lr_owner req,
      req_acquire_timeout = lr_acquire_timeout req, req_lock_timeout = DEFAULT_LOCK_TIMEOUT,
      req_priority = Normal\<rparr>"

definition guard_shard_index :: "(LockId \<Rightarrow> u64) \<Rightarrow> LocalClient \<Rightarrow> LockId \<Rightarrow> nat" where
  "guard_shard_index idhash c i = unat (idhash i AND guard_mask c)"

definition insert_guard :: "(LockId \<Rightarrow> u64) \<Rightarrow> LockId \<Rightarrow> FastLockGuard \<Rightarrow> LocalClient \<Rightarrow> LocalClient" where
  "insert_guard idhash i g c =
     (let n = guard_shard_index idhash c i in
      c\<lparr>guard_storage := (guard_storage c)[n := AList.update i g (guard_storage c ! n)]\<rparr>)"

definition local_acquire_lock ::
    "(ObjectKey \<Rightarrow> u64) \<Rightarrow> (LockId \<Rightarrow> u64) \<Rightarrow> acq_env \<Rightarrow> LockRequest \<Rightarrow> LocalClient
       \<Rightarrow> (LockError + LockResponse) option \<times> LocalClient" where
  "local_acquire_lock hash idhash env req c =
     (case manager_acquire_lock hash (e_gid env) (e_sched env) (client_request req) (manager c) of
        (None, mgr) \<Rightarrow> (None, c\<lparr>manager := mgr\<rparr>)
      | (Some (Inr g), mgr) \<Rightarrow>
          (let i = \<lparr>id_resource = lr_resource req, id_uuid = e_uuid env\<rparr> in
           (Some (Inr (LockResponse_success (mk_info (e_now env) i req) 0)),
            insert_guard idhash i g (c\<lparr>manager := mgr\<rparr>)))
      | (Some (Inl e), mgr) \<Rightarrow>
          (Some (case e of
                   Timeout \<Rightarrow> Inr (LockResponse_failure ''Lock acquisition timeout'' (lr_acquire_timeout req))
                 | Conflict own m \<Rightarrow>
                     Inr (LockResponse_failure (''Lock conflict: resource held by '' @ own @ '' in ''
                            @ (case m of Shared \<Rightarrow> ''Shared'' | Exclusive \<Rightarrow> ''Exclusive'') @ '' mode'') 0)
                 | Acquired \<Rightarrow> Inl (Panic ''Acquired should not be an error'')),
           c\<lparr>manager := mgr\<rparr>))"

definition local_release ::
    "(ObjectKey \<Rightarrow> u64) \<Rightarrow> (LockId \<Rightarrow> u64) \<Rightarrow> nat \<Rightarrow> LockId \<Rightarrow> LocalClient \<Rightarrow> bool \<times> LocalClient" where
  "local_release hash idhash now i c =
     (let n = guard_shard_index idhash c i in
      case map_of (guard_storage c ! n) i of
        Some g \<Rightarrow>
          (True, c\<lparr>guard_storage := (guard_storage c)[n := AList.delete i (guard_storage c ! n)],
                   manager := drop_in_manager hash now g (manager c)\<rparr>)
      | None \<Rightarrow> (False, c))"

definition local_check_status :: "(LockId \<Rightarrow> u64) \<Rightarrow> nat \<Rightarrow> LockId \<Rightarrow> LocalClient \<Rightarrow> LockInfo option" where
  "local_check_status idhash now i c =
     (case map_of (guard_storage c ! guard_shard_index idhash c i) i of
        Some g \<Rightarrow>
          Some \<lparr>li_id = i, li_resource = id_resource i,
                li_lock_type = (case fg_mode g of Shared \<Rightarrow> LShared | Exclusive \<Rightarrow> LExclusive),
                li_status = SAcquired, li_owner = fg_owner g, li_acquired_at = now,
                li_expires_at = now + 30 * 10 ^ 9, li_last_refreshed = now, li_priority = Normal\<rparr>
      | None \<Rightarrow> None)"

section \<open>The quorum lock\<close>

definition DistributedLock_quorum :: "nat \<Rightarrow> nat \<Rightarrow> nat" where
  "DistributedLock_quorum n quorum = (if n \<le> 1 then 1 else max 1 (min quorum n))"

definition with_clients_quorum :: "nat \<Rightarrow> nat" where
  "with_clients_quorum n =
     DistributedLock_quorum n (if n > 1 then n div 2 + 1 else 1)"

text \<open>
  \<open>acq req idx\<close> and \<open>rel idx\<close> are the calls on the client at position \<open>idx\<close>. A call that is
  still running has no result, and a failed remote call is an \<open>Inl\<close>.
\<close>

type_synonym 'c acq_call = "LockRequest \<Rightarrow> nat \<Rightarrow> 'c \<Rightarrow> (LockError + LockResponse) option \<times> 'c"
type_synonym 'c rel_call = "nat \<Rightarrow> LockId \<Rightarrow> 'c \<Rightarrow> (LockError + bool) \<times> 'c"

definition individual_lock :: "nat \<Rightarrow> (LockError + LockResponse) option \<Rightarrow> (LockId \<times> nat) list" where
  "individual_lock idx r =
     (case r of
        Some (Inr resp) \<Rightarrow>
          if success resp then (case lock_info resp of Some i \<Rightarrow> [(li_id i, idx)] | None \<Rightarrow> []) else []
      | _ \<Rightarrow> [])"

fun rollback :: "'c rel_call \<Rightarrow> (LockId \<times> nat) list \<Rightarrow> 'c list \<Rightarrow> 'c list" where
  "rollback rel [] cs = cs"
| "rollback rel ((i, idx) # es) cs = rollback rel es (cs[idx := snd (rel idx i (cs ! idx))])"

definition quorum_msg :: "nat \<Rightarrow> nat \<Rightarrow> string" where
  "quorum_msg got quorum =
     ''Failed to acquire quorum: '' @ show_nat got @ ''/'' @ show_nat quorum @ '' required''"

definition acquire_lock_quorum ::
    "'c acq_call \<Rightarrow> 'c rel_call \<Rightarrow> nat \<Rightarrow> string \<Rightarrow> nat \<Rightarrow> LockRequest \<Rightarrow> 'c list
       \<Rightarrow> (LockResponse \<times> (LockId \<times> nat) list) option \<times> 'c list" where
  "acquire_lock_quorum acq rel quorum uuid now req cs =
     (let results = map (\<lambda>idx. acq req idx (cs ! idx)) [0..<length cs];
          cs1 = map snd results in
      if None \<in> set (map fst results) then (None, cs1)
      else
        (let individual = concat (map (\<lambda>idx. individual_lock idx (fst (results ! idx))) [0..<length cs]) in
         if length individual \<ge> quorum then
           (Some (LockResponse_success
                    (mk_info now \<lparr>id_resource = lr_resource req, id_uuid = uuid\<rparr> req) 0, individual), cs1)
         else
           (Some (LockResponse_failure (quorum_msg (length individual) quorum) 0, []),
            rollback rel individual cs1)))"

record DistributedLockGuard =
  dg_lock_id :: LockId
  dg_entries :: "(LockId \<times> nat) list"
  dg_disarmed :: bool

definition acquire_guard ::
    "'c acq_call \<Rightarrow> 'c rel_call \<Rightarrow> nat \<Rightarrow> string \<Rightarrow> nat \<Rightarrow> LockRequest \<Rightarrow> 'c list
       \<Rightarrow> (LockError + DistributedLockGuard option) option \<times> 'c list" where
  "acquire_guard acq rel quorum uuid now req cs =
     (if cs = [] then (Some (Inl (Internal ''No lock clients available'')), cs)
      else
        (case acquire_lock_quorum acq rel quorum uuid now req cs of
           (None, cs') \<Rightarrow> (None, cs')
         | (Some (resp, individual), cs') \<Rightarrow>
             (Some (if success resp then
                      Inr (Some \<lparr>dg_lock_id = (case lock_info resp of Some i \<Rightarrow> li_id i
                                               | None \<Rightarrow> \<lparr>id_resource = lr_resource req, id_uuid = uuid\<rparr>),
                                 dg_entries = individual, dg_disarmed = False\<rparr>)
                    else
                      (case error_msg resp of
                         Some m \<Rightarrow> if contains ''quorum'' m
                                   then Inl (QuorumNotReached quorum (length individual))
                                   else Inr None
                       | None \<Rightarrow> Inr None)), cs')))"

text \<open>Releasing the guard hands its entries to the background worker once.\<close>

definition dist_guard_release ::
    "'c rel_call \<Rightarrow> DistributedLockGuard \<Rightarrow> 'c list \<Rightarrow> bool \<times> DistributedLockGuard \<times> 'c list" where
  "dist_guard_release rel g cs =
     (if dg_disarmed g then (True, g, cs)
      else (True, g\<lparr>dg_disarmed := True\<rparr>, rollback rel (dg_entries g) cs))"

definition guard_request :: "LockType \<Rightarrow> ObjectKey \<Rightarrow> string \<Rightarrow> nat \<Rightarrow> nat \<Rightarrow> LockRequest" where
  "guard_request ty k own timeout ttl =
     (LockRequest_new k ty own)\<lparr>lr_acquire_timeout := timeout, lr_ttl := ttl\<rparr>"

definition get_lock ::
    "LockType \<Rightarrow> 'c acq_call \<Rightarrow> 'c rel_call \<Rightarrow> nat \<Rightarrow> string \<Rightarrow> nat \<Rightarrow> ObjectKey \<Rightarrow> string \<Rightarrow> nat \<Rightarrow> 'c list
       \<Rightarrow> (LockError + DistributedLockGuard) option \<times> 'c list" where
  "get_lock ty acq rel quorum uuid now k own timeout cs =
     (case acquire_guard acq rel quorum uuid now (guard_request ty k own timeout DEFAULT_LOCK_TIMEOUT) cs of
        (None, cs') \<Rightarrow> (None, cs')
      | (Some (Inl e), cs') \<Rightarrow> (Some (Inl e), cs')
      | (Some (Inr (Some g)), cs') \<Rightarrow> (Some (Inr g), cs')
      | (Some (Inr None), cs') \<Rightarrow> (Some (Inl (LockTimeout (show_key k) timeout)), cs'))"

definition get_write_lock ::
    "'c acq_call \<Rightarrow> 'c rel_call \<Rightarrow> nat \<Rightarrow> string \<Rightarrow> nat \<Rightarrow> ObjectKey \<Rightarrow> string \<Rightarrow> nat \<Rightarrow> 'c list
       \<Rightarrow> (LockError + DistributedLockGuard) option \<times> 'c list" where
  "get_write_lock = get_lock LExclusive"

definition get_read_lock ::
    "'c acq_call \<Rightarrow> 'c rel_call \<Rightarrow> nat \<Rightarrow> string \<Rightarrow> nat \<Rightarrow> ObjectKey \<Rightarrow> string \<Rightarrow> nat \<Rightarrow> 'c list
       \<Rightarrow> (LockError + DistributedLockGuard) option \<times> 'c list" where
  "get_read_lock = get_lock LShared"

text \<open>The health report counts the clients that answer against a majority.\<close>

datatype HealthStatus = Healthy | Degraded | Unhealthy

definition get_health :: "bool list \<Rightarrow> HealthStatus \<times> nat \<times> nat" where
  "get_health online =
     (let connected = length (filter id online); n = length online;
          quorum = (if n > 1 then n div 2 + 1 else 1)
      in (if connected \<ge> quorum then Healthy else Degraded, connected, n))"

end
