(* ===== verification/DistSpec.thy ===== *)
theory DistSpec
  imports DistLock
begin

text \<open>
  What the quorum lock promises. The locale \<open>lock_client\<close> states what it relies on in one client;
  inside it a quorum acquisition is shown to be won on enough clients or rolled back on
  all, and two majorities are shown to exclude each other. The client of one node meets the
  contract.
\<close>

section \<open>Clients as an interface\<close>

text \<open>\<open>holding c\<close> maps the lock ids a client has granted and not released to key and mode.\<close>

definition won :: "(LockError + LockResponse) option \<Rightarrow> bool" where
  "won r \<longleftrightarrow> (case r of Some (Inr resp) \<Rightarrow> success resp | _ \<Rightarrow> False)"

lemma individual_lost: "\<not> won r \<Longrightarrow> individual_lock idx r = []"
  by (auto simp: won_def individual_lock_def split: option.splits sum.splits)

locale lock_client =
  fixes cinv :: "'c \<Rightarrow> bool"
    and holding :: "'c \<Rightarrow> LockId \<Rightarrow> (ObjectKey \<times> LockMode) option"
    and ready :: "'e \<Rightarrow> LockRequest \<Rightarrow> 'c \<Rightarrow> bool"
    and acquire :: "'e \<Rightarrow> LockRequest \<Rightarrow> 'c \<Rightarrow> (LockError + LockResponse) option \<times> 'c"
    and release :: "LockId \<Rightarrow> 'c \<Rightarrow> (LockError + bool) \<times> 'c"
  assumes acquire_inv: "cinv c \<Longrightarrow> ready e req c \<Longrightarrow> cinv (snd (acquire e req c))"
    and acquire_won: "cinv c \<Longrightarrow> ready e req c \<Longrightarrow> won (fst (acquire e req c)) \<Longrightarrow>
      \<exists>i. (\<forall>idx. individual_lock idx (fst (acquire e req c)) = [(i, idx)]) \<and> holding c i = None \<and>
          holding (snd (acquire e req c)) = (holding c)(i \<mapsto> (lr_resource req, mode_of (lr_lock_type req)))"
    and acquire_lost: "cinv c \<Longrightarrow> ready e req c \<Longrightarrow> \<not> won (fst (acquire e req c)) \<Longrightarrow>
      holding (snd (acquire e req c)) = holding c"
    and release_inv: "cinv c \<Longrightarrow> cinv (snd (release i c))"
    and release_holding: "cinv c \<Longrightarrow> holding (snd (release i c)) = (holding c)(i := None)"
    and exclusive: "cinv c \<Longrightarrow> holding c i = Some (k, Exclusive) \<Longrightarrow> holding c j = Some (k, m) \<Longrightarrow> i = j"
begin

text \<open>A list of entries, each live on its client.\<close>

definition live :: "ObjectKey \<Rightarrow> LockMode \<Rightarrow> 'c list \<Rightarrow> (LockId \<times> nat) list \<Rightarrow> bool" where
  "live k m cs es \<longleftrightarrow> distinct (map snd es) \<and>
     (\<forall>(i, idx) \<in> set es. idx < length cs \<and> holding (cs ! idx) i = Some (k, m))"

definition all_ready :: "(nat \<Rightarrow> 'e) \<Rightarrow> LockRequest \<Rightarrow> 'c list \<Rightarrow> bool" where
  "all_ready env req cs \<longleftrightarrow> (\<forall>idx < length cs. cinv (cs ! idx) \<and> ready (env idx) req (cs ! idx))"

abbreviation acq :: "(nat \<Rightarrow> 'e) \<Rightarrow> 'c acq_call" where
  "acq env \<equiv> (\<lambda>req idx. acquire (env idx) req)"

abbreviation rel :: "'c rel_call" where
  "rel \<equiv> (\<lambda>idx. release)"

definition entry :: "(nat \<Rightarrow> 'e) \<Rightarrow> LockRequest \<Rightarrow> 'c list \<Rightarrow> nat \<Rightarrow> (LockId \<times> nat) list" where
  "entry env req cs idx = individual_lock idx (fst (acquire (env idx) req (cs ! idx)))"

lemma entry_cases:
  assumes "all_ready env req cs" and "idx < length cs"
  obtains "entry env req cs idx = []" "holding (snd (acquire (env idx) req (cs ! idx))) = holding (cs ! idx)"
  | i where "entry env req cs idx = [(i, idx)]" "holding (cs ! idx) i = None"
      "holding (snd (acquire (env idx) req (cs ! idx))) =
         (holding (cs ! idx))(i \<mapsto> (lr_resource req, mode_of (lr_lock_type req)))"
proof (cases "won (fst (acquire (env idx) req (cs ! idx)))")
  case True
  then show ?thesis
    using assms acquire_won [of "cs ! idx" "env idx" req] that(2) by (auto simp: entry_def all_ready_def)
next
  case False
  then show ?thesis using assms acquire_lost that(1) by (auto simp: entry_def all_ready_def individual_lost)
qed

lemma entry_idx: "all_ready env req cs \<Longrightarrow> idx < length cs \<Longrightarrow> snd ` set (entry env req cs idx) \<subseteq> {idx}"
  by (erule (1) entry_cases) auto

lemma distinct_entries:
  assumes "all_ready env req cs" and "n \<le> length cs"
  shows "distinct (map snd (concat (map (entry env req cs) [0..<n]))) \<and>
         snd ` set (concat (map (entry env req cs) [0..<n])) \<subseteq> {..<n}"
  using assms(2)
proof (induction n)
  case (Suc n)
  then have n: "n < length cs" by simp
  from assms(1) n have "distinct (map snd (entry env req cs n))" by (cases rule: entry_cases) auto
  with Suc entry_idx [OF assms(1) n] show ?case by fastforce
qed simp

lemma rollback_length: "length (rollback rel es cs) = length cs"
  by (induction es arbitrary: cs) auto

lemma rollback_holding:
  assumes "\<forall>idx < length cs. cinv (cs ! idx)" and "\<forall>e \<in> set es. snd e < length cs" and "idx < length cs"
  shows "cinv (rollback rel es cs ! idx) \<and>
    holding (rollback rel es cs ! idx) i = (if (i, idx) \<in> set es then None else holding (cs ! idx) i)"
  using assms
proof (induction es arbitrary: cs)
  case (Cons e es)
  obtain i' idx' where e: "e = (i', idx')" by fastforce
  let ?cs = "cs[idx' := snd (release i' (cs ! idx'))]"
  have "\<forall>idx < length ?cs. cinv (?cs ! idx)"
    using Cons.prems e by (auto simp: nth_list_update release_inv)
  with Cons.IH [of ?cs] Cons.prems e show ?case
    by (auto simp: nth_list_update release_holding split: if_splits)
qed simp

lemma quorum_cases:
  assumes "all_ready env req cs"
    and "acquire_lock_quorum (acq env) rel q uuid now req cs = (Some (resp, es), cs')"
  defines "cs1 \<equiv> map (\<lambda>idx. snd (acquire (env idx) req (cs ! idx))) [0..<length cs]"
    and "ind \<equiv> concat (map (entry env req cs) [0..<length cs])"
  shows "(success resp \<and> es = ind \<and> q \<le> length ind \<and> cs' = cs1) \<or>
         (\<not> success resp \<and> es = [] \<and> length ind < q \<and> cs' = rollback rel ind cs1)"
proof -
  have "concat (map (\<lambda>idx. individual_lock idx
          (fst (map (\<lambda>idx. acquire (env idx) req (cs ! idx)) [0..<length cs] ! idx))) [0..<length cs]) = ind"
    unfolding ind_def entry_def by (intro arg_cong [where f = concat] map_cong) auto
  moreover have "map snd (map (\<lambda>idx. acquire (env idx) req (cs ! idx)) [0..<length cs]) = cs1"
    by (simp add: cs1_def)
  ultimately show ?thesis
    using assms(2) unfolding acquire_lock_quorum_def Let_def
    by (auto simp: LockResponse_success_def LockResponse_failure_def simp del: map_map split: if_splits)
qed

lemma quorum_won:
  assumes "all_ready env req cs"
    and "acquire_lock_quorum (acq env) rel q uuid now req cs = (Some (resp, es), cs')" and "success resp"
  shows "q \<le> length es" and "live (lr_resource req) (mode_of (lr_lock_type req)) cs' es"
    and "\<forall>(i, idx) \<in> set es. holding (cs ! idx) i = None" and "length cs' = length cs"
    and "\<forall>idx < length cs. cinv (cs' ! idx)"
    and "\<forall>idx < length cs. \<forall>i. holding (cs ! idx) i \<noteq> None \<longrightarrow> holding (cs' ! idx) i = holding (cs ! idx) i"
proof -
  let ?ind = "concat (map (entry env req cs) [0..<length cs])"
  have es: "es = ?ind" and q: "q \<le> length ?ind"
    and cs': "cs' = map (\<lambda>idx. snd (acquire (env idx) req (cs ! idx))) [0..<length cs]"
    using quorum_cases [OF assms(1,2)] assms(3) by auto
  show "q \<le> length es" using es q by simp
  show "length cs' = length cs" by (simp add: cs')
  have at: "cs' ! idx = snd (acquire (env idx) req (cs ! idx))" if "idx < length cs" for idx
    using that by (simp add: cs')
  show "\<forall>idx < length cs. cinv (cs' ! idx)"
    using assms(1) by (auto simp: at all_ready_def acquire_inv)
  show "\<forall>idx < length cs. \<forall>i. holding (cs ! idx) i \<noteq> None \<longrightarrow> holding (cs' ! idx) i = holding (cs ! idx) i"
  proof (intro allI impI)
    fix idx i assume idx: "idx < length cs" and some: "holding (cs ! idx) i \<noteq> None"
    from assms(1) idx show "holding (cs' ! idx) i = holding (cs ! idx) i"
      by (cases rule: entry_cases) (use some at [OF idx] in auto)
  qed
  have entries: "idx < length cs \<and> holding (cs ! idx) i = None \<and>
      holding (cs' ! idx) i = Some (lr_resource req, mode_of (lr_lock_type req))"
    if "(i, idx) \<in> set es" for i idx
  proof -
    from that obtain n where n: "n < length cs" "(i, idx) \<in> set (entry env req cs n)"
      by (auto simp: es)
    from assms(1) n(1) show ?thesis
      by (cases rule: entry_cases) (use n in \<open>auto simp: at\<close>)
  qed
  show "\<forall>(i, idx) \<in> set es. holding (cs ! idx) i = None" using entries by auto
  show "live (lr_resource req) (mode_of (lr_lock_type req)) cs' es"
    using entries distinct_entries [OF assms(1), of "length cs"] by (auto simp: live_def es cs')
qed

lemma quorum_lost:
  assumes "all_ready env req cs"
    and "acquire_lock_quorum (acq env) rel q uuid now req cs = (Some (resp, es), cs')" and "\<not> success resp"
    and "idx < length cs"
  shows "cinv (cs' ! idx)" and "holding (cs' ! idx) = holding (cs ! idx)"
proof -
  let ?cs1 = "map (\<lambda>idx. snd (acquire (env idx) req (cs ! idx))) [0..<length cs]"
  let ?ind = "concat (map (entry env req cs) [0..<length cs])"
  have cs': "cs' = rollback rel ?ind ?cs1"
    using quorum_cases [OF assms(1,2)] assms(3) by auto
  have inv: "\<forall>idx < length ?cs1. cinv (?cs1 ! idx)"
    using assms(1) by (auto simp: all_ready_def acquire_inv)
  have bnd: "\<forall>e \<in> set ?ind. snd e < length ?cs1"
    using distinct_entries [OF assms(1), of "length cs"] by auto
  have mem: "(i, idx) \<in> set ?ind \<longleftrightarrow> (i, idx) \<in> set (entry env req cs idx)" for i
    using entry_idx [OF assms(1)] assms(4) by fastforce
  have len: "idx < length ?cs1" using assms(4) by simp
  note rb = rollback_holding [OF inv bnd len]
  show "cinv (cs' ! idx)" using rb cs' by blast
  have "holding (cs' ! idx) i = holding (cs ! idx) i" for i
    using assms(1,4) by (cases rule: entry_cases) (use rb [of i] mem [of i] assms(4) in \<open>auto simp: cs'\<close>)
  then show "holding (cs' ! idx) = holding (cs ! idx)" by auto
qed

text \<open>Two sets of clients that together outnumber all clients share one.\<close>

lemma common_client:
  assumes "live k m cs es" and "live k' m' cs es'" and "length cs < length es + length es'"
  obtains i i' idx where "(i, idx) \<in> set es" "(i', idx) \<in> set es'"
proof -
  have sub: "snd ` set es \<subseteq> {..<length cs}" "snd ` set es' \<subseteq> {..<length cs}"
    using assms(1,2) by (auto simp: live_def)
  have "card (snd ` set es) = length es" "card (snd ` set es') = length es'"
    using assms(1,2) distinct_card [of "map snd es"] distinct_card [of "map snd es'"]
    by (auto simp: live_def)
  moreover have "card (snd ` set es \<union> snd ` set es') \<le> card {..<length cs}"
    using sub by (intro card_mono) auto
  ultimately have "snd ` set es \<inter> snd ` set es' \<noteq> {}"
    using assms(3) card_Un_disjoint [of "snd ` set es" "snd ` set es'"] by auto
  then obtain i i' idx where "(i, idx) \<in> set es" "(i', idx) \<in> set es'" by auto
  then show thesis by (rule that)
qed

lemma exclusive_majority_wins:
  assumes "all_ready env req cs"
    and "live (lr_resource req) Exclusive cs es" and "length cs < length es + q"
    and "acquire_lock_quorum (acq env) rel q uuid now req cs = (Some (resp, es'), cs')"
  shows "\<not> success resp \<and> live (lr_resource req) Exclusive cs' es"
proof -
  have "\<not> success resp"
  proof
    assume s: "success resp"
    note w = quorum_won [OF assms(1,4) s]
    have live': "live (lr_resource req) Exclusive cs' es"
      using assms(2) w(4,6) by (auto simp: live_def)
    have "length cs' < length es + length es'" using assms(3) w(1,4) by simp
    then obtain i i' idx where e: "(i, idx) \<in> set es" "(i', idx) \<in> set es'"
      by (rule common_client [OF live' w(2)])
    have "idx < length cs" "holding (cs' ! idx) i = Some (lr_resource req, Exclusive)"
      "holding (cs ! idx) i \<noteq> None"
      using e(1) live' assms(2) w(4) by (auto simp: live_def)
    moreover have "holding (cs' ! idx) i' = Some (lr_resource req, mode_of (lr_lock_type req))"
      "holding (cs ! idx) i' = None" using e(2) w(2,3) by (auto simp: live_def)
    ultimately show False using exclusive [of "cs' ! idx"] w(5) by metis
  qed
  moreover have "length cs' = length cs"
    using quorum_cases [OF assms(1,4)] \<open>\<not> success resp\<close> by (simp add: rollback_length)
  moreover have "holding (cs' ! idx) = holding (cs ! idx)" if "idx < length cs" for idx
    by (rule quorum_lost(2) [OF assms(1,4) \<open>\<not> success resp\<close> that])
  ultimately show ?thesis
    using assms(2) by (auto simp: live_def)
qed

lemma exclusive_needs_all_shared_gone:
  assumes "all_ready env req cs" and "lr_lock_type req = LExclusive"
    and "live (lr_resource req) m cs es" and "length cs < length es + q"
    and "acquire_lock_quorum (acq env) rel q uuid now req cs = (Some (resp, es'), cs')"
  shows "\<not> success resp"
proof
  assume s: "success resp"
  note w = quorum_won [OF assms(1,5) s]
  have live': "live (lr_resource req) m cs' es"
    using assms(3) w(4,6) by (auto simp: live_def)
  have "length cs' < length es + length es'" using assms(4) w(1,4) by simp
  then obtain i i' idx where e: "(i, idx) \<in> set es" "(i', idx) \<in> set es'"
    by (rule common_client [OF live' w(2)])
  have "idx < length cs" "holding (cs' ! idx) i = Some (lr_resource req, m)" "holding (cs ! idx) i \<noteq> None"
    using e(1) live' assms(3) w(4) by (auto simp: live_def)
  moreover have "holding (cs' ! idx) i' = Some (lr_resource req, Exclusive)" "holding (cs ! idx) i' = None"
    using e(2) w(2,3) assms(2) by (auto simp: live_def mode_of_def)
  ultimately show False using exclusive [of "cs' ! idx"] w(5) by metis
qed

end

end
