(* ===== verification/LocalSpec.thy ===== *)
theory LocalSpec
  imports DistSpec
begin

text \<open>
  The client of one node meets the contract of \<open>lock_client\<close>: the guards it stores are backed by
  holds in the shards of its manager.
\<close>

section \<open>The manager as a table\<close>

definition mgr_inv :: "FastObjectLockManager \<Rightarrow> bool" where
  "mgr_inv mgr \<longleftrightarrow> length (shards mgr) = Suc (unat (shard_mask mgr)) \<and> (\<forall>sh \<in> set (shards mgr). shard_inv sh)"

definition mgr_held :: "(ObjectKey \<Rightarrow> u64) \<Rightarrow> FastObjectLockManager \<Rightarrow> hold_rec \<Rightarrow> nat" where
  "mgr_held hash mgr x = held (shard_of hash mgr (fst x)) x"

definition mgr_guards :: "(ObjectKey \<Rightarrow> u64) \<Rightarrow> FastObjectLockManager \<Rightarrow> ObjectKey \<Rightarrow> u64 set" where
  "mgr_guards hash mgr k = active_guards (shard_of hash mgr k)"

lemma and_le_mask: "unat (h AND m) \<le> unat m" for h m :: u64
  using word_and_le1 [of h m] by (simp add: word_le_nat_alt)

lemma shard_index_less: "mgr_inv mgr \<Longrightarrow> shard_index hash (shard_mask mgr) k < length (shards mgr)"
  using and_le_mask [of "hash k" "shard_mask mgr"] by (simp add: mgr_inv_def shard_index_def)

lemma shard_of_inv: "mgr_inv mgr \<Longrightarrow> shard_inv (shard_of hash mgr k)"
  using shard_index_less [of mgr hash k] by (auto simp: mgr_inv_def)

lemma shard_of_put:
  "mgr_inv mgr \<Longrightarrow> shard_of hash (put_shard hash k sh mgr) k' =
     (if shard_index hash (shard_mask mgr) k' = shard_index hash (shard_mask mgr) k then sh else shard_of hash mgr k')"
  using shard_index_less [of mgr hash k] by (auto simp: put_shard_def)

lemma put_shard_inv: "mgr_inv mgr \<Longrightarrow> shard_inv sh \<Longrightarrow> mgr_inv (put_shard hash k sh mgr)"
  by (auto simp: mgr_inv_def put_shard_def dest: subsetD [OF set_update_subset_insert])

text \<open>A change of the shard of one key that the table sees only at the keys of that shard.\<close>

lemma mgr_held_put:
  assumes "mgr_inv mgr" and "\<And>y. snd (snd y) \<in> A \<Longrightarrow> held sh y = f y (held (shard_of hash mgr k) y)"
    and "\<And>y. fst y \<noteq> k \<Longrightarrow> f y = id" and "snd (snd x) \<in> A"
  shows "mgr_held hash (put_shard hash k sh mgr) x = f x (mgr_held hash mgr x)"
proof (cases "shard_index hash (shard_mask mgr) (fst x) = shard_index hash (shard_mask mgr) k")
  case True
  then show ?thesis using assms(1,2,4) by (simp add: mgr_held_def shard_of_put)
next
  case False
  then have "fst x \<noteq> k" by auto
  with False assms(1,3) show ?thesis by (simp add: mgr_held_def shard_of_put)
qed

lemma mgr_guards_put:
  assumes "mgr_inv mgr"
  shows "mgr_guards hash (put_shard hash k sh mgr) k' =
    (if shard_index hash (shard_mask mgr) k' = shard_index hash (shard_mask mgr) k
     then active_guards sh else mgr_guards hash mgr k')"
    and "shard_index hash (shard_mask mgr) k' = shard_index hash (shard_mask mgr) k \<Longrightarrow>
      mgr_guards hash mgr k' = active_guards (shard_of hash mgr k)"
  using assms by (simp_all add: mgr_guards_def shard_of_put)

section \<open>Guards survive an acquisition\<close>

text \<open>The guard an atomic action may deactivate.\<close>

fun atom_guard :: "atom \<Rightarrow> u64 option" where
  "atom_guard (ReleaseGuard _ _ _ _ g) = Some g"
| "atom_guard (UnregisterGuard g) = Some g"
| "atom_guard _ = None"

definition spares_guards :: "u64 set \<Rightarrow> round list \<Rightarrow> bool" where
  "spares_guards S ts \<longleftrightarrow>
     (\<forall>t \<in> set ts. \<forall>a \<in> set (others t) \<union> set (others_during_wait t). \<forall>g \<in> S. atom_guard a \<noteq> Some g)"

lemma run_atom_spares:
  assumes "atom_guard a \<noteq> Some g" and "g \<in> active_guards sh"
  shows "g \<in> active_guards (run_atom a sh)"
  using assms
  by (cases a)
    (auto simp: try_fast_path_frame try_existing_frame try_fast_path_only_def get_or_create_def
      release_with_guard_conv register_guard_def unregister_guard_def cleanup_expired_millis_def
      cleanup_batch_conv Let_def split: option.splits prod.splits)

lemma run_atoms_spare:
  assumes "\<forall>a \<in> set as. atom_guard a \<noteq> Some g" and "g \<in> active_guards sh"
  shows "g \<in> active_guards (run_atoms as sh)"
  using run_atom_spares assms by (intro run_atoms_keep [where P = "\<lambda>sh. g \<in> active_guards sh"]) auto

lemma get_or_create_guards [simp]: "active_guards (get_or_create now k sh) = active_guards sh"
  by (auto simp: get_or_create_def split: option.splits prod.splits)

lemma record_guards [simp]:
  "active_guards (record_slow_path_success sh) = active_guards sh"
  "active_guards (record_fast_path_success sh) = active_guards sh"
  "active_guards (record_timeout sh) = active_guards sh"
  by (simp_all add: record_slow_path_success_def record_fast_path_success_def record_timeout_def)

lemma slow_path_spares:
  assumes "spares_guards S ts" and "g \<in> S" and "g \<in> active_guards sh"
  shows "g \<in> active_guards (snd (acquire_lock_slow_path req deadline n ts sh))"
  using assms
proof (induction ts arbitrary: n sh)
  case (Cons t ts)
  have quiet: "\<forall>a \<in> set (others t). atom_guard a \<noteq> Some g"
    "\<forall>a \<in> set (others_during_wait t). atom_guard a \<noteq> Some g" "spares_guards S ts"
    using Cons.prems(1,2) by (auto simp: spares_guards_def)
  obtain r sh1 where try_it:
    "try_existing (t_now t) req (get_or_create (t_now t) (req_key req) (run_atoms (others t) sh)) = (r, sh1)"
    by fastforce
  have g1: "g \<in> active_guards sh1"
    using try_existing_frame(1) [of "t_now t" req "get_or_create (t_now t) (req_key req) (run_atoms (others t) sh)"]
      run_atoms_spare [OF quiet(1) Cons.prems(3)] by (simp add: try_it)
  have "g \<in> active_guards (run_atoms (others_during_wait t) sh1)"
    "g \<in> active_guards (run_atoms (others_during_wait t) (on_obj (req_key req) (enter_wait (req_mode req)) sh1))"
    using g1 by (intro run_atoms_spare [OF quiet(2)]; simp)+
  with Cons.IH [OF quiet(3) Cons.prems(2)] try_it g1 show ?case
    by (auto simp: Let_def split: bool.splits)
qed simp

lemma acquire_lock_spares:
  assumes "spares_guards S ts" and "g \<in> S" and "g \<in> active_guards sh"
  shows "g \<in> active_guards (snd (acquire_lock now req deadline ts sh))"
  using slow_path_spares [OF assms(1,2)] try_fast_path_frame(1) [of now req sh] assms(3)
  by (auto simp: acquire_lock_def split: prod.splits bool.splits)

section \<open>Acquiring and dropping through the manager\<close>

definition ghold :: "FastLockGuard \<Rightarrow> hold_rec" where
  "ghold g = (fg_key g, fg_mode g, fg_owner g)"

lemma manager_acquire_spec:
  assumes inv: "mgr_inv mgr" and sp: "spares A ts" and spg: "spares_guards S ts"
    and call: "manager_acquire_lock hash gid (now, deadline, ts) req mgr = (res, mgr')"
  shows "mgr_inv mgr'"
    and "snd (snd x) \<in> A \<Longrightarrow> mgr_held hash mgr' x =
      (if (\<exists>g. res = Some (Inr g)) \<and> x = req_hold req then Suc (mgr_held hash mgr x) else mgr_held hash mgr x)"
    and "g \<in> S \<Longrightarrow> g \<in> mgr_guards hash mgr k \<Longrightarrow> g \<in> mgr_guards hash mgr' k"
    and "res = Some (Inr gd) \<Longrightarrow> gd = FastLockGuard_new gid (req_key req) (req_mode req) (req_owner req)
      \<and> gid \<in> mgr_guards hash mgr' (req_key req)"
proof -
  let ?sh = "shard_of hash mgr (req_key req)"
  obtain r sh where acq: "acquire_lock now req deadline ts ?sh = (r, sh)" by fastforce
  have spec: "acq_among A (req_hold req) (r = Some (Inr ())) ?sh sh"
    by (rule acquire_lock_spec [OF shard_of_inv [OF inv] sp acq])
  let ?sh' = "if r = Some (Inr ()) then register_guard gid sh else sh"
  have mgr': "mgr' = put_shard hash (req_key req) ?sh' mgr"
    and res: "(\<exists>g. res = Some (Inr g)) \<longleftrightarrow> r = Some (Inr ())"
    using call acq by (auto simp: manager_acquire_lock_def split: option.splits sum.splits)
  have sh': "shard_inv ?sh'" "held ?sh' = held sh"
    using acq_amongD [OF spec] by (auto simp: register_guard_def)
  show "mgr_inv mgr'" using put_shard_inv [OF inv sh'(1)] by (simp only: mgr')
  show "mgr_held hash mgr' x =
      (if (\<exists>g. res = Some (Inr g)) \<and> x = req_hold req then Suc (mgr_held hash mgr x) else mgr_held hash mgr x)"
    if "snd (snd x) \<in> A"
    using mgr_held_put [OF inv, where A = A and sh = ?sh' and k = "req_key req" and hash = hash and x = x
        and f = "\<lambda>y n. if r = Some (Inr ()) \<and> y = req_hold req then Suc n else n"] that spec
    unfolding mgr' res sh'(2) acq_among_def
    by (auto simp: fun_eq_iff req_hold_def)
  have "\<And>g. g \<in> S \<Longrightarrow> g \<in> active_guards ?sh \<Longrightarrow> g \<in> active_guards ?sh'"
    using acquire_lock_spares [OF spg, of _ ?sh now req deadline] acq by (auto simp: register_guard_def)
  then show "g \<in> mgr_guards hash mgr' k" if "g \<in> S" "g \<in> mgr_guards hash mgr k"
    using that mgr_guards_put [OF inv, where hash = hash and k' = k and k = "req_key req"] unfolding mgr' by (auto split: if_splits)
  show "gd = FastLockGuard_new gid (req_key req) (req_mode req) (req_owner req)
      \<and> gid \<in> mgr_guards hash mgr' (req_key req)" if "res = Some (Inr gd)"
    using call acq that mgr_guards_put(1) [OF inv, where hash = hash and k = "req_key req" and k' = "req_key req"]
    unfolding mgr' by (auto simp: manager_acquire_lock_def register_guard_def split: option.splits sum.splits)
qed

lemma manager_drop_spec:
  assumes inv: "mgr_inv mgr" and live: "\<not> fg_released g" "\<not> fg_disabled g"
    and act: "fg_guard_id g \<in> mgr_guards hash mgr (fg_key g)"
  shows "mgr_inv (drop_in_manager hash now g mgr)"
    and "mgr_held hash (drop_in_manager hash now g mgr) =
      (mgr_held hash mgr)(ghold g := mgr_held hash mgr (ghold g) - 1)"
    and "mgr_guards hash mgr k - {fg_guard_id g} \<subseteq> mgr_guards hash (drop_in_manager hash now g mgr) k"
proof -
  let ?sh = "shard_of hash mgr (fg_key g)"
  let ?sh0 = "?sh\<lparr>active_guards := active_guards ?sh - {fg_guard_id g}\<rparr>"
  obtain r sh where rel: "release_lock now (fg_key g) (fg_owner g) (fg_mode g) ?sh0 = (r, sh)" by fastforce
  let ?sh' = "unregister_guard (fg_guard_id g) sh"
  have d: "drop_in_manager hash now g mgr = put_shard hash (fg_key g) ?sh' mgr"
    using act live rel
    by (simp add: drop_in_manager_def guard_drop_def release_with_guard_conv mgr_guards_def)
  have i0: "shard_inv ?sh0" using shard_of_inv [OF inv] by simp
  note spec = release_lock_spec [OF i0 rel]
  have sh': "shard_inv ?sh'" "held ?sh' = held sh"
    using spec(1) by (simp_all add: unregister_guard_def)
  show "mgr_inv (drop_in_manager hash now g mgr)"
    unfolding d by (rule put_shard_inv [OF inv sh'(1)])
  have hs: "held ?sh' y = (\<lambda>n. if y = ghold g then n - 1 else n) (held ?sh y)" for y
    using spec(3) by (simp add: sh'(2) ghold_def)
  show "mgr_held hash (drop_in_manager hash now g mgr) =
      (mgr_held hash mgr)(ghold g := mgr_held hash mgr (ghold g) - 1)"
  proof
    fix x
    show "mgr_held hash (drop_in_manager hash now g mgr) x =
        ((mgr_held hash mgr)(ghold g := mgr_held hash mgr (ghold g) - 1)) x"
      unfolding d
      using mgr_held_put [OF inv, where A = UNIV and sh = ?sh' and k = "fg_key g" and hash = hash and x = x
          and f = "\<lambda>y n. if y = ghold g then n - 1 else n"] hs
      by (auto simp: ghold_def fun_eq_iff)
  qed
  have "active_guards ?sh' = active_guards ?sh - {fg_guard_id g}"
    using release_lock_guards [of now "fg_key g" "fg_owner g" "fg_mode g" ?sh0] rel
    by (auto simp: unregister_guard_def)
  then show "mgr_guards hash mgr k - {fg_guard_id g} \<subseteq> mgr_guards hash (drop_in_manager hash now g mgr) k"
    using mgr_guards_put [OF inv, where hash = hash and k' = k and k = "fg_key g"] unfolding d by auto
qed

section \<open>The guards of a client\<close>

definition stored :: "(LockId \<Rightarrow> u64) \<Rightarrow> LocalClient \<Rightarrow> LockId \<Rightarrow> FastLockGuard option" where
  "stored idhash c i = map_of (guard_storage c ! guard_shard_index idhash c i) i"

definition storage_ok :: "LocalClient \<Rightarrow> bool" where
  "storage_ok c \<longleftrightarrow> length (guard_storage c) = Suc (unat (guard_mask c)) \<and>
     (\<forall>l \<in> set (guard_storage c). distinct (map fst l))"

definition backers :: "(LockId \<Rightarrow> u64) \<Rightarrow> LocalClient \<Rightarrow> hold_rec \<Rightarrow> LockId set" where
  "backers idhash c x = {i. \<exists>g. stored idhash c i = Some g \<and> ghold g = x}"

definition client_inv :: "(ObjectKey \<Rightarrow> u64) \<Rightarrow> (LockId \<Rightarrow> u64) \<Rightarrow> LocalClient \<Rightarrow> bool" where
  "client_inv hash idhash c \<longleftrightarrow>
     storage_ok c \<and> mgr_inv (manager c)
     \<and> (\<forall>i g. stored idhash c i = Some g \<longrightarrow>
           \<not> fg_released g \<and> \<not> fg_disabled g \<and> fg_guard_id g \<in> mgr_guards hash (manager c) (fg_key g))
     \<and> (\<forall>i j g h. stored idhash c i = Some g \<and> stored idhash c j = Some h \<and> fg_guard_id g = fg_guard_id h \<longrightarrow> i = j)
     \<and> (\<forall>x. card (backers idhash c x) \<le> mgr_held hash (manager c) x)"

lemma client_inv_card: "client_inv hash idhash c \<Longrightarrow> card (backers idhash c x) \<le> mgr_held hash (manager c) x"
  unfolding client_inv_def by blast

lemma storage_index_less: "storage_ok c \<Longrightarrow> guard_shard_index idhash c i < length (guard_storage c)"
  using and_le_mask [of "idhash i" "guard_mask c"] by (simp add: storage_ok_def guard_shard_index_def)

lemma finite_backers: "storage_ok c \<Longrightarrow> finite (backers idhash c x)"
proof -
  assume ok: "storage_ok c"
  have "backers idhash c x \<subseteq> fst ` \<Union> (set ` set (guard_storage c))"
    using storage_index_less [OF ok, of idhash]
    by (force simp: backers_def stored_def dest: map_of_SomeD)
  then show ?thesis by (rule finite_subset) auto
qed

text \<open>The storage behaves as one map, whatever the hash.\<close>

lemma insert_guard_spec:
  assumes "storage_ok c"
  shows "storage_ok (insert_guard idhash i g c)" and "manager (insert_guard idhash i g c) = manager c"
    and "stored idhash (insert_guard idhash i g c) = (stored idhash c)(i \<mapsto> g)"
proof -
  let ?n = "guard_shard_index idhash c i"
  note b = storage_index_less [OF assms, of idhash]
  have idx: "guard_shard_index idhash (insert_guard idhash i g c) = guard_shard_index idhash c"
    by (simp add: fun_eq_iff guard_shard_index_def insert_guard_def Let_def)
  show "manager (insert_guard idhash i g c) = manager c" by (simp add: insert_guard_def Let_def)
  show "storage_ok (insert_guard idhash i g c)"
    using assms b [of i]
    by (auto simp: storage_ok_def insert_guard_def Let_def distinct_update
        dest!: subsetD [OF set_update_subset_insert])
  show "stored idhash (insert_guard idhash i g c) = (stored idhash c)(i \<mapsto> g)"
  proof
    fix j show "stored idhash (insert_guard idhash i g c) j = ((stored idhash c)(i \<mapsto> g)) j"
      using b [of i] unfolding stored_def idx
      by (cases "guard_shard_index idhash c j = ?n")
        (auto simp: insert_guard_def Let_def update_conv' nth_list_update)
  qed
qed

lemma remove_guard_spec:
  fixes c :: LocalClient and i :: LockId and idhash :: "LockId \<Rightarrow> u64" and m :: FastObjectLockManager
  defines "c' \<equiv> c\<lparr>guard_storage := (guard_storage c)[guard_shard_index idhash c i :=
                 AList.delete i (guard_storage c ! guard_shard_index idhash c i)], manager := m\<rparr>"
  assumes "storage_ok c"
  shows "storage_ok c'" and "stored idhash c' = (stored idhash c)(i := None)"
proof -
  let ?n = "guard_shard_index idhash c i"
  note b = storage_index_less [OF assms(2), of idhash]
  have idx: "guard_shard_index idhash c' = guard_shard_index idhash c"
    by (simp add: fun_eq_iff guard_shard_index_def c'_def)
  show "storage_ok c'"
    using assms(2) b [of i]
    by (auto simp: storage_ok_def c'_def distinct_delete dest!: subsetD [OF set_update_subset_insert])
  show "stored idhash c' = (stored idhash c)(i := None)"
  proof
    fix j show "stored idhash c' j = ((stored idhash c)(i := None)) j"
      using b [of i] unfolding stored_def idx
      by (cases "guard_shard_index idhash c j = ?n") (auto simp: c'_def delete_conv' nth_list_update)
  qed
qed

text \<open>What an acquisition needs from its surroundings: a fresh lock id and a fresh guard id.\<close>

definition client_ready :: "(LockId \<Rightarrow> u64) \<Rightarrow> acq_env \<Rightarrow> LockRequest \<Rightarrow> LocalClient \<Rightarrow> bool" where
  "client_ready idhash env req c \<longleftrightarrow>
     stored idhash c \<lparr>id_resource = lr_resource req, id_uuid = e_uuid env\<rparr> = None
     \<and> (\<forall>i g. stored idhash c i = Some g \<longrightarrow> fg_guard_id g \<noteq> e_gid env)
     \<and> spares (insert (lr_owner req) {fg_owner g | i g. stored idhash c i = Some g}) (snd (snd (e_sched env)))
     \<and> spares_guards {fg_guard_id g | i g. stored idhash c i = Some g} (snd (snd (e_sched env)))"

definition client_holding :: "(LockId \<Rightarrow> u64) \<Rightarrow> LocalClient \<Rightarrow> LockId \<Rightarrow> (ObjectKey \<times> LockMode) option" where
  "client_holding idhash c i = map_option (\<lambda>g. (fg_key g, fg_mode g)) (stored idhash c i)"

lemma backers_update:
  "backers idhash c' x = (if ghold g = x then insert i (backers idhash c x) else backers idhash c x)"
  if "stored idhash c' = (stored idhash c)(i \<mapsto> g)" "stored idhash c i = None"
  using that by (auto simp: backers_def)

lemma backers_remove:
  "backers idhash c' x = (if ghold g = x then backers idhash c x - {i} else backers idhash c x)"
  if "stored idhash c' = (stored idhash c)(i := None)" "stored idhash c i = Some g"
  using that by (auto simp: backers_def)

section \<open>The contract\<close>

lemma local_acquire_cases:
  assumes "manager_acquire_lock hash (e_gid env) (e_sched env) (client_request req) (manager c) = (res, mgr)"
    and "local_acquire_lock hash idhash env req c = (r, c')"
  shows "(\<exists>g. res = Some (Inr g) \<and> won r \<and>
            (\<forall>idx. individual_lock idx r = [(\<lparr>id_resource = lr_resource req, id_uuid = e_uuid env\<rparr>, idx)]) \<and>
            c' = insert_guard idhash \<lparr>id_resource = lr_resource req, id_uuid = e_uuid env\<rparr> g (c\<lparr>manager := mgr\<rparr>))
       \<or> ((\<nexists>g. res = Some (Inr g)) \<and> \<not> won r \<and> c' = c\<lparr>manager := mgr\<rparr>)"
  using assms
  by (auto simp: local_acquire_lock_def won_def individual_lock_def LockResponse_success_def
      LockResponse_failure_def mk_info_def Let_def split: option.splits sum.splits LockResult.splits)

lemma stored_manager [simp]: "stored idhash (c\<lparr>manager := m\<rparr>) = stored idhash c"
  by (simp add: stored_def guard_shard_index_def fun_eq_iff)

lemma storage_ok_manager [simp]: "storage_ok (c\<lparr>manager := m\<rparr>) = storage_ok c"
  by (simp add: storage_ok_def)

lemma backers_manager [simp]: "backers idhash (c\<lparr>manager := m\<rparr>) = backers idhash c"
  by (simp add: backers_def fun_eq_iff)

text \<open>The manager may change as long as it keeps backing the stored guards.\<close>

lemma client_inv_manager:
  assumes "client_inv hash idhash c" and "mgr_inv mgr"
    and "\<And>x. backers idhash c x \<noteq> {} \<Longrightarrow> mgr_held hash (manager c) x \<le> mgr_held hash mgr x"
    and "\<And>i g. stored idhash c i = Some g \<Longrightarrow> fg_guard_id g \<in> mgr_guards hash mgr (fg_key g)"
  shows "client_inv hash idhash (c\<lparr>manager := mgr\<rparr>)"
proof -
  have "card (backers idhash c x) \<le> mgr_held hash mgr x" for x
    using client_inv_card [OF assms(1), of x] assms(3) [of x]
    by (cases "backers idhash c x = {}") (auto intro: le_trans)
  with assms show ?thesis by (simp add: client_inv_def)
qed

lemma local_acquire_spec:
  assumes inv: "client_inv hash idhash c" and rdy: "client_ready idhash env req c"
    and call: "local_acquire_lock hash idhash env req c = (r, c')"
  defines "i0 \<equiv> \<lparr>id_resource = lr_resource req, id_uuid = e_uuid env\<rparr>"
  shows "client_inv hash idhash c' \<and>
    (if won r then (\<forall>idx. individual_lock idx r = [(i0, idx)]) \<and> client_holding idhash c i0 = None \<and>
        client_holding idhash c' = (client_holding idhash c)(i0 \<mapsto> (lr_resource req, mode_of (lr_lock_type req)))
     else client_holding idhash c' = client_holding idhash c)"
proof -
  obtain now deadline ts where sched: "e_sched env = (now, deadline, ts)" by (metis prod_cases3)
  let ?A = "insert (lr_owner req) {fg_owner g | i g. stored idhash c i = Some g}"
  let ?S = "{fg_guard_id g | i g. stored idhash c i = Some g}"
  obtain res mgr where acq:
    "manager_acquire_lock hash (e_gid env) (now, deadline, ts) (client_request req) (manager c) = (res, mgr)"
    by fastforce
  have mi: "mgr_inv (manager c)" and ok: "storage_ok c" using inv by (simp_all add: client_inv_def)
  have sp: "spares ?A ts" "spares_guards ?S ts" using rdy by (simp_all add: client_ready_def sched)
  note spec = manager_acquire_spec [OF mi sp acq]
  have keep: "mgr_held hash (manager c) x \<le> mgr_held hash mgr x" if "backers idhash c x \<noteq> {}" for x
  proof -
    have "snd (snd x) \<in> ?A" using that by (auto simp: backers_def ghold_def)
    then show ?thesis using spec(2) [of x] by simp
  qed
  have gd: "fg_guard_id g \<in> mgr_guards hash mgr (fg_key g)" if "stored idhash c i = Some g" for i g
    using that inv by (intro spec(3)) (auto simp: client_inv_def)
  have inv1: "client_inv hash idhash (c\<lparr>manager := mgr\<rparr>)"
    by (rule client_inv_manager [OF inv spec(1)]) (use keep gd in auto)
  show ?thesis
  proof (cases "\<exists>g. res = Some (Inr g)")
    case False
    with local_acquire_cases [OF acq [folded sched] call] inv1 show ?thesis
      by (auto simp: client_holding_def fun_eq_iff)
  next
    case True
    then obtain g where g: "res = Some (Inr g)" by blast
    have w: "won r" "\<forall>idx. individual_lock idx r = [(i0, idx)]"
      and c': "c' = insert_guard idhash i0 g (c\<lparr>manager := mgr\<rparr>)"
      using local_acquire_cases [OF acq [folded sched] call] g by (auto simp: i0_def)
    have gn: "g = FastLockGuard_new (e_gid env) (lr_resource req) (mode_of (lr_lock_type req)) (lr_owner req)"
      "e_gid env \<in> mgr_guards hash mgr (lr_resource req)"
      using spec(4) [OF g] by (simp_all add: client_request_def)
    have ins: "storage_ok c'" "manager c' = mgr" "stored idhash c' = (stored idhash c)(i0 \<mapsto> g)"
      using insert_guard_spec [of "c\<lparr>manager := mgr\<rparr>" idhash i0 g] ok by (simp_all add: c')
    have fresh: "stored idhash c i0 = None" using rdy by (simp add: client_ready_def i0_def)
    have gx: "ghold g = req_hold (client_request req)"
      by (simp add: gn(1) ghold_def FastLockGuard_new_def req_hold_def client_request_def)
    have "card (backers idhash c' x) \<le> mgr_held hash mgr x" for x
    proof (cases "ghold g = x")
      case x: True
      then have "mgr_held hash mgr x = Suc (mgr_held hash (manager c) x)"
        using spec(2) [of x] gx g by (auto simp: req_hold_def client_request_def)
      moreover have "card (backers idhash c x) \<le> mgr_held hash (manager c) x"
        by (rule client_inv_card [OF inv])
      ultimately show ?thesis
        using backers_update [OF ins(3) fresh, of x] x finite_backers [OF ok] by (simp add: card_insert_if)
    next
      case x: False
      then show ?thesis
        using backers_update [OF ins(3) fresh, of x] client_inv_card [OF inv1, of x] by simp
    qed
    moreover have "\<forall>i h. stored idhash c' i = Some h \<longrightarrow>
        \<not> fg_released h \<and> \<not> fg_disabled h \<and> fg_guard_id h \<in> mgr_guards hash mgr (fg_key h)"
      using inv gd gn by (auto simp: ins(3) client_inv_def FastLockGuard_new_def)
    moreover have "\<forall>i j h h'. stored idhash c' i = Some h \<and> stored idhash c' j = Some h' \<and>
        fg_guard_id h = fg_guard_id h' \<longrightarrow> i = j"
    proof -
      have "fg_guard_id h \<noteq> fg_guard_id g" if "stored idhash c i = Some h" for i h
        using that rdy by (simp add: client_ready_def gn(1) FastLockGuard_new_def)
      moreover have "i = j"
        if "stored idhash c i = Some h" "stored idhash c j = Some h'" "fg_guard_id h = fg_guard_id h'" for i j h h'
        using that inv unfolding client_inv_def by blast
      ultimately show ?thesis unfolding ins(3) by (metis fun_upd_apply option.inject)
    qed
    ultimately have "client_inv hash idhash c'"
      using spec(1) ins(1,2) by (simp add: client_inv_def)
    with w fresh show ?thesis
      by (auto simp: client_holding_def ins(3) fun_eq_iff gn(1) FastLockGuard_new_def)
  qed
qed

lemma local_release_spec:
  assumes inv: "client_inv hash idhash c"
  shows "client_inv hash idhash (snd (local_release hash idhash now i c))
    \<and> client_holding idhash (snd (local_release hash idhash now i c)) = (client_holding idhash c)(i := None)
    \<and> (fst (local_release hash idhash now i c) \<longleftrightarrow> client_holding idhash c i \<noteq> None)"
proof (cases "stored idhash c i")
  case None
  then have "local_release hash idhash now i c = (False, c)"
    by (simp add: local_release_def stored_def Let_def)
  with None inv show ?thesis by (auto simp: client_holding_def fun_eq_iff)
next
  case (Some g)
  define m where "m = drop_in_manager hash now g (manager c)"
  define c' where "c' = c\<lparr>guard_storage := (guard_storage c)[guard_shard_index idhash c i :=
                 AList.delete i (guard_storage c ! guard_shard_index idhash c i)], manager := m\<rparr>"
  have call: "local_release hash idhash now i c = (True, c')"
    using Some by (simp add: local_release_def stored_def Let_def c'_def m_def)
  have mi: "mgr_inv (manager c)" and ok: "storage_ok c" using inv by (simp_all add: client_inv_def)
  have g: "\<not> fg_released g" "\<not> fg_disabled g" "fg_guard_id g \<in> mgr_guards hash (manager c) (fg_key g)"
    using inv Some by (auto simp: client_inv_def)
  note drop = manager_drop_spec [OF mi g, where now = now, folded m_def]
  have rem: "storage_ok c'" "stored idhash c' = (stored idhash c)(i := None)" "manager c' = m"
    using remove_guard_spec [OF ok, where idhash = idhash and i = i and m = m] by (simp_all add: c'_def)
  have card: "card (backers idhash c' x) \<le> mgr_held hash m x" for x
    using backers_remove [OF rem(2) Some, of x] client_inv_card [OF inv, of x] drop(2)
      finite_backers [OF ok, of idhash x] Some
    by (cases "ghold g = x") (auto simp: backers_def)
  have uniq: "fg_guard_id h \<noteq> fg_guard_id g" if "stored idhash c' j = Some h" for j h
    using that inv Some unfolding client_inv_def rem(2) by (metis fun_upd_apply option.distinct(1))
  have live: "\<not> fg_released h \<and> \<not> fg_disabled h \<and> fg_guard_id h \<in> mgr_guards hash m (fg_key h)"
    if h: "stored idhash c' j = Some h" for j h
  proof -
    have "stored idhash c j = Some h" using h by (auto simp: rem(2) split: if_splits)
    then have "\<not> fg_released h" "\<not> fg_disabled h" "fg_guard_id h \<in> mgr_guards hash (manager c) (fg_key h)"
      using inv by (auto simp: client_inv_def)
    with uniq [OF h] drop(3) show ?thesis by blast
  qed
  have inj: "j = l" if "stored idhash c' j = Some h" "stored idhash c' l = Some h'"
    "fg_guard_id h = fg_guard_id h'" for j l h h'
    using that inv unfolding client_inv_def rem(2) by (metis fun_upd_apply option.distinct(1))
  have "client_inv hash idhash c'"
    unfolding client_inv_def rem(3) using rem(1) drop(1) live inj card by blast
  with call Some show ?thesis
    by (auto simp: client_holding_def rem(2) fun_eq_iff)
qed

lemma client_exclusive:
  assumes inv: "client_inv hash idhash c" and i: "client_holding idhash c i = Some (k, Exclusive)"
    and j: "client_holding idhash c j = Some (k, m)"
  shows "i = j"
proof (rule ccontr)
  assume ne: "i \<noteq> j"
  obtain g h where g: "stored idhash c i = Some g" "fg_key g = k" "fg_mode g = Exclusive"
    and h: "stored idhash c j = Some h" "fg_key h = k" "fg_mode h = m"
    using i j by (auto simp: client_holding_def)
  have mi: "mgr_inv (manager c)" and ok: "storage_ok c" using inv by (simp_all add: client_inv_def)
  let ?B = "backers idhash c (ghold g) \<union> backers idhash c (ghold h)"
  have mem: "i \<in> backers idhash c (ghold g)" "j \<in> backers idhash c (ghold h)"
    using g(1) h(1) by (auto simp: backers_def)
  have pos: "0 < mgr_held hash (manager c) (ghold g)" "0 < mgr_held hash (manager c) (ghold h)"
    using client_inv_card [OF inv] mem finite_backers [OF ok]
    by (metis card_gt_0_iff empty_iff less_le_trans)+
  let ?sh = "shard_of hash (manager c) k"
  have alone: "held ?sh (k, m', o') = (if (m', o') = (Exclusive, fg_owner g) then 1 else 0)" for m' o'
  proof -
    have "0 < held ?sh (k, Exclusive, fg_owner g)" using pos(1) g by (simp add: mgr_held_def ghold_def)
    then show ?thesis
      using obj_exclusive_alone shard_inv_objD [OF shard_of_inv [OF mi]]
      by (fastforce simp: held_def split: option.splits)
  qed
  have "ghold h = ghold g"
    using pos(2) alone [of m "fg_owner h"] g h by (auto simp: mgr_held_def ghold_def split: if_splits)
  then have "{i, j} \<subseteq> backers idhash c (ghold g)" using mem by simp
  then have "card {i, j} \<le> mgr_held hash (manager c) (ghold g)"
    using card_mono [OF finite_backers [OF ok]] client_inv_card [OF inv] by (metis le_trans)
  with ne alone [of Exclusive "fg_owner g"] g show False by (simp add: mgr_held_def ghold_def)
qed

interpretation node: lock_client "client_inv hash idhash" "client_holding idhash" "client_ready idhash"
  "local_acquire_lock hash idhash" "\<lambda>i c. map_prod Inr id (local_release hash idhash now i c)"
  for hash :: "ObjectKey \<Rightarrow> u64" and idhash :: "LockId \<Rightarrow> u64" and now :: nat
proof
  fix c env req i k j m
  note acq = local_acquire_spec [OF _ _ prod.collapse [symmetric], of hash idhash c env req]
  show "client_inv hash idhash c \<Longrightarrow> client_ready idhash env req c \<Longrightarrow>
      client_inv hash idhash (snd (local_acquire_lock hash idhash env req c))" using acq by blast
  show "client_inv hash idhash c \<Longrightarrow> client_ready idhash env req c \<Longrightarrow>
      won (fst (local_acquire_lock hash idhash env req c)) \<Longrightarrow>
      \<exists>i. (\<forall>idx. individual_lock idx (fst (local_acquire_lock hash idhash env req c)) = [(i, idx)]) \<and>
          client_holding idhash c i = None \<and>
          client_holding idhash (snd (local_acquire_lock hash idhash env req c)) =
            (client_holding idhash c)(i \<mapsto> (lr_resource req, mode_of (lr_lock_type req)))" using acq by auto
  show "client_inv hash idhash c \<Longrightarrow> client_ready idhash env req c \<Longrightarrow>
      \<not> won (fst (local_acquire_lock hash idhash env req c)) \<Longrightarrow>
      client_holding idhash (snd (local_acquire_lock hash idhash env req c)) = client_holding idhash c"
    using acq by auto
  show "client_inv hash idhash c \<Longrightarrow>
      client_inv hash idhash (snd (map_prod Inr id (local_release hash idhash now i c)))"
    using local_release_spec by (simp add: snd_map_prod)
  show "client_inv hash idhash c \<Longrightarrow>
      client_holding idhash (snd (map_prod Inr id (local_release hash idhash now i c))) =
        (client_holding idhash c)(i := None)"
    using local_release_spec by (simp add: snd_map_prod)
  show "client_inv hash idhash c \<Longrightarrow> client_holding idhash c i = Some (k, Exclusive) \<Longrightarrow>
      client_holding idhash c j = Some (k, m) \<Longrightarrow> i = j" by (rule client_exclusive)
qed

section \<open>Properties\<close>

text \<open>Entries that are live on their nodes, and the calls of the quorum lock on nodes.\<close>

definition nodes_hold ::
    "(LockId \<Rightarrow> u64) \<Rightarrow> ObjectKey \<Rightarrow> LockMode \<Rightarrow> LocalClient list \<Rightarrow> (LockId \<times> nat) list \<Rightarrow> bool" where
  "nodes_hold idhash k m cs es \<longleftrightarrow> distinct (map snd es) \<and>
     (\<forall>(i, idx) \<in> set es. idx < length cs \<and> client_holding idhash (cs ! idx) i = Some (k, m))"

definition nodes_ready ::
    "(ObjectKey \<Rightarrow> u64) \<Rightarrow> (LockId \<Rightarrow> u64) \<Rightarrow> (nat \<Rightarrow> acq_env) \<Rightarrow> LockRequest \<Rightarrow> LocalClient list \<Rightarrow> bool" where
  "nodes_ready hash idhash env req cs \<longleftrightarrow>
     (\<forall>idx < length cs. client_inv hash idhash (cs ! idx) \<and> client_ready idhash (env idx) req (cs ! idx))"

definition node_acq ::
    "(ObjectKey \<Rightarrow> u64) \<Rightarrow> (LockId \<Rightarrow> u64) \<Rightarrow> (nat \<Rightarrow> acq_env) \<Rightarrow> LocalClient acq_call" where
  "node_acq hash idhash env req idx c = local_acquire_lock hash idhash (env idx) req c"

definition node_rel ::
    "(ObjectKey \<Rightarrow> u64) \<Rightarrow> (LockId \<Rightarrow> u64) \<Rightarrow> nat \<Rightarrow> LocalClient rel_call" where
  "node_rel hash idhash now idx i c = map_prod Inr id (local_release hash idhash now i c)"

lemma node_conv:
  "nodes_hold idhash = node.live idhash" "nodes_ready hash idhash = node.all_ready hash idhash"
  "node_acq hash idhash env = (\<lambda>req idx. local_acquire_lock hash idhash (env idx) req)"
  "node_rel hash idhash now = (\<lambda>idx i c. map_prod Inr id (local_release hash idhash now i c))"
  by (auto simp: nodes_hold_def node.live_def nodes_ready_def node.all_ready_def node_acq_def
      node_rel_def fun_eq_iff)

lemma majority: "n < 2 * with_clients_quorum n"
  by (auto simp: with_clients_quorum_def DistributedLock_quorum_def)

text \<open>A node with one shard, and two requests for one object.\<close>

definition ex_node :: LocalClient where
  "ex_node = \<lparr>guard_storage = [[]], guard_mask = 0, manager = \<lparr>shards = [LockShard_new], shard_mask = 0\<rparr>\<rparr>"

definition ex_env :: "string \<Rightarrow> u64 \<Rightarrow> acq_env" where
  "ex_env u g = \<lparr>e_uuid = u, e_gid = g, e_now = 0, e_sched = (0, 0, [ex_round])\<rparr>"

definition ex_lock_req :: "string \<Rightarrow> LockRequest" where
  "ex_lock_req own = LockRequest_new (ObjectKey ''b'' ''o'' None) LExclusive own"

definition ex_held_node :: LocalClient where
  "ex_held_node = snd (local_acquire_lock (\<lambda>_. 0) (\<lambda>_. 0) (ex_env ''u1'' 1) (ex_lock_req ''a'') ex_node)"

lemma ex_node_ok: "client_inv (\<lambda>_. 0) (\<lambda>_. 0) ex_node" "stored (\<lambda>_. 0) ex_node i = None"
  by (simp_all add: client_inv_def ex_node_def storage_ok_def mgr_inv_def stored_def
      guard_shard_index_def backers_def shard_inv_new)

lemma ex_ready: "client_ready (\<lambda>_. 0) (ex_env u g) (ex_lock_req own) ex_node"
  by (simp add: client_ready_def ex_node_ok ex_env_def ex_round_def spares_def spares_guards_def)

lemmas node_run_defs = run_defs ex_node_def ex_env_def ex_lock_req_def LockRequest_new_def
  local_acquire_lock_def manager_acquire_lock_def client_request_def mode_of_def put_shard_def
  shard_index_def register_guard_def FastLockGuard_new_def insert_guard_def guard_shard_index_def

lemma ex_held_stored:
  "stored (\<lambda>_. 0) ex_held_node i =
     (if i = \<lparr>id_resource = ObjectKey ''b'' ''o'' None, id_uuid = ''u1''\<rparr>
      then Some (FastLockGuard_new 1 (ObjectKey ''b'' ''o'' None) Exclusive ''a'') else None)"
  by (simp add: ex_held_node_def stored_def node_run_defs)

lemma ex_held_ok: "client_inv (\<lambda>_. 0) (\<lambda>_. 0) ex_held_node"
  unfolding ex_held_node_def
  using local_acquire_spec [OF ex_node_ok(1) ex_ready prod.collapse [symmetric]] by blast





text \<open>
  The only failure a quorum lock with clients reports is \<open>QuorumNotReached\<close>, and the number
  it reports as achieved is always zero: a timeout is never told apart, and the count of
  locks that were acquired and rolled back is lost.
\<close>

theorem quorum_failure_reports_zero:
  assumes "acquire_guard acq rel q uuid now req cs = (Some r, cs')" and "cs \<noteq> []"
  shows "(\<exists>g. r = Inr (Some g) \<and> q \<le> length (dg_entries g)) \<or> r = Inl (QuorumNotReached q 0)"
proof -
  have msg: "contains ''quorum'' (quorum_msg a b)" for a b
    unfolding quorum_msg_def
    by (rule contains_append) (simp add: contains_def sublist_Cons_right)
  show ?thesis
    using assms
    by (auto simp: acquire_guard_def acquire_lock_quorum_def Let_def LockResponse_success_def
        LockResponse_failure_def msg split: if_splits option.splits prod.splits)
qed

theorem quorum_failure_reports_zero_witness:
  "fst (acquire_guard (\<lambda>req idx c. (Some (Inl (Internal ''offline'')), c)) (\<lambda>idx i c. (Inr True, c)) 1 ''q'' 0
          (ex_lock_req ''a'') [()]) = Some (Inl (QuorumNotReached 1 0))"
proof -
  let ?call = "acquire_guard (\<lambda>req idx c. (Some (Inl (Internal ''offline'')), c)) (\<lambda>idx i c. (Inr True, c)) 1 ''q'' 0
          (ex_lock_req ''a'') [()]"
  have "\<exists>r. fst ?call = Some r \<and> (\<nexists>g. r = Inr (Some g))"
    by (simp add: acquire_guard_def acquire_lock_quorum_def Let_def individual_lock_def
        LockResponse_failure_def)
  then obtain r where r: "?call = (Some r, snd ?call)" "\<nexists>g. r = Inr (Some g)" by (metis prod.collapse)
  with quorum_failure_reports_zero [OF r(1)] show ?thesis by (metis fst_conv list.distinct(1))
qed

end
