(* ===== verification/PathClean.thy ===== *)
theory PathClean
  imports Prelude
begin

text \<open>
  Lexical path normalisation of the policy crate (\<open>crates/policy/src/policy/utils/path.rs\<close>):
  the lazily copied output buffer with its index panics, the scanning loop, and the
  component-wise reference it is equivalent to. A value \<open>None\<close> is an out-of-range panic.
\<close>

section \<open>The output buffer\<close>

record LazyBuf =
  lb_s :: string
  lb_buf :: "string option"
  lb_w :: nat

definition LazyBuf_new :: "string \<Rightarrow> LazyBuf" where
  "LazyBuf_new s = \<lparr>lb_s = s, lb_buf = None, lb_w = 0\<rparr>"

definition lb_index :: "LazyBuf \<Rightarrow> nat \<Rightarrow> char option" where
  "lb_index b i =
    (let v = (case lb_buf b of Some x \<Rightarrow> x | None \<Rightarrow> lb_s b)
     in if i < length v then Some (v ! i) else None)"

definition lb_append :: "char \<Rightarrow> LazyBuf \<Rightarrow> LazyBuf option" where
  "lb_append c b =
    (if lb_buf b = None \<and> lb_w b < length (lb_s b) \<and> lb_s b ! lb_w b = c
     then Some (b\<lparr>lb_w := lb_w b + 1\<rparr>)
     else
       (let buf = (case lb_buf b of
                     Some x \<Rightarrow> x
                   | None \<Rightarrow> take (lb_w b) (lb_s b) @ replicate (length (lb_s b) - lb_w b) (CHR 0x00))
        in if lb_w b < length buf
           then Some (b\<lparr>lb_buf := Some (buf[lb_w b := c]), lb_w := lb_w b + 1\<rparr>)
           else None))"

definition lb_string :: "LazyBuf \<Rightarrow> string" where
  "lb_string b = take (lb_w b) (case lb_buf b of Some x \<Rightarrow> x | None \<Rightarrow> lb_s b)"

text \<open>Appending the bytes of a list one after the other, as the inner loop of \<open>clean\<close> does.\<close>

fun lb_append_all :: "string \<Rightarrow> LazyBuf \<Rightarrow> LazyBuf option" where
  "lb_append_all [] b = Some b"
| "lb_append_all (c # cs) b = Option.bind (lb_append c b) (lb_append_all cs)"

section \<open>The loop\<close>

text \<open>The inner loop of the dot-dot case, after its first decrement.\<close>

function back_up :: "nat \<Rightarrow> LazyBuf \<Rightarrow> LazyBuf option" where
  "back_up dotdot b =
    (if dotdot < lb_w b then
       (case lb_index b (lb_w b) of
          None \<Rightarrow> None
        | Some c \<Rightarrow> if c \<noteq> CHR ''/'' then back_up dotdot (b\<lparr>lb_w := lb_w b - 1\<rparr>) else Some b)
     else Some b)"
  by pat_completeness auto
termination by (relation "measure (\<lambda>(_, b). lb_w b)") auto

declare back_up.simps [simp del]

text \<open>The dot-dot case: the new buffer and the new value of \<open>dotdot\<close>.\<close>

definition dot_dot :: "bool \<Rightarrow> nat \<Rightarrow> LazyBuf \<Rightarrow> (LazyBuf \<times> nat) option" where
  "dot_dot rooted dotdot b =
    (if dotdot < lb_w b then
       map_option (\<lambda>b'. (b', dotdot)) (back_up dotdot (b\<lparr>lb_w := lb_w b - 1\<rparr>))
     else if \<not> rooted then
       map_option (\<lambda>b'. (b', lb_w b'))
         (lb_append_all (if 0 < lb_w b then ''/..'' else ''..'') b)
     else Some (b, dotdot))"

text \<open>
  The scanning loop. The position \<open>r\<close> of the source is the part of the path still to be read.
\<close>

function clean_loop :: "bool \<Rightarrow> nat \<Rightarrow> LazyBuf \<Rightarrow> string \<Rightarrow> LazyBuf option" where
  "clean_loop rooted dotdot b [] = Some b"
| "clean_loop rooted dotdot b (c # rest) =
    (if c = CHR ''/'' \<or> (c = CHR ''.'' \<and> (rest = [] \<or> hd rest = CHR ''/'')) then
       clean_loop rooted dotdot b rest
     else if c = CHR ''.'' \<and> hd rest = CHR ''.'' \<and> (tl rest = [] \<or> hd (tl rest) = CHR ''/'') then
       (case dot_dot rooted dotdot b of
          None \<Rightarrow> None
        | Some (b', dotdot') \<Rightarrow> clean_loop rooted dotdot' b' (tl rest))
     else
       (case lb_append_all
               ((if rooted \<and> lb_w b \<noteq> 1 \<or> \<not> rooted \<and> lb_w b \<noteq> 0 then ''/'' else [])
                 @ takeWhile (\<lambda>x. x \<noteq> CHR ''/'') (c # rest)) b of
          None \<Rightarrow> None
        | Some b' \<Rightarrow> clean_loop rooted dotdot b' (dropWhile (\<lambda>x. x \<noteq> CHR ''/'') (c # rest))))"
  by pat_completeness auto
termination
proof (relation "measure (\<lambda>(_, _, _, rest). length rest)", simp_all)
  fix c :: char and rest :: string
  assume "c \<noteq> CHR ''/'' \<and> (c = CHR ''.'' \<longrightarrow> rest \<noteq> [] \<and> hd rest \<noteq> CHR ''/'')"
  show "length (dropWhile (\<lambda>x. x \<noteq> CHR ''/'') rest) < Suc (length rest)"
    by (simp add: length_dropWhile_le less_Suc_eq_le)
qed

definition clean :: "string \<Rightarrow> string option" where
  "clean path =
    (if path = [] then Some ''.''
     else
       (case (if hd path = CHR ''/''
              then Option.bind (lb_append (CHR ''/'') (LazyBuf_new path)) (\<lambda>b. clean_loop True 1 b (tl path))
              else clean_loop False 0 (LazyBuf_new path) path) of
          None \<Rightarrow> None
        | Some b \<Rightarrow> Some (if lb_w b = 0 then ''.'' else lb_string b)))"

section \<open>The reference\<close>

fun split_slash :: "string \<Rightarrow> string list" where
  "split_slash [] = [[]]"
| "split_slash (c # s) =
    (if c = CHR ''/'' then [] # split_slash s
     else (c # hd (split_slash s)) # tl (split_slash s))"

definition norm_step :: "bool \<Rightarrow> string list \<Rightarrow> string \<Rightarrow> string list" where
  "norm_step rooted cs c =
    (if c = [] \<or> c = ''.'' then cs
     else if c = ''..'' then
       (if cs \<noteq> [] \<and> last cs \<noteq> ''..'' then butlast cs
        else if rooted then cs else cs @ [''..''])
     else cs @ [c])"

fun join_slash :: "string list \<Rightarrow> string" where
  "join_slash [] = []"
| "join_slash [c] = c"
| "join_slash (c # d # cs) = c @ CHR ''/'' # join_slash (d # cs)"

definition render :: "bool \<Rightarrow> string list \<Rightarrow> string" where
  "render rooted cs = (if rooted then ''/'' else []) @ join_slash cs"

definition clean_ref :: "string \<Rightarrow> string" where
  "clean_ref path =
    (let rooted = (path \<noteq> [] \<and> hd path = CHR ''/'');
         out = render rooted (foldl (norm_step rooted) [] (split_slash path))
     in if out = [] then ''.'' else out)"

section \<open>The buffer refines a growing string\<close>

definition lb_full :: "LazyBuf \<Rightarrow> string" where
  "lb_full b = (case lb_buf b of Some x \<Rightarrow> x | None \<Rightarrow> lb_s b)"

definition lb_ok :: "LazyBuf \<Rightarrow> bool" where
  "lb_ok b \<longleftrightarrow> length (lb_full b) = length (lb_s b) \<and> lb_w b \<le> length (lb_s b)"

lemma lb_string_full: "lb_string b = take (lb_w b) (lb_full b)"
  by (simp add: lb_string_def lb_full_def)

lemma lb_full_w [simp]: "lb_full (b\<lparr>lb_w := n\<rparr>) = lb_full b"
  by (simp add: lb_full_def split: option.split)

lemma lb_new [simp]: "lb_ok (LazyBuf_new s)" "lb_string (LazyBuf_new s) = []"
  "lb_s (LazyBuf_new s) = s" "lb_w (LazyBuf_new s) = 0"
  by (simp_all add: LazyBuf_new_def lb_ok_def lb_full_def lb_string_def)

lemma lb_w_length: "lb_ok b \<Longrightarrow> length (lb_string b) = lb_w b"
  by (simp add: lb_ok_def lb_string_full)

lemma lb_append_ok:
  assumes "lb_ok b" and "lb_w b < length (lb_s b)"
  shows "\<exists>b'. lb_append c b = Some b' \<and> lb_ok b' \<and> lb_s b' = lb_s b \<and> lb_string b' = lb_string b @ [c]"
proof (cases "lb_buf b = None \<and> lb_s b ! lb_w b = c")
  case True
  with assms show ?thesis
    by (auto simp: lb_append_def lb_ok_def lb_full_def lb_string_def take_Suc_conv_app_nth)
next
  case False
  define buf where "buf = (case lb_buf b of Some x \<Rightarrow> x
    | None \<Rightarrow> take (lb_w b) (lb_s b) @ replicate (length (lb_s b) - lb_w b) (CHR 0x00))"
  have l: "length buf = length (lb_s b)" and t: "take (lb_w b) buf = lb_string b"
    using assms by (auto simp: buf_def lb_ok_def lb_full_def lb_string_def split: option.splits)
  have "lb_append c b = Some (b\<lparr>lb_buf := Some (buf[lb_w b := c]), lb_w := lb_w b + 1\<rparr>)"
    using False assms(2) l by (auto simp: lb_append_def buf_def Let_def)
  moreover have "take (Suc (lb_w b)) (buf[lb_w b := c]) = lb_string b @ [c]"
    using assms(2) l t by (simp add: take_Suc_conv_app_nth)
  ultimately show ?thesis
    using l assms(2) by (auto simp: lb_ok_def lb_full_def lb_string_full)
qed

lemma lb_append_all_ok:
  assumes "lb_ok b" and "lb_w b + length cs \<le> length (lb_s b)"
  shows "\<exists>b'. lb_append_all cs b = Some b' \<and> lb_ok b' \<and> lb_s b' = lb_s b \<and> lb_string b' = lb_string b @ cs"
  using assms
proof (induction cs arbitrary: b)
  case (Cons c cs)
  then obtain b1 where b1: "lb_append c b = Some b1" "lb_ok b1" "lb_s b1 = lb_s b"
    "lb_string b1 = lb_string b @ [c]"
    using lb_append_ok [of b c] by auto
  then have "lb_w b1 = Suc (lb_w b)"
    using lb_w_length [OF b1(2)] lb_w_length [OF Cons.prems(1)] by simp
  with Cons.IH [OF b1(2)] Cons.prems(2) b1 show ?case by auto
qed simp

lemma back_up_ok:
  assumes "lb_ok b" and "lb_w b < length (lb_s b)"
    and "take (Suc (lb_w b)) (lb_full b) = a @ x" and "d = length a" and "dotdot \<le> d"
    and "if dotdot = d then CHR ''/'' \<notin> set (tl x) \<and> x \<noteq> [] else \<exists>y. x = CHR ''/'' # y \<and> CHR ''/'' \<notin> set y"
  shows "back_up dotdot b = Some (b\<lparr>lb_w := d\<rparr>)"
  using assms
proof (induction "lb_w b" arbitrary: b x)
  case 0
  have "length a + length x = 1"
    using arg_cong [OF "0.prems"(3), of length] "0.prems"(1,2) "0.hyps"
    by (cases "lb_s b") (auto simp: lb_ok_def)
  moreover have "x \<noteq> []" using "0.prems"(6) by (auto split: if_splits)
  ultimately have "a = []" by (cases x) auto
  with "0.prems"(4) "0.hyps" show ?case
    by (subst back_up.simps) (cases b, simp)
next
  case (Suc n)
  have len: "length a + length x = Suc (lb_w b)"
    using arg_cong [OF Suc.prems(3), of length] Suc.prems(1,2) by (simp add: lb_ok_def)
  have xne: "x \<noteq> []" using Suc.prems(6) by (auto split: if_splits)
  have idx: "lb_index b (lb_w b) = Some (last x)"
  proof -
    have "lb_full b ! lb_w b = last (take (Suc (lb_w b)) (lb_full b))"
      using Suc.prems(1,2) by (simp add: take_Suc_conv_app_nth lb_ok_def)
    then show ?thesis
      using Suc.prems(1,2,3) xne by (simp add: lb_index_def lb_ok_def lb_full_def Let_def)
  qed
  show ?case
  proof (cases "length x = 1")
    case True
    then have "d = lb_w b" using len Suc.prems(4) by simp
    moreover obtain y where "x = [y]" using True by (auto simp: length_Suc_conv)
    ultimately show ?thesis
      using Suc.prems(5,6) idx by (subst back_up.simps) (auto split: if_splits)
  next
    case False
    then obtain y z where x: "x = y # z" "z \<noteq> []" using xne by (cases x) auto
    then have x2: "d < lb_w b" using len Suc.prems(4) by (cases z) simp_all
    have noz: "CHR ''/'' \<notin> set z" using Suc.prems(6) x by (simp split: if_splits)
    have "last x \<in> set z" using x last_in_set by simp
    with noz have nsl: "last x \<noteq> CHR ''/''" by metis
    let ?b = "b\<lparr>lb_w := n\<rparr>"
    have ok: "lb_ok ?b" "lb_w ?b < length (lb_s ?b)"
      using Suc.prems(1,2) Suc.hyps(2) by (auto simp: lb_ok_def)
    have "take (Suc n) (lb_full b) = butlast (take (Suc (lb_w b)) (lb_full b))"
      using Suc.prems(1,2) Suc.hyps(2) by (simp add: butlast_take lb_ok_def)
    also have "\<dots> = a @ butlast x" using Suc.prems(3) xne by (simp add: butlast_append)
    finally have t: "take (Suc (lb_w ?b)) (lb_full ?b) = a @ butlast x" by simp
    have c: "if dotdot = d then CHR ''/'' \<notin> set (tl (butlast x)) \<and> butlast x \<noteq> []
        else \<exists>y. butlast x = CHR ''/'' # y \<and> CHR ''/'' \<notin> set y"
      using Suc.prems(6) x noz by (auto split: if_splits dest: in_set_butlastD)
    have "lb_w b - 1 = n" using Suc.hyps(2) by simp
    then have "back_up dotdot b = back_up dotdot ?b"
      using idx nsl x2 Suc.prems(5) by (subst back_up.simps) simp
    also have "\<dots> = Some (?b\<lparr>lb_w := d\<rparr>)"
      by (rule Suc.hyps(1) [OF _ ok t Suc.prems(4,5) c]) simp
    finally show ?thesis by simp
  qed
qed

section \<open>The loop implements the reference\<close>

definition plain :: "string \<Rightarrow> bool" where
  "plain c \<longleftrightarrow> c \<noteq> [] \<and> CHR ''/'' \<notin> set c \<and> c \<noteq> ''..''"

text \<open>
  The components written so far: leading dot-dots, which only a relative path keeps, and then
  plain names. \<open>dotdot\<close> marks the end of the leading part.
\<close>

definition comps_ok :: "bool \<Rightarrow> nat \<Rightarrow> string list \<Rightarrow> string list \<Rightarrow> bool" where
  "comps_ok rooted dotdot ups cs \<longleftrightarrow>
    list_all (\<lambda>c. c = ''..'') ups \<and> list_all plain cs \<and> (rooted \<longrightarrow> ups = [])
    \<and> dotdot = length (render rooted ups)"

lemma join_snoc: "cs \<noteq> [] \<Longrightarrow> join_slash (cs @ [c]) = join_slash cs @ CHR ''/'' # c"
  by (induction cs rule: join_slash.induct) auto

lemma render_snoc:
  "render rooted (cs @ [c]) = render rooted cs @ (if cs = [] then [] else ''/'') @ c"
  by (cases "cs = []") (auto simp: render_def join_snoc)

lemma join_empty: "list_all (\<lambda>c. c \<noteq> []) cs \<Longrightarrow> join_slash cs = [] \<longleftrightarrow> cs = []"
  by (induction cs rule: join_slash.induct) auto

lemma comps_nonempty:
  assumes "comps_ok rooted dotdot ups cs"
  shows "list_all (\<lambda>c. c \<noteq> []) (ups @ cs)"
  using assms by (auto simp: comps_ok_def plain_def list_all_iff)

lemma render_mono: "length (render rooted ups) \<le> length (render rooted (ups @ cs))"
  by (induction cs rule: rev_induct) (auto simp: render_snoc simp flip: append_assoc)

lemma render_separator:
  assumes "comps_ok rooted dotdot ups cs"
  shows "(rooted \<and> length (render rooted (ups @ cs)) \<noteq> 1 \<or> \<not> rooted \<and> length (render rooted (ups @ cs)) \<noteq> 0)
    \<longleftrightarrow> ups @ cs \<noteq> []"
  using join_empty [OF comps_nonempty [OF assms]] by (simp add: render_def)

lemma above_dotdot:
  assumes "comps_ok rooted dotdot ups cs"
  shows "dotdot < length (render rooted (ups @ cs)) \<longleftrightarrow> cs \<noteq> []"
proof (cases cs rule: rev_cases)
  case (snoc cs' c)
  then have "c \<noteq> []" using assms by (auto simp: comps_ok_def plain_def)
  then show ?thesis
    using snoc assms render_mono [of rooted ups cs'] by (simp add: comps_ok_def render_snoc flip: append_assoc)
qed (use assms in \<open>simp add: comps_ok_def\<close>)

lemma dot_dot_pop:
  assumes "lb_ok b" and "lb_string b = render rooted (ups @ cs @ [c])"
    and "comps_ok rooted dotdot ups (cs @ [c])"
  shows "\<exists>b'. dot_dot rooted dotdot b = Some (b', dotdot) \<and> lb_ok b' \<and> lb_s b' = lb_s b
    \<and> lb_string b' = render rooted (ups @ cs)"
proof -
  let ?a = "render rooted (ups @ cs)"
  let ?x = "(if ups @ cs = [] then [] else ''/'') @ c"
  let ?b = "b\<lparr>lb_w := lb_w b - 1\<rparr>"
  have c: "plain c" using assms(3) by (simp add: comps_ok_def)
  have str: "lb_string b = ?a @ ?x"
    using assms(2) render_snoc [of rooted "ups @ cs" c] by simp
  have w: "lb_w b = length ?a + length ?x"
    using lb_w_length [OF assms(1)] str by simp
  have wpos: "0 < lb_w b" using w c by (auto simp: plain_def)
  have ok: "lb_ok ?b" "lb_w ?b < length (lb_s ?b)"
    using assms(1) wpos by (auto simp: lb_ok_def)
  have t: "take (Suc (lb_w ?b)) (lb_full ?b) = ?a @ ?x"
    using str wpos by (simp add: lb_string_full)
  have le: "dotdot \<le> length ?a"
    using assms(3) render_mono [of rooted ups cs] by (simp add: comps_ok_def)
  have cond: "if dotdot = length ?a then CHR ''/'' \<notin> set (tl ?x) \<and> ?x \<noteq> []
      else \<exists>y. ?x = CHR ''/'' # y \<and> CHR ''/'' \<notin> set y"
  proof (cases "ups @ cs = []")
    case True
    then show ?thesis using c assms(3) by (auto simp: plain_def comps_ok_def dest: list.set_sel(2))
  qed (use c in \<open>auto simp: plain_def\<close>)
  have "back_up dotdot ?b = Some (b\<lparr>lb_w := length ?a\<rparr>)"
    using back_up_ok [OF ok t refl le cond] by simp
  moreover have "dotdot < lb_w b"
    using above_dotdot [OF assms(3)] lb_w_length [OF assms(1)] assms(2) by simp
  moreover have "take (length ?a) (lb_full b) = ?a"
    using arg_cong [OF str, of "take (length ?a)"] w by (simp add: lb_string_full)
  ultimately show ?thesis
    using assms(1) w by (simp add: dot_dot_def lb_ok_def lb_string_full)
qed

lemma dot_dot_push:
  assumes "lb_ok b" and "lb_string b = render False ups" and "comps_ok False dotdot ups []"
    and "lb_w b + (if ups = [] then 2 else 3) \<le> length (lb_s b)"
  shows "\<exists>b' dotdot'. dot_dot False dotdot b = Some (b', dotdot') \<and> lb_ok b' \<and> lb_s b' = lb_s b
    \<and> lb_string b' = render False (ups @ [''..'']) \<and> comps_ok False dotdot' (ups @ [''..'']) []"
proof -
  have w: "lb_w b = length (render False ups)"
    using lb_w_length [OF assms(1)] assms(2) by simp
  have emp: "0 < lb_w b \<longleftrightarrow> ups \<noteq> []"
    using render_separator [OF assms(3)] w by simp
  have "\<not> dotdot < lb_w b" using assms(3) w by (simp add: comps_ok_def)
  moreover obtain b' where b': "lb_append_all (if 0 < lb_w b then ''/..'' else ''..'') b = Some b'"
    "lb_ok b'" "lb_s b' = lb_s b" "lb_string b' = lb_string b @ (if 0 < lb_w b then ''/..'' else ''..'')"
    using lb_append_all_ok [OF assms(1), of "if 0 < lb_w b then ''/..'' else ''..''"] assms(4) emp
    by (auto split: if_splits)
  moreover have r: "lb_string b' = render False (ups @ [''..''])"
    using b'(4) assms(2) emp by (auto simp: render_snoc)
  ultimately show ?thesis
    using assms(3) lb_w_length [OF b'(2)] by (auto simp: dot_dot_def comps_ok_def)
qed

lemma dot_dot_ok:
  assumes "lb_ok b" and "lb_string b = render rooted (ups @ cs)" and "comps_ok rooted dotdot ups cs"
    and "lb_w b + (if ups @ cs = [] then 2 else 3) \<le> length (lb_s b)"
  shows "\<exists>b' dotdot' ups' cs'. dot_dot rooted dotdot b = Some (b', dotdot') \<and> lb_ok b' \<and> lb_s b' = lb_s b
    \<and> lb_string b' = render rooted (ups' @ cs') \<and> comps_ok rooted dotdot' ups' cs'
    \<and> ups' @ cs' = norm_step rooted (ups @ cs) ''..''"
proof (cases cs rule: rev_cases)
  case (snoc cs' c)
  have c: "c \<noteq> ''..''" using assms(3) by (simp add: comps_ok_def snoc plain_def)
  have "comps_ok rooted dotdot ups cs'" using assms(3) by (simp add: comps_ok_def snoc)
  moreover obtain b' where "dot_dot rooted dotdot b = Some (b', dotdot)" "lb_ok b'" "lb_s b' = lb_s b"
    "lb_string b' = render rooted (ups @ cs')"
    using dot_dot_pop [OF assms(1), of rooted ups cs' c dotdot] assms(2,3) by (auto simp: snoc)
  moreover have "ups @ cs' = norm_step rooted (ups @ cs) ''..''"
    using c by (simp add: norm_step_def snoc butlast_append)
  ultimately show ?thesis by blast
next
  case Nil
  show ?thesis
  proof (cases rooted)
    case True
    then have "ups = []" using assms(3) by (simp add: comps_ok_def)
    moreover have "\<not> dotdot < lb_w b"
      using above_dotdot [OF assms(3)] lb_w_length [OF assms(1)] assms(2) Nil by simp
    ultimately have "dot_dot rooted dotdot b = Some (b, dotdot)"
      and "ups @ cs = norm_step rooted (ups @ cs) ''..''"
      using True Nil by (simp_all add: dot_dot_def norm_step_def)
    then show ?thesis using assms by blast
  next
    case False
    obtain b' dotdot' where "dot_dot rooted dotdot b = Some (b', dotdot')" "lb_ok b'" "lb_s b' = lb_s b"
      "lb_string b' = render rooted ((ups @ [''..'']) @ [])" "comps_ok rooted dotdot' (ups @ [''..'']) []"
      using dot_dot_push [OF assms(1), of ups dotdot] assms(2,3,4) False Nil by auto
    moreover have "(ups @ [''..'']) @ [] = norm_step rooted (ups @ cs) ''..''"
    proof (cases ups rule: rev_cases)
      case (snoc u v)
      then have "v = ''..''" using assms(3) by (simp add: comps_ok_def)
      then show ?thesis using snoc False Nil by (simp add: norm_step_def)
    qed (simp add: norm_step_def False Nil)
    ultimately show ?thesis by blast
  qed
qed

lemma norm_dot_dot_length:
  "length (render rooted (norm_step rooted cs ''..'')) \<le> length (render rooted cs) + (if cs = [] then 2 else 3)"
proof -
  consider "norm_step rooted cs ''..'' = butlast cs" "cs \<noteq> []" | "norm_step rooted cs ''..'' = cs"
    | "norm_step rooted cs ''..'' = cs @ [''..'']"
    by (cases "cs \<noteq> [] \<and> last cs \<noteq> ''..''"; cases rooted) (simp_all add: norm_step_def)
  then show ?thesis
  proof cases
    case 1
    then show ?thesis using render_mono [of rooted "butlast cs" "[last cs]"] by simp
  qed (simp_all add: render_snoc)
qed

lemma split_slash_ne [simp]: "split_slash s \<noteq> []"
  by (cases s) auto

lemma split_slash_span:
  "split_slash s = takeWhile (\<lambda>x. x \<noteq> CHR ''/'') s # tl (split_slash (dropWhile (\<lambda>x. x \<noteq> CHR ''/'') s))"
  by (induction s) auto

lemma split_slash_boundary:
  assumes "s = [] \<or> hd s = CHR ''/''"
  shows "foldl (norm_step rooted) cs (split_slash s) = foldl (norm_step rooted) cs (tl (split_slash s))"
  using assms by (cases s) (auto simp: norm_step_def)

lemma foldl_split_slash:
  "foldl (norm_step rooted) cs (split_slash s) =
    foldl (norm_step rooted) (norm_step rooted cs (takeWhile (\<lambda>x. x \<noteq> CHR ''/'') s))
      (split_slash (dropWhile (\<lambda>x. x \<noteq> CHR ''/'') s))"
proof -
  let ?d = "dropWhile (\<lambda>x. x \<noteq> CHR ''/'') s"
  have "?d = [] \<or> hd ?d = CHR ''/''" using hd_dropWhile [of "\<lambda>x. x \<noteq> CHR ''/''" s] by blast
  then show ?thesis by (subst split_slash_span) (simp add: split_slash_boundary)
qed

lemma span_dot:
  assumes "s = [] \<or> hd s = CHR ''/''" and "CHR ''/'' \<notin> set u"
  shows "takeWhile (\<lambda>x. x \<noteq> CHR ''/'') (u @ s) = u" and "dropWhile (\<lambda>x. x \<noteq> CHR ''/'') (u @ s) = s"
  using assms by (induction u) (cases s; auto)+

lemma span_plain:
  assumes "c \<noteq> CHR ''/''"
    and "\<not> (c = CHR ''.'' \<and> (rest = [] \<or> hd rest = CHR ''/''))"
    and "\<not> (c = CHR ''.'' \<and> hd rest = CHR ''.'' \<and> (tl rest = [] \<or> hd (tl rest) = CHR ''/''))"
  shows "plain (takeWhile (\<lambda>x. x \<noteq> CHR ''/'') (c # rest))"
    and "takeWhile (\<lambda>x. x \<noteq> CHR ''/'') (c # rest) \<noteq> ''.''"
proof -
  let ?t = "takeWhile (\<lambda>x. x \<noteq> CHR ''/'') (c # rest)"
  show "?t \<noteq> ''.''" using assms(2) by (cases rest) (auto split: if_splits)
  have "?t \<noteq> ''..''"
  proof
    assume t: "?t = ''..''"
    then obtain r2 where "c = CHR ''.''" "rest = CHR ''.'' # r2" "takeWhile (\<lambda>x. x \<noteq> CHR ''/'') r2 = []"
      using assms(1) by (cases rest) (auto split: if_splits)
    then show False using assms(3) by (cases r2) (auto split: if_splits)
  qed
  then show "plain ?t" using assms(1) by (auto simp: plain_def dest: set_takeWhileD)
qed

lemma clean_loop_ok:
  assumes "lb_ok b" and "lb_string b = render rooted (ups @ cs)" and "comps_ok rooted dotdot ups cs"
    and "lb_w b + length rest + (if rest = [] \<or> hd rest = CHR ''/'' \<or> ups @ cs = [] then 0 else 1)
           \<le> length (lb_s b)"
  shows "\<exists>b'. clean_loop rooted dotdot b rest = Some b' \<and> lb_ok b'
    \<and> lb_string b' = render rooted (foldl (norm_step rooted) (ups @ cs) (split_slash rest))"
  using assms
proof (induction rooted dotdot b rest arbitrary: ups cs rule: clean_loop.induct)
  case (1 rooted dotdot b)
  then show ?case by (simp add: norm_step_def)
next
  case (2 rooted dotdot b c rest)
  let ?skip = "c = CHR ''/'' \<or> (c = CHR ''.'' \<and> (rest = [] \<or> hd rest = CHR ''/''))"
  let ?dots = "c = CHR ''.'' \<and> hd rest = CHR ''.'' \<and> (tl rest = [] \<or> hd (tl rest) = CHR ''/'')"
  let ?t = "takeWhile (\<lambda>x. x \<noteq> CHR ''/'') (c # rest)" and ?d = "dropWhile (\<lambda>x. x \<noteq> CHR ''/'') (c # rest)"
  note w = lb_w_length [OF "2.prems"(1)]
  consider "?skip" | "\<not> ?skip" "?dots" | "\<not> ?skip" "\<not> ?dots" by blast
  then show ?case
  proof cases
    case 1
    have "foldl (norm_step rooted) (ups @ cs) (split_slash (c # rest)) =
        foldl (norm_step rooted) (ups @ cs) (split_slash rest)"
      using 1 span_dot [of rest "''.''"] foldl_split_slash [of rooted "ups @ cs" "c # rest"]
      by (auto simp: norm_step_def)
    moreover have "lb_w b + length rest + (if rest = [] \<or> hd rest = CHR ''/'' \<or> ups @ cs = [] then 0 else 1)
        \<le> length (lb_s b)"
      using "2.prems"(4) 1 by (auto split: if_splits)
    ultimately show ?thesis
      using "2.IH"(1) [OF 1 "2.prems"(1-3)] 1 by simp
  next
    case 2
    then obtain r where r: "rest = CHR ''.'' # r" "r = [] \<or> hd r = CHR ''/''" "c = CHR ''.''"
      by (cases rest) auto
    have cap: "lb_w b + length r + (if ups @ cs = [] then 2 else 3) \<le> length (lb_s b)"
      using "2.prems"(4) r 2 by (auto split: if_splits)
    then have "lb_w b + (if ups @ cs = [] then 2 else 3) \<le> length (lb_s b)" by linarith
    from dot_dot_ok [OF "2.prems"(1-3) this] obtain b' dotdot' ups' cs' where
      b': "dot_dot rooted dotdot b = Some (b', dotdot')" "lb_ok b'" "lb_s b' = lb_s b"
        "lb_string b' = render rooted (ups' @ cs')" "comps_ok rooted dotdot' ups' cs'"
        "ups' @ cs' = norm_step rooted (ups @ cs) ''..''" by blast
    have "lb_w b' \<le> lb_w b + (if ups @ cs = [] then 2 else 3)"
      using norm_dot_dot_length [of rooted "ups @ cs"] lb_w_length [OF b'(2)] w b'(4,6) "2.prems"(2)
      by simp
    with cap r(2) b'(3) have "lb_w b' + length (tl rest)
        + (if tl rest = [] \<or> hd (tl rest) = CHR ''/'' \<or> ups' @ cs' = [] then 0 else 1) \<le> length (lb_s b')"
      by (auto simp: r(1))
    moreover have "foldl (norm_step rooted) (ups @ cs) (split_slash (c # rest)) =
        foldl (norm_step rooted) (ups' @ cs') (split_slash (tl rest))"
      using span_dot [OF r(2), of "''..''"] foldl_split_slash [of rooted "ups @ cs" "c # rest"] b'(6) r
      by simp
    ultimately show ?thesis
      using "2.IH"(2) [OF 2 b'(1) refl b'(2,4,5)] b'(1) 2 by simp
  next
    case 3
    let ?sep = "if rooted \<and> lb_w b \<noteq> 1 \<or> \<not> rooted \<and> lb_w b \<noteq> 0 then ''/'' else []"
    have t: "plain ?t" "?t \<noteq> ''.''" using span_plain [of c rest] 3 by blast+
    have sep: "?sep = (if ups @ cs = [] then [] else ''/'')"
      using render_separator [OF "2.prems"(3)] w unfolding "2.prems"(2) by simp
    have c: "c \<noteq> CHR ''/''" using 3 by blast
    have len: "length ?t + length ?d = Suc (length rest)"
      using arg_cong [OF takeWhile_dropWhile_id [of "\<lambda>x. x \<noteq> CHR ''/''" "c # rest"], of length] by simp
    have "lb_w b + length (?sep @ ?t) + length ?d \<le> length (lb_s b)"
      using "2.prems"(4) c len unfolding sep by (simp split: if_splits)
    moreover obtain b' where b': "lb_append_all (?sep @ ?t) b = Some b'" "lb_ok b'" "lb_s b' = lb_s b"
      "lb_string b' = lb_string b @ ?sep @ ?t"
      using lb_append_all_ok [OF "2.prems"(1), of "?sep @ ?t"] calculation by (meson add_leD1)
    moreover have "lb_w b' = lb_w b + length (?sep @ ?t)"
      using lb_w_length [OF b'(2)] w b'(4) by simp
    ultimately have cap: "lb_w b' + length ?d
        + (if ?d = [] \<or> hd ?d = CHR ''/'' \<or> ups @ cs @ [?t] = [] then 0 else 1) \<le> length (lb_s b')"
      using hd_dropWhile [of "\<lambda>x. x \<noteq> CHR ''/''" "c # rest"] by auto
    have str: "lb_string b' = render rooted (ups @ cs @ [?t])"
      using b'(4) "2.prems"(2) render_snoc [of rooted "ups @ cs" ?t] unfolding sep by simp
    have ok: "comps_ok rooted dotdot ups (cs @ [?t])"
      using "2.prems"(3) t(1) by (simp add: comps_ok_def)
    have "norm_step rooted (ups @ cs) ?t = ups @ cs @ [?t]"
      using t by (simp add: norm_step_def plain_def)
    then have "foldl (norm_step rooted) (ups @ cs) (split_slash (c # rest)) =
        foldl (norm_step rooted) (ups @ cs @ [?t]) (split_slash ?d)"
      using foldl_split_slash [of rooted "ups @ cs" "c # rest"] by simp
    with "2.IH"(3) [OF 3 b'(1,2) str ok cap] b'(1) 3 c show ?thesis
      by (simp only: clean_loop.simps if_False option.case)
  qed
qed

lemma clean_eq_ref: "clean path = Some (clean_ref path)"
proof (cases "path = []")
  case True
  then show ?thesis by (simp add: clean_def clean_ref_def render_def norm_step_def)
next
  case ne: False
  show ?thesis
  proof (cases "hd path = CHR ''/''")
    case True
    then obtain r where path: "path = CHR ''/'' # r" using ne by (cases path) auto
    obtain b where b: "lb_append (CHR ''/'') (LazyBuf_new path) = Some b" "lb_ok b" "lb_s b = path"
      "lb_string b = ''/''"
      using lb_append_ok [of "LazyBuf_new path" "CHR ''/''"] path by auto
    have "comps_ok True 1 [] []" "lb_string b = render True ([] @ [])" "lb_w b = 1"
      using b lb_w_length [OF b(2)] by (simp_all add: comps_ok_def render_def)
    with clean_loop_ok [OF b(2), of True "[]" "[]" 1 r] b(3) path obtain b' where
      "clean_loop True 1 b r = Some b'" "lb_ok b'"
      "lb_string b' = render True (foldl (norm_step True) [] (split_slash r))" by auto
    then show ?thesis
      using b(1) path lb_w_length [of b'] by (auto simp: clean_def clean_ref_def render_def norm_step_def)
  next
    case False
    have "comps_ok False 0 [] []" "lb_string (LazyBuf_new path) = render False ([] @ [])"
      by (simp_all add: comps_ok_def render_def)
    with clean_loop_ok [of "LazyBuf_new path" False "[]" "[]" 0 path] obtain b' where
      "clean_loop False 0 (LazyBuf_new path) path = Some b'" "lb_ok b'"
      "lb_string b' = render False (foldl (norm_step False) [] (split_slash path))" by auto
    then show ?thesis
      using ne False lb_w_length [of b'] by (auto simp: clean_def clean_ref_def Let_def)
  qed
qed

section \<open>The reference is idempotent\<close>

definition normal :: "bool \<Rightarrow> string list \<Rightarrow> bool" where
  "normal rooted cs \<longleftrightarrow> (\<exists>ups ns. cs = ups @ ns \<and> list_all (\<lambda>c. c = ''..'') ups
    \<and> list_all (\<lambda>c. plain c \<and> c \<noteq> ''.'') ns \<and> (rooted \<longrightarrow> ups = []))"

lemma normal_step:
  assumes "normal rooted cs" and "CHR ''/'' \<notin> set c"
  shows "normal rooted (norm_step rooted cs c)"
proof -
  obtain ups ns where cs: "cs = ups @ ns" "list_all (\<lambda>c. c = ''..'') ups"
    "list_all (\<lambda>c. plain c \<and> c \<noteq> ''.'') ns" "rooted \<longrightarrow> ups = []"
    using assms(1) by (auto simp: normal_def)
  consider "c = [] \<or> c = ''.''" | "c = ''..''" "ns = []" | "c = ''..''" "ns \<noteq> []"
    | "c \<noteq> []" "c \<noteq> ''.''" "c \<noteq> ''..''" by blast
  then show ?thesis
  proof cases
    case 1
    then show ?thesis using assms(1) by (auto simp: norm_step_def)
  next
    case 2
    have "cs \<noteq> [] \<Longrightarrow> last cs = ''..''" using cs 2 by (auto simp: list_all_iff)
    then have "norm_step rooted cs c = (if rooted then cs else (ups @ [''..'']) @ [])"
      using cs 2 by (auto simp: norm_step_def)
    moreover have "normal False ((ups @ [''..'']) @ [])"
      unfolding normal_def using cs(2) by (intro exI [of _ "ups @ [''..'']"] exI [of _ "[]"]) simp
    ultimately show ?thesis using assms(1) by (auto split: if_splits)
  next
    case 3
    then have "last ns \<in> set ns" by simp
    then have "last cs \<noteq> ''..''" using cs 3 by (auto simp: list_all_iff plain_def)
    then have "norm_step rooted cs c = ups @ butlast ns"
      using cs 3 by (simp add: norm_step_def butlast_append)
    moreover have "list_all (\<lambda>c. plain c \<and> c \<noteq> ''.'') (butlast ns)"
      using cs(3) by (auto simp: list_all_iff dest: in_set_butlastD)
    ultimately show ?thesis unfolding normal_def using cs(2,4) by blast
  next
    case 4
    then have "norm_step rooted cs c = ups @ (ns @ [c])" using cs by (simp add: norm_step_def)
    moreover have "list_all (\<lambda>c. plain c \<and> c \<noteq> ''.'') (ns @ [c])"
      using cs(3) 4 assms(2) by (simp add: plain_def)
    ultimately show ?thesis unfolding normal_def using cs(2,4) by blast
  qed
qed

lemma split_slash_parts: "c \<in> set (split_slash s) \<Longrightarrow> CHR ''/'' \<notin> set c"
proof (induction s arbitrary: c)
  case (Cons x s)
  have "hd (split_slash s) \<in> set (split_slash s)" by simp
  with Cons show ?case by (auto split: if_splits dest: list.set_sel(2) [OF split_slash_ne])
qed simp

lemma normal_foldl:
  assumes "normal rooted cs" and "\<forall>c \<in> set xs. CHR ''/'' \<notin> set c"
  shows "normal rooted (foldl (norm_step rooted) cs xs)"
  using assms by (induction xs arbitrary: cs) (simp_all add: normal_step)

lemma foldl_normal:
  assumes "normal rooted cs"
  shows "foldl (norm_step rooted) [] cs = cs"
proof -
  obtain ups ns where cs: "cs = ups @ ns" "list_all (\<lambda>c. c = ''..'') ups"
    "list_all (\<lambda>c. plain c \<and> c \<noteq> ''.'') ns" "rooted \<longrightarrow> ups = []"
    using assms by (auto simp: normal_def)
  have "foldl (norm_step rooted) [] ups = ups"
    using cs(2,4)
  proof (induction ups rule: rev_induct)
    case (snoc u us)
    then have "us \<noteq> [] \<Longrightarrow> last us = ''..''" by (auto simp: list_all_iff)
    then have "norm_step rooted us u = us @ [u]"
      using snoc.prems by (auto simp: norm_step_def)
    with snoc show ?case by simp
  qed simp
  moreover have "foldl (norm_step rooted) us ns = us @ ns" for us
    using cs(3) by (induction ns arbitrary: us) (auto simp: norm_step_def plain_def)
  ultimately show ?thesis using cs(1) by simp
qed

lemma split_slash_append:
  assumes "CHR ''/'' \<notin> set c"
  shows "split_slash (c @ CHR ''/'' # s) = c # split_slash s" and "split_slash c = [c]"
  using assms by (induction c) auto

lemma split_join:
  assumes "cs \<noteq> []" and "\<forall>c \<in> set cs. CHR ''/'' \<notin> set c"
  shows "split_slash (join_slash cs) = cs"
  using assms by (induction cs rule: join_slash.induct) (simp_all add: split_slash_append)

lemma normal_no_slash:
  assumes "normal rooted cs" and "c \<in> set cs"
  shows "CHR ''/'' \<notin> set c \<and> c \<noteq> []"
proof -
  obtain ups ns where cs: "cs = ups @ ns" "\<forall>c \<in> set ups. c = ''..''" "\<forall>c \<in> set ns. plain c"
    using assms(1) unfolding normal_def list_all_iff by blast
  show ?thesis
  proof (cases "c \<in> set ups")
    case True
    then have "c = ''..''" using cs(2) by blast
    then show ?thesis by simp
  next
    case False
    then have "plain c" using cs(1,3) assms(2) by auto
    then show ?thesis by (simp add: plain_def)
  qed
qed

lemma join_hd:
  assumes "normal rooted cs" and "cs \<noteq> []"
  shows "join_slash cs \<noteq> []" and "hd (join_slash cs) \<noteq> CHR ''/''"
proof -
  obtain c ds where cs: "cs = c # ds" using assms(2) by (cases cs) auto
  then have "c \<noteq> []" "CHR ''/'' \<notin> set c" using normal_no_slash [OF assms(1), of c] by auto
  then have "hd c \<noteq> CHR ''/''" using hd_in_set [of c] by metis
  then show "join_slash cs \<noteq> []" and "hd (join_slash cs) \<noteq> CHR ''/''"
    using cs \<open>c \<noteq> []\<close> by (cases ds, simp_all)+
qed

lemma clean_ref_render:
  assumes "normal rooted cs"
  shows "clean_ref (render rooted cs) = (if render rooted cs = [] then ''.'' else render rooted cs)"
proof (cases "cs = []")
  case True
  then show ?thesis by (simp add: clean_ref_def render_def norm_step_def)
next
  case False
  have "split_slash (join_slash cs) = cs"
    using split_join [OF False] normal_no_slash [OF assms] by blast
  then show ?thesis
    using join_hd [OF assms False] foldl_normal [OF assms]
    by (cases rooted) (simp_all add: clean_ref_def render_def norm_step_def [of True "[]" "[]"] Let_def)
qed

text \<open>
  C22: \<open>clean\<close> never indexes out of range, returns the component-wise normal form of every path,
  and leaves a normal form unchanged.
\<close>

theorem clean_normalises:
  "clean path = Some (clean_ref path) \<and> clean (clean_ref path) = Some (clean_ref path)"
proof -
  let ?r = "path \<noteq> [] \<and> hd path = CHR ''/''"
  let ?cs = "foldl (norm_step ?r) [] (split_slash path)"
  have "normal ?r []" by (simp add: normal_def)
  then have "normal ?r ?cs" by (rule normal_foldl) (simp add: split_slash_parts)
  then have "clean_ref (render ?r ?cs) = (if render ?r ?cs = [] then ''.'' else render ?r ?cs)"
    by (rule clean_ref_render)
  moreover have "clean_ref path = (if render ?r ?cs = [] then ''.'' else render ?r ?cs)"
    by (simp add: clean_ref_def Let_def)
  moreover have "clean_ref ''.'' = ''.''"
    by (simp add: clean_ref_def norm_step_def render_def)
  ultimately have "clean_ref (clean_ref path) = clean_ref path" by simp
  then show ?thesis by (simp add: clean_eq_ref)
qed

end
