(* ===== verification/Wildcard.thy ===== *)
theory Wildcard
  imports Prelude
begin

text \<open>
  Wildcard matching of the policy crate (\<open>crates/policy/src/policy/utils/wildcard.rs\<close>): the
  backtracking matcher, its entry points and the prefix test. Strings are lists of bytes, as
  the code reads them with \<open>as_bytes\<close>. The reference is the set of names a pattern denotes.
\<close>

section \<open>The matcher\<close>

text \<open>\<open>fn deep_match\<close>: the loop consumes one pattern byte per turn and restarts itself at a star.\<close>

function deep_match :: "string \<Rightarrow> string \<Rightarrow> bool \<Rightarrow> bool" where
  "deep_match [] name simple \<longleftrightarrow> name = []"
| "deep_match (p # pattern) name simple \<longleftrightarrow>
    (if p = CHR ''?'' then
       (case name of
          [] \<Rightarrow> simple
        | _ # name' \<Rightarrow> deep_match pattern name' simple)
     else if p = CHR ''*'' then
       pattern = []
       \<or> deep_match pattern name simple
       \<or> (case name of
            [] \<Rightarrow> False
          | _ # name' \<Rightarrow> deep_match (p # pattern) name' simple)
     else
       (case name of
          [] \<Rightarrow> False
        | c # name' \<Rightarrow> c = p \<and> deep_match pattern name' simple))"
  by pat_completeness auto
termination
  by (relation "measure (\<lambda>(pattern, name, _). length pattern + length name)") auto

declare deep_match.simps(2) [simp del]

lemma deep_match_question [simp]:
  "deep_match (CHR ''?'' # pattern) [] simple \<longleftrightarrow> simple"
  "deep_match (CHR ''?'' # pattern) (c # name) simple \<longleftrightarrow> deep_match pattern name simple"
  by (simp_all add: deep_match.simps(2))

lemma deep_match_star [simp]:
  "deep_match (CHR ''*'' # pattern) [] simple \<longleftrightarrow> pattern = [] \<or> deep_match pattern [] simple"
  "deep_match (CHR ''*'' # pattern) (c # name) simple \<longleftrightarrow>
    pattern = [] \<or> deep_match pattern (c # name) simple \<or> deep_match (CHR ''*'' # pattern) name simple"
  by (subst deep_match.simps(2), simp)+

lemma deep_match_byte [simp]:
  assumes "p \<noteq> CHR ''?''" and "p \<noteq> CHR ''*''"
  shows "deep_match (p # pattern) [] simple \<longleftrightarrow> False"
    and "deep_match (p # pattern) (c # name) simple \<longleftrightarrow> c = p \<and> deep_match pattern name simple"
  using assms by (simp_all add: deep_match.simps(2))

definition inner_match :: "string \<Rightarrow> string \<Rightarrow> bool \<Rightarrow> bool" where
  "inner_match pattern name simple =
    (if pattern = [] then pattern = name
     else if pattern = ''*'' then True
     else deep_match pattern name simple)"

definition is_match :: "string \<Rightarrow> string \<Rightarrow> bool" where
  "is_match pattern name = inner_match pattern name False"

definition is_simple_match :: "string \<Rightarrow> string \<Rightarrow> bool" where
  "is_simple_match pattern name = inner_match pattern name True"

text \<open>
  The loop of \<open>is_match_as_pattern_prefix\<close>: \<open>Some\<close> is a return from inside the loop,
  \<open>None\<close> falls through to the comparison of the lengths.
\<close>

fun prefix_loop :: "string \<Rightarrow> string \<Rightarrow> bool option" where
  "prefix_loop (x # p) (y # t) =
    (if x = CHR ''*'' then Some True
     else if x = CHR ''?'' then prefix_loop p t
     else if x \<noteq> y then Some False
     else prefix_loop p t)"
| "prefix_loop _ _ = None"

definition is_match_as_pattern_prefix :: "string \<Rightarrow> string \<Rightarrow> bool" where
  "is_match_as_pattern_prefix pattern text =
    (case prefix_loop pattern text of
       Some r \<Rightarrow> r
     | None \<Rightarrow> length text \<le> length pattern)"

section \<open>What a pattern denotes\<close>

text \<open>
  A question mark stands for one byte, a star for any bytes, every other byte for itself.
\<close>

fun glob :: "string \<Rightarrow> string set" where
  "glob [] = {[]}"
| "glob (p # ps) =
    (if p = CHR ''?'' then {c # s | c s. s \<in> glob ps}
     else if p = CHR ''*'' then {t @ s | t s. s \<in> glob ps}
     else {p # s | s. s \<in> glob ps})"

lemma glob_star_any: "s \<in> glob ''*''"
  by simp

lemma glob_star_nil: "[] \<in> glob (CHR ''*'' # ps) \<longleftrightarrow> [] \<in> glob ps"
  by auto

lemma glob_star_cons:
  "c # name \<in> glob (CHR ''*'' # ps) \<longleftrightarrow> c # name \<in> glob ps \<or> name \<in> glob (CHR ''*'' # ps)"
proof -
  have "(\<exists>t s. c # name = t @ s \<and> s \<in> glob ps) \<longleftrightarrow>
      c # name \<in> glob ps \<or> (\<exists>t s. name = t @ s \<and> s \<in> glob ps)"
    by (auto simp: Cons_eq_append_conv)
  then show ?thesis by auto
qed

lemma deep_match_glob: "deep_match pattern name False \<longleftrightarrow> name \<in> glob pattern"
proof (induction "length pattern + length name" arbitrary: pattern name rule: less_induct)
  case less
  show ?case
  proof (cases pattern)
    case (Cons p ps)
    consider "p = CHR ''?''" | "p = CHR ''*''" | "p \<noteq> CHR ''?''" "p \<noteq> CHR ''*''" by blast
    then show ?thesis
    proof cases
      case 2
      show ?thesis
      proof (cases name)
        case Nil
        then show ?thesis using less [of ps "[]"] by (auto simp: Cons 2)
      next
        case (Cons c name')
        then show ?thesis
          using less [of ps name] less [of pattern name'] 2 \<open>pattern = p # ps\<close>
          by (auto simp: glob_star_cons simp del: glob.simps(2) intro: glob_star_any)
      qed
    qed (use less Cons in \<open>(cases name; simp)+\<close>)
  qed simp
qed

lemma glob_literal:
  assumes "CHR ''*'' \<notin> set s" and "CHR ''?'' \<notin> set s"
  shows "glob s = {s}"
  using assms by (induction s) auto

lemma glob_append:
  "glob (p @ q) = {s @ t | s t. s \<in> glob p \<and> t \<in> glob q}"
proof (induction p)
  case (Cons a p)
  consider "a = CHR ''?''" | "a = CHR ''*''" | "a \<noteq> CHR ''?''" "a \<noteq> CHR ''*''" by blast
  then show ?case
  proof cases
    case 1
    then show ?thesis
      by (auto simp: Cons) (metis append_Cons, blast)
  next
    case 2
    then show ?thesis
      by (auto simp: Cons) (metis append.assoc)+
  next
    case 3
    then show ?thesis
      by (auto simp: Cons) (metis append_Cons, blast)
  qed
qed simp

lemma is_match_glob: "is_match pattern name \<longleftrightarrow> name \<in> glob pattern"
proof -
  have "name \<in> glob ''*''" by (rule glob_star_any)
  then show ?thesis
    by (auto simp: is_match_def inner_match_def deep_match_glob simp del: glob.simps(2))
qed

lemma is_match_literal:
  assumes "CHR ''*'' \<notin> set s" and "CHR ''?'' \<notin> set s"
  shows "is_match s name \<longleftrightarrow> name = s"
  using glob_literal [OF assms] by (simp add: is_match_glob)

lemma is_match_star_suffix:
  assumes "CHR ''*'' \<notin> set s" and "CHR ''?'' \<notin> set s"
  shows "is_match (s @ ''*'') name \<longleftrightarrow> (\<exists>t. name = s @ t)"
  using glob_literal [OF assms] by (auto simp: is_match_glob glob_append)

section \<open>Simple matching and the prefix test\<close>

text \<open>
  In simple mode a question mark that meets the end of the name accepts, whatever the rest of
  the pattern says.
\<close>

definition cut_match :: "string \<Rightarrow> string \<Rightarrow> bool" where
  "cut_match pattern name \<longleftrightarrow> (\<exists>p q. pattern = p @ CHR ''?'' # q \<and> name \<in> glob p)"

lemma cut_match_Nil: "\<not> cut_match [] name"
  by (simp add: cut_match_def)

lemma cut_match_Cons:
  "cut_match (a # pattern) name \<longleftrightarrow>
    (a = CHR ''?'' \<and> name = []) \<or> (\<exists>p q. pattern = p @ CHR ''?'' # q \<and> name \<in> glob (a # p))"
proof -
  have "a # pattern = p @ CHR ''?'' # q \<longleftrightarrow>
      p = [] \<and> a = CHR ''?'' \<and> pattern = q \<or> (\<exists>p'. p = a # p' \<and> pattern = p' @ CHR ''?'' # q)" for p q
    by (auto simp: Cons_eq_append_conv)
  then have "cut_match (a # pattern) name \<longleftrightarrow>
      (\<exists>p q. p = [] \<and> a = CHR ''?'' \<and> pattern = q \<and> name \<in> glob p)
      \<or> (\<exists>p q p'. p = a # p' \<and> pattern = p' @ CHR ''?'' # q \<and> name \<in> glob p)"
    unfolding cut_match_def by (simp only:) blast
  then show ?thesis by (simp del: glob.simps(2)) blast
qed

lemma cut_match_star:
  "cut_match (CHR ''*'' # pattern) [] \<longleftrightarrow> cut_match pattern []"
  "cut_match (CHR ''*'' # pattern) (c # name) \<longleftrightarrow>
    cut_match pattern (c # name) \<or> cut_match (CHR ''*'' # pattern) name"
  unfolding cut_match_Cons
  by (auto simp: glob_star_cons glob_star_nil cut_match_def simp del: glob.simps(2))

lemma cut_match_question:
  "cut_match (CHR ''?'' # pattern) []"
  "cut_match (CHR ''?'' # pattern) (c # name) \<longleftrightarrow> cut_match pattern name"
  unfolding cut_match_Cons by (auto simp: cut_match_def)

lemma cut_match_byte:
  assumes "a \<noteq> CHR ''?''" and "a \<noteq> CHR ''*''"
  shows "\<not> cut_match (a # pattern) []"
    and "cut_match (a # pattern) (c # name) \<longleftrightarrow> c = a \<and> cut_match pattern name"
  unfolding cut_match_Cons using assms by (auto simp: cut_match_def)

lemma deep_match_simple:
  "deep_match pattern name True \<longleftrightarrow> name \<in> glob pattern \<or> cut_match pattern name"
proof (induction "length pattern + length name" arbitrary: pattern name rule: less_induct)
  case less
  show ?case
  proof (cases pattern)
    case (Cons p ps)
    consider "p = CHR ''?''" | "p = CHR ''*''" | "p \<noteq> CHR ''?''" "p \<noteq> CHR ''*''" by blast
    then show ?thesis
    proof cases
      case 2
      show ?thesis
      proof (cases name)
        case Nil
        then show ?thesis
          using less [of ps "[]"]
          by (auto simp: Cons 2 cut_match_star cut_match_Nil glob_star_nil simp del: glob.simps(2))
      next
        case (Cons c name')
        then show ?thesis
          using less [of ps name] less [of pattern name'] 2 \<open>pattern = p # ps\<close>
          by (auto simp: glob_star_cons cut_match_star simp del: glob.simps(2) intro: glob_star_any)
      qed
    next
      case 1
      then show ?thesis
        using less [of ps "tl name"] by (cases name) (simp_all add: Cons cut_match_question)
    next
      case 3
      then show ?thesis
        using less [of ps "tl name"] by (cases name) (auto simp: Cons cut_match_byte)
    qed
  qed (simp add: cut_match_Nil)
qed

text \<open>
  C21: \<open>is_match\<close> accepts exactly the names the pattern denotes. \<open>is_simple_match\<close> accepts in
  addition every name that some initial part of the pattern ending before a question mark
  denotes, whatever follows that question mark.
\<close>

theorem match_denotes:
  "(is_match pattern name \<longleftrightarrow> name \<in> glob pattern)
   \<and> (is_simple_match pattern name \<longleftrightarrow>
        name \<in> glob pattern \<or> (\<exists>p q. pattern = p @ CHR ''?'' # q \<and> name \<in> glob p))"
proof -
  have "is_simple_match pattern name \<longleftrightarrow> name \<in> glob pattern \<or> cut_match pattern name"
    using glob_star_any [of name]
    by (auto simp: is_simple_match_def inner_match_def deep_match_simple cut_match_Nil
        simp del: glob.simps(2))
  then show ?thesis by (simp add: is_match_glob cut_match_def)
qed

text \<open>
  A pattern that some name extending \<open>text\<close> could match passes the prefix test.
\<close>

lemma prefix_loop_sound:
  assumes "txt0 @ rest \<in> glob pattern"
  shows "prefix_loop pattern txt0 = Some True
    \<or> prefix_loop pattern txt0 = None \<and> (length txt0 \<le> length pattern)"
  using assms
proof (induction pattern txt0 rule: prefix_loop.induct)
  case (1 x p y t)
  consider "x = CHR ''?''" | "x = CHR ''*''" | "x \<noteq> CHR ''?''" "x \<noteq> CHR ''*''" by blast
  then show ?case
  proof cases
    case 1
    then show ?thesis using "1.IH"(1) "1.prems" by simp
  next
    case 2
    then show ?thesis by simp
  next
    case 3
    then show ?thesis using "1.IH"(2) "1.prems" by simp
  qed
qed simp_all

lemma prefix_test_complete:
  assumes "txt0 @ rest \<in> glob pattern"
  shows "is_match_as_pattern_prefix pattern txt0"
  using prefix_loop_sound [OF assms] by (auto simp: is_match_as_pattern_prefix_def)

end
