(* ===== verification/S3Actions.thy ===== *)
theory S3Actions
  imports Prelude
begin

text \<open>
  The object store actions of the policy crate (\<open>enum S3Action\<close> of
  \<open>crates/policy/src/policy/action.rs\<close>) with their textual form and their parser. The
  derived parser of the source takes the variant whose text is the given one.
\<close>

datatype (plugins only:) S3Action =
    AllActions | AbortMultipartUploadAction | CreateBucketAction | DeleteBucketAction
    | ForceDeleteBucketAction | DeleteBucketPolicyAction | DeleteBucketPublicAccessBlockAction
    | DeleteBucketCorsAction | DeleteObjectAction | GetBucketLocationAction
    | GetBucketNotificationAction | GetBucketPolicyAction | GetBucketPublicAccessBlockAction
    | GetBucketCorsAction | GetBucketAclAction | PutBucketAclAction | GetObjectAction
    | GetObjectAclAction | GetObjectAttributesAction | HeadBucketAction | ListAllMyBucketsAction
    | ListBucketAction | GetBucketPolicyStatusAction | ListBucketVersionsAction
    | ListBucketMultipartUploadsAction | ListenNotificationAction | ListenBucketNotificationAction
    | ListMultipartUploadPartsAction | PutBucketLifecycleAction | GetBucketLifecycleAction
    | PutBucketNotificationAction | PutBucketPolicyAction | PutBucketPublicAccessBlockAction
    | PutBucketCorsAction | PutObjectAction | PutObjectAclAction | DeleteObjectVersionAction
    | DeleteObjectVersionTaggingAction | GetObjectVersionAction | GetObjectVersionAttributesAction
    | GetObjectVersionTaggingAction | PutObjectVersionTaggingAction
    | BypassGovernanceRetentionAction | PutObjectRetentionAction | GetObjectRetentionAction
    | GetObjectLegalHoldAction | PutObjectLegalHoldAction | GetBucketObjectLockConfigurationAction
    | PutBucketObjectLockConfigurationAction | GetBucketTaggingAction | PutBucketTaggingAction
    | GetObjectTaggingAction | PutObjectTaggingAction | DeleteObjectTaggingAction
    | PutBucketEncryptionAction | GetBucketEncryptionAction | PutBucketVersioningAction
    | GetBucketVersioningAction | GetReplicationConfigurationAction
    | PutReplicationConfigurationAction | ReplicateObjectAction | ReplicateDeleteAction
    | ReplicateTagsAction | GetObjectVersionForReplicationAction | RestoreObjectAction
    | ResetBucketReplicationStateAction | PutObjectFanOutAction | GetBucketQuotaAction

primrec S3Action_str :: "S3Action \<Rightarrow> string" where
  "S3Action_str AllActions = ''s3:*''"
| "S3Action_str AbortMultipartUploadAction = ''s3:AbortMultipartUpload''"
| "S3Action_str CreateBucketAction = ''s3:CreateBucket''"
| "S3Action_str DeleteBucketAction = ''s3:DeleteBucket''"
| "S3Action_str ForceDeleteBucketAction = ''s3:ForceDeleteBucket''"
| "S3Action_str DeleteBucketPolicyAction = ''s3:DeleteBucketPolicy''"
| "S3Action_str DeleteBucketPublicAccessBlockAction = ''s3:DeleteBucketPublicAccessBlock''"
| "S3Action_str DeleteBucketCorsAction = ''s3:DeleteBucketCors''"
| "S3Action_str DeleteObjectAction = ''s3:DeleteObject''"
| "S3Action_str GetBucketLocationAction = ''s3:GetBucketLocation''"
| "S3Action_str GetBucketNotificationAction = ''s3:GetBucketNotification''"
| "S3Action_str GetBucketPolicyAction = ''s3:GetBucketPolicy''"
| "S3Action_str GetBucketPublicAccessBlockAction = ''s3:GetBucketPublicAccessBlock''"
| "S3Action_str GetBucketCorsAction = ''s3:GetBucketCors''"
| "S3Action_str GetBucketAclAction = ''s3:GetBucketAcl''"
| "S3Action_str PutBucketAclAction = ''s3:PutBucketAcl''"
| "S3Action_str GetObjectAction = ''s3:GetObject''"
| "S3Action_str GetObjectAclAction = ''s3:GetObjectAcl''"
| "S3Action_str GetObjectAttributesAction = ''s3:GetObjectAttributes''"
| "S3Action_str HeadBucketAction = ''s3:HeadBucket''"
| "S3Action_str ListAllMyBucketsAction = ''s3:ListAllMyBuckets''"
| "S3Action_str ListBucketAction = ''s3:ListBucket''"
| "S3Action_str GetBucketPolicyStatusAction = ''s3:GetBucketPolicyStatus''"
| "S3Action_str ListBucketVersionsAction = ''s3:ListBucketVersions''"
| "S3Action_str ListBucketMultipartUploadsAction = ''s3:ListBucketMultipartUploads''"
| "S3Action_str ListenNotificationAction = ''s3:ListenNotification''"
| "S3Action_str ListenBucketNotificationAction = ''s3:ListenBucketNotification''"
| "S3Action_str ListMultipartUploadPartsAction = ''s3:ListMultipartUploadParts''"
| "S3Action_str PutBucketLifecycleAction = ''s3:PutBucketLifecycle''"
| "S3Action_str GetBucketLifecycleAction = ''s3:GetBucketLifecycle''"
| "S3Action_str PutBucketNotificationAction = ''s3:PutBucketNotification''"
| "S3Action_str PutBucketPolicyAction = ''s3:PutBucketPolicy''"
| "S3Action_str PutBucketPublicAccessBlockAction = ''s3:PutBucketPublicAccessBlock''"
| "S3Action_str PutBucketCorsAction = ''s3:PutBucketCors''"
| "S3Action_str PutObjectAction = ''s3:PutObject''"
| "S3Action_str PutObjectAclAction = ''s3:PutObjectAcl''"
| "S3Action_str DeleteObjectVersionAction = ''s3:DeleteObjectVersion''"
| "S3Action_str DeleteObjectVersionTaggingAction = ''s3:DeleteObjectVersionTagging''"
| "S3Action_str GetObjectVersionAction = ''s3:GetObjectVersion''"
| "S3Action_str GetObjectVersionAttributesAction = ''s3:GetObjectVersionAttributes''"
| "S3Action_str GetObjectVersionTaggingAction = ''s3:GetObjectVersionTagging''"
| "S3Action_str PutObjectVersionTaggingAction = ''s3:PutObjectVersionTagging''"
| "S3Action_str BypassGovernanceRetentionAction = ''s3:BypassGovernanceRetention''"
| "S3Action_str PutObjectRetentionAction = ''s3:PutObjectRetention''"
| "S3Action_str GetObjectRetentionAction = ''s3:GetObjectRetention''"
| "S3Action_str GetObjectLegalHoldAction = ''s3:GetObjectLegalHold''"
| "S3Action_str PutObjectLegalHoldAction = ''s3:PutObjectLegalHold''"
| "S3Action_str GetBucketObjectLockConfigurationAction = ''s3:GetBucketObjectLockConfiguration''"
| "S3Action_str PutBucketObjectLockConfigurationAction = ''s3:PutBucketObjectLockConfiguration''"
| "S3Action_str GetBucketTaggingAction = ''s3:GetBucketTagging''"
| "S3Action_str PutBucketTaggingAction = ''s3:PutBucketTagging''"
| "S3Action_str GetObjectTaggingAction = ''s3:GetObjectTagging''"
| "S3Action_str PutObjectTaggingAction = ''s3:PutObjectTagging''"
| "S3Action_str DeleteObjectTaggingAction = ''s3:DeleteObjectTagging''"
| "S3Action_str PutBucketEncryptionAction = ''s3:PutBucketEncryption''"
| "S3Action_str GetBucketEncryptionAction = ''s3:GetBucketEncryption''"
| "S3Action_str PutBucketVersioningAction = ''s3:PutBucketVersioning''"
| "S3Action_str GetBucketVersioningAction = ''s3:GetBucketVersioning''"
| "S3Action_str GetReplicationConfigurationAction = ''s3:GetReplicationConfiguration''"
| "S3Action_str PutReplicationConfigurationAction = ''s3:PutReplicationConfiguration''"
| "S3Action_str ReplicateObjectAction = ''s3:ReplicateObject''"
| "S3Action_str ReplicateDeleteAction = ''s3:ReplicateDelete''"
| "S3Action_str ReplicateTagsAction = ''s3:ReplicateTags''"
| "S3Action_str GetObjectVersionForReplicationAction = ''s3:GetObjectVersionForReplication''"
| "S3Action_str RestoreObjectAction = ''s3:RestoreObject''"
| "S3Action_str ResetBucketReplicationStateAction = ''s3:ResetBucketReplicationState''"
| "S3Action_str PutObjectFanOutAction = ''s3:PutObjectFanOut''"
| "S3Action_str GetBucketQuotaAction = ''s3:GetBucketQuota''"

definition S3Action_all :: "S3Action list" where
  "S3Action_all =
    [AllActions, AbortMultipartUploadAction, CreateBucketAction, DeleteBucketAction
     , ForceDeleteBucketAction, DeleteBucketPolicyAction, DeleteBucketPublicAccessBlockAction
     , DeleteBucketCorsAction, DeleteObjectAction, GetBucketLocationAction
     , GetBucketNotificationAction, GetBucketPolicyAction, GetBucketPublicAccessBlockAction
     , GetBucketCorsAction, GetBucketAclAction, PutBucketAclAction, GetObjectAction
     , GetObjectAclAction, GetObjectAttributesAction, HeadBucketAction, ListAllMyBucketsAction
     , ListBucketAction, GetBucketPolicyStatusAction, ListBucketVersionsAction
     , ListBucketMultipartUploadsAction, ListenNotificationAction, ListenBucketNotificationAction
     , ListMultipartUploadPartsAction, PutBucketLifecycleAction, GetBucketLifecycleAction
     , PutBucketNotificationAction, PutBucketPolicyAction, PutBucketPublicAccessBlockAction
     , PutBucketCorsAction, PutObjectAction, PutObjectAclAction, DeleteObjectVersionAction
     , DeleteObjectVersionTaggingAction, GetObjectVersionAction, GetObjectVersionAttributesAction
     , GetObjectVersionTaggingAction, PutObjectVersionTaggingAction, BypassGovernanceRetentionAction
     , PutObjectRetentionAction, GetObjectRetentionAction, GetObjectLegalHoldAction
     , PutObjectLegalHoldAction, GetBucketObjectLockConfigurationAction
     , PutBucketObjectLockConfigurationAction, GetBucketTaggingAction, PutBucketTaggingAction
     , GetObjectTaggingAction, PutObjectTaggingAction, DeleteObjectTaggingAction
     , PutBucketEncryptionAction, GetBucketEncryptionAction, PutBucketVersioningAction
     , GetBucketVersioningAction, GetReplicationConfigurationAction
     , PutReplicationConfigurationAction, ReplicateObjectAction, ReplicateDeleteAction
     , ReplicateTagsAction, GetObjectVersionForReplicationAction, RestoreObjectAction
     , ResetBucketReplicationStateAction, PutObjectFanOutAction, GetBucketQuotaAction]"

definition S3Action_try_from :: "string \<Rightarrow> S3Action option" where
  "S3Action_try_from value = find (\<lambda>a. S3Action_str a = value) S3Action_all"

lemma S3Action_roundtrip: "S3Action_try_from (S3Action_str a) = Some a"
proof -
  have "distinct (map S3Action_str S3Action_all)"
    unfolding S3Action_all_def list.map S3Action_str.simps by code_simp
  moreover have "a \<in> set S3Action_all" by (cases a) (simp_all add: S3Action_all_def)
  ultimately show ?thesis unfolding S3Action_try_from_def by (rule find_roundtrip)
qed

end
