(* ===== verification/AdminActions.thy ===== *)
theory AdminActions
  imports Prelude
begin

text \<open>
  The administration actions of the policy crate (\<open>enum AdminAction\<close> of
  \<open>crates/policy/src/policy/action.rs\<close>) with their textual form and their parser. The
  derived parser of the source takes the variant whose text is the given one.
\<close>

datatype (plugins only:) AdminAction =
    HealAdminAction | DecommissionAdminAction | RebalanceAdminAction | StorageInfoAdminAction
    | PrometheusAdminAction | DataUsageInfoAdminAction | ForceUnlockAdminAction
    | TopLocksAdminAction | ProfilingAdminAction | TraceAdminAction | ConsoleLogAdminAction
    | KMSCreateKeyAdminAction | KMSKeyStatusAdminAction | ServerInfoAdminAction
    | HealthInfoAdminAction | LicenseInfoAdminAction | BandwidthMonitorAction | InspectDataAction
    | ServerUpdateAdminAction | ServiceRestartAdminAction | ServiceStopAdminAction
    | ServiceFreezeAdminAction | ConfigUpdateAdminAction | CreateUserAdminAction
    | DeleteUserAdminAction | ListUsersAdminAction | EnableUserAdminAction | DisableUserAdminAction
    | GetUserAdminAction | SiteReplicationAddAction | SiteReplicationDisableAction
    | SiteReplicationRemoveAction | SiteReplicationResyncAction | SiteReplicationInfoAction
    | SiteReplicationOperationAction | CreateServiceAccountAdminAction
    | UpdateServiceAccountAdminAction | RemoveServiceAccountAdminAction
    | ListServiceAccountsAdminAction | ListTemporaryAccountsAdminAction | AddUserToGroupAdminAction
    | RemoveUserFromGroupAdminAction | GetGroupAdminAction | ListGroupsAdminAction
    | EnableGroupAdminAction | DisableGroupAdminAction | CreatePolicyAdminAction
    | DeletePolicyAdminAction | GetPolicyAdminAction | AttachPolicyAdminAction
    | UpdatePolicyAssociationAction | ListUserPoliciesAdminAction | SetBucketQuotaAdminAction
    | SetBucketTargetAction | GetBucketTargetAction | ReplicationDiff | ImportBucketMetadataAction
    | ExportBucketMetadataAction | SetTierAction | ListTierAction | ExportIAMAction
    | ImportIAMAction | ListBatchJobsAction | DescribeBatchJobAction | StartBatchJobAction
    | CancelBatchJobAction | AllAdminActions

primrec AdminAction_str :: "AdminAction \<Rightarrow> string" where
  "AdminAction_str HealAdminAction = ''admin:Heal''"
| "AdminAction_str DecommissionAdminAction = ''admin:Decommission''"
| "AdminAction_str RebalanceAdminAction = ''admin:Rebalance''"
| "AdminAction_str StorageInfoAdminAction = ''admin:StorageInfo''"
| "AdminAction_str PrometheusAdminAction = ''admin:Prometheus''"
| "AdminAction_str DataUsageInfoAdminAction = ''admin:DataUsageInfo''"
| "AdminAction_str ForceUnlockAdminAction = ''admin:ForceUnlock''"
| "AdminAction_str TopLocksAdminAction = ''admin:TopLocksInfo''"
| "AdminAction_str ProfilingAdminAction = ''admin:Profiling''"
| "AdminAction_str TraceAdminAction = ''admin:ServerTrace''"
| "AdminAction_str ConsoleLogAdminAction = ''admin:ConsoleLog''"
| "AdminAction_str KMSCreateKeyAdminAction = ''admin:KMSCreateKey''"
| "AdminAction_str KMSKeyStatusAdminAction = ''admin:KMSKeyStatus''"
| "AdminAction_str ServerInfoAdminAction = ''admin:ServerInfo''"
| "AdminAction_str HealthInfoAdminAction = ''admin:OBDInfo''"
| "AdminAction_str LicenseInfoAdminAction = ''admin:LicenseInfo''"
| "AdminAction_str BandwidthMonitorAction = ''admin:BandwidthMonitor''"
| "AdminAction_str InspectDataAction = ''admin:InspectData''"
| "AdminAction_str ServerUpdateAdminAction = ''admin:ServerUpdate''"
| "AdminAction_str ServiceRestartAdminAction = ''admin:ServiceRestart''"
| "AdminAction_str ServiceStopAdminAction = ''admin:ServiceStop''"
| "AdminAction_str ServiceFreezeAdminAction = ''admin:ServiceFreeze''"
| "AdminAction_str ConfigUpdateAdminAction = ''admin:ConfigUpdate''"
| "AdminAction_str CreateUserAdminAction = ''admin:CreateUser''"
| "AdminAction_str DeleteUserAdminAction = ''admin:DeleteUser''"
| "AdminAction_str ListUsersAdminAction = ''admin:ListUsers''"
| "AdminAction_str EnableUserAdminAction = ''admin:EnableUser''"
| "AdminAction_str DisableUserAdminAction = ''admin:DisableUser''"
| "AdminAction_str GetUserAdminAction = ''admin:GetUser''"
| "AdminAction_str SiteReplicationAddAction = ''admin:SiteReplicationAdd''"
| "AdminAction_str SiteReplicationDisableAction = ''admin:SiteReplicationDisable''"
| "AdminAction_str SiteReplicationRemoveAction = ''admin:SiteReplicationRemove''"
| "AdminAction_str SiteReplicationResyncAction = ''admin:SiteReplicationResync''"
| "AdminAction_str SiteReplicationInfoAction = ''admin:SiteReplicationInfo''"
| "AdminAction_str SiteReplicationOperationAction = ''admin:SiteReplicationOperation''"
| "AdminAction_str CreateServiceAccountAdminAction = ''admin:CreateServiceAccount''"
| "AdminAction_str UpdateServiceAccountAdminAction = ''admin:UpdateServiceAccount''"
| "AdminAction_str RemoveServiceAccountAdminAction = ''admin:RemoveServiceAccount''"
| "AdminAction_str ListServiceAccountsAdminAction = ''admin:ListServiceAccounts''"
| "AdminAction_str ListTemporaryAccountsAdminAction = ''admin:ListTemporaryAccounts''"
| "AdminAction_str AddUserToGroupAdminAction = ''admin:AddUserToGroup''"
| "AdminAction_str RemoveUserFromGroupAdminAction = ''admin:RemoveUserFromGroup''"
| "AdminAction_str GetGroupAdminAction = ''admin:GetGroup''"
| "AdminAction_str ListGroupsAdminAction = ''admin:ListGroups''"
| "AdminAction_str EnableGroupAdminAction = ''admin:EnableGroup''"
| "AdminAction_str DisableGroupAdminAction = ''admin:DisableGroup''"
| "AdminAction_str CreatePolicyAdminAction = ''admin:CreatePolicy''"
| "AdminAction_str DeletePolicyAdminAction = ''admin:DeletePolicy''"
| "AdminAction_str GetPolicyAdminAction = ''admin:GetPolicy''"
| "AdminAction_str AttachPolicyAdminAction = ''admin:AttachUserOrGroupPolicy''"
| "AdminAction_str UpdatePolicyAssociationAction = ''admin:UpdatePolicyAssociation''"
| "AdminAction_str ListUserPoliciesAdminAction = ''admin:ListUserPolicies''"
| "AdminAction_str SetBucketQuotaAdminAction = ''admin:SetBucketQuota''"
| "AdminAction_str SetBucketTargetAction = ''admin:SetBucketTarget''"
| "AdminAction_str GetBucketTargetAction = ''admin:GetBucketTarget''"
| "AdminAction_str ReplicationDiff = ''admin:ReplicationDiff''"
| "AdminAction_str ImportBucketMetadataAction = ''admin:ImportBucketMetadata''"
| "AdminAction_str ExportBucketMetadataAction = ''admin:ExportBucketMetadata''"
| "AdminAction_str SetTierAction = ''admin:SetTier''"
| "AdminAction_str ListTierAction = ''admin:ListTier''"
| "AdminAction_str ExportIAMAction = ''admin:ExportIAM''"
| "AdminAction_str ImportIAMAction = ''admin:ImportIAM''"
| "AdminAction_str ListBatchJobsAction = ''admin:ListBatchJobs''"
| "AdminAction_str DescribeBatchJobAction = ''admin:DescribeBatchJob''"
| "AdminAction_str StartBatchJobAction = ''admin:StartBatchJob''"
| "AdminAction_str CancelBatchJobAction = ''admin:CancelBatchJob''"
| "AdminAction_str AllAdminActions = ''admin:*''"

definition AdminAction_all :: "AdminAction list" where
  "AdminAction_all =
    [HealAdminAction, DecommissionAdminAction, RebalanceAdminAction, StorageInfoAdminAction
     , PrometheusAdminAction, DataUsageInfoAdminAction, ForceUnlockAdminAction, TopLocksAdminAction
     , ProfilingAdminAction, TraceAdminAction, ConsoleLogAdminAction, KMSCreateKeyAdminAction
     , KMSKeyStatusAdminAction, ServerInfoAdminAction, HealthInfoAdminAction, LicenseInfoAdminAction
     , BandwidthMonitorAction, InspectDataAction, ServerUpdateAdminAction, ServiceRestartAdminAction
     , ServiceStopAdminAction, ServiceFreezeAdminAction, ConfigUpdateAdminAction
     , CreateUserAdminAction, DeleteUserAdminAction, ListUsersAdminAction, EnableUserAdminAction
     , DisableUserAdminAction, GetUserAdminAction, SiteReplicationAddAction
     , SiteReplicationDisableAction, SiteReplicationRemoveAction, SiteReplicationResyncAction
     , SiteReplicationInfoAction, SiteReplicationOperationAction, CreateServiceAccountAdminAction
     , UpdateServiceAccountAdminAction, RemoveServiceAccountAdminAction
     , ListServiceAccountsAdminAction, ListTemporaryAccountsAdminAction, AddUserToGroupAdminAction
     , RemoveUserFromGroupAdminAction, GetGroupAdminAction, ListGroupsAdminAction
     , EnableGroupAdminAction, DisableGroupAdminAction, CreatePolicyAdminAction
     , DeletePolicyAdminAction, GetPolicyAdminAction, AttachPolicyAdminAction
     , UpdatePolicyAssociationAction, ListUserPoliciesAdminAction, SetBucketQuotaAdminAction
     , SetBucketTargetAction, GetBucketTargetAction, ReplicationDiff, ImportBucketMetadataAction
     , ExportBucketMetadataAction, SetTierAction, ListTierAction, ExportIAMAction, ImportIAMAction
     , ListBatchJobsAction, DescribeBatchJobAction, StartBatchJobAction, CancelBatchJobAction
     , AllAdminActions]"

definition AdminAction_try_from :: "string \<Rightarrow> AdminAction option" where
  "AdminAction_try_from value = find (\<lambda>a. AdminAction_str a = value) AdminAction_all"

lemma AdminAction_roundtrip: "AdminAction_try_from (AdminAction_str a) = Some a"
proof -
  have "distinct (map AdminAction_str AdminAction_all)"
    unfolding AdminAction_all_def list.map AdminAction_str.simps by code_simp
  moreover have "a \<in> set AdminAction_all" by (cases a) (simp_all add: AdminAction_all_def)
  ultimately show ?thesis unfolding AdminAction_try_from_def by (rule find_roundtrip)
qed

end
