(* ===== verification/PolicyNames.thy ===== *)
theory PolicyNames
  imports Wildcard S3Actions AdminActions
begin

text \<open>
  The closed vocabularies of the policy crate: the actions of
  \<open>crates/policy/src/policy/action.rs\<close> and the condition keys of \<open>function/key_name.rs\<close> and
  \<open>function/key.rs\<close>, each with its textual form and its parser. The derived parsers of the
  source take the variant whose text is the given one.
\<close>

section \<open>Actions\<close>

datatype KmsAction = KmsAllActions

primrec KmsAction_str :: "KmsAction \<Rightarrow> string" where
  "KmsAction_str KmsAllActions = ''kms:*''"

definition KmsAction_try_from :: "string \<Rightarrow> KmsAction option" where
  "KmsAction_try_from value = (if value = ''kms:*'' then Some KmsAllActions else None)"

text \<open>
  \<open>StsAction\<close> has no variant, so an action of that kind does not exist; parsing one always fails.
\<close>

datatype Action =
    S3Action S3Action
  | AdminAction AdminAction
  | KmsAction KmsAction
  | ActionNone

fun Action_str :: "Action \<Rightarrow> string" where
  "Action_str (S3Action s) = S3Action_str s"
| "Action_str (AdminAction s) = AdminAction_str s"
| "Action_str (KmsAction s) = KmsAction_str s"
| "Action_str ActionNone = []"

datatype IamError =
    InvalidAction string
  | InvalidResource string string
  | InvalidKeyName string
  | InvalidKey string
  | InvalidVersion string
  | NonAction
  | BothActionAndNotAction
  | NonResource
  | BothResourceAndNotResource
  | InvalidPrincipal

definition Action_try_from :: "string \<Rightarrow> IamError + Action" where
  "Action_try_from value =
    (if value = ''*'' then Inr (S3Action AllActions)
     else if prefix ''s3:'' value then
       (case S3Action_try_from value of Some a \<Rightarrow> Inr (S3Action a) | None \<Rightarrow> Inl (InvalidAction value))
     else if prefix ''admin:'' value then
       (case AdminAction_try_from value of Some a \<Rightarrow> Inr (AdminAction a) | None \<Rightarrow> Inl (InvalidAction value))
     else if prefix ''sts:'' value then Inl (InvalidAction value)
     else if prefix ''kms:'' value then
       (case KmsAction_try_from value of Some a \<Rightarrow> Inr (KmsAction a) | None \<Rightarrow> Inl (InvalidAction value))
     else Inl (InvalidAction value))"

definition Action_is_match :: "Action \<Rightarrow> Action \<Rightarrow> bool" where
  "Action_is_match self action = is_match (Action_str self) (Action_str action)"

text \<open>\<open>ActionSet\<close> is a hash set; the list is its iteration order.\<close>

definition ActionSet_is_match :: "Action list \<Rightarrow> Action \<Rightarrow> bool" where
  "ActionSet_is_match self action =
    list_ex (\<lambda>act. Action_is_match act action
      \<or> (act = S3Action GetObjectVersionAction \<and> action = S3Action GetObjectAction)) self"

section \<open>Condition keys\<close>

datatype S3KeyName =
    S3XAmzCopySource | S3XAmzServerSideEncryption | S3XAmzServerSideEncryptionCustomerAlgorithm
    | S3SignatureVersion | S3AuthType | S3SignatureAge | S3XAmzContentSha256 | S3XAmzAcl
    | S3LocationConstraint | S3ObjectLockRetainUntilDate | S3MaxKeys | S3XAmzMetadataDirective
    | S3XAmzStorageClass | S3Prefix | S3Delimiter | S3ExistingObjectTag | S3RequestObjectTagKeys
    | S3RequestObjectTag

primrec S3KeyName_str :: "S3KeyName \<Rightarrow> string" where
  "S3KeyName_str S3XAmzCopySource = ''s3:x-amz-copy-source''"
| "S3KeyName_str S3XAmzServerSideEncryption = ''s3:x-amz-server-side-encryption''"
| "S3KeyName_str S3XAmzServerSideEncryptionCustomerAlgorithm = ''s3:x-amz-server-side-encryption-customer-algorithm''"
| "S3KeyName_str S3SignatureVersion = ''s3:signatureversion''"
| "S3KeyName_str S3AuthType = ''s3:authType''"
| "S3KeyName_str S3SignatureAge = ''s3:signatureAge''"
| "S3KeyName_str S3XAmzContentSha256 = ''s3:x-amz-content-sha256''"
| "S3KeyName_str S3XAmzAcl = ''s3:x-amz-acl''"
| "S3KeyName_str S3LocationConstraint = ''s3:LocationConstraint''"
| "S3KeyName_str S3ObjectLockRetainUntilDate = ''s3:object-lock-retain-until-date''"
| "S3KeyName_str S3MaxKeys = ''s3:max-keys''"
| "S3KeyName_str S3XAmzMetadataDirective = ''s3:x-amz-metadata-directive''"
| "S3KeyName_str S3XAmzStorageClass = ''s3:x-amz-storage-class''"
| "S3KeyName_str S3Prefix = ''s3:prefix''"
| "S3KeyName_str S3Delimiter = ''s3:delimiter''"
| "S3KeyName_str S3ExistingObjectTag = ''s3:ExistingObjectTag''"
| "S3KeyName_str S3RequestObjectTagKeys = ''s3:RequestObjectTagKeys''"
| "S3KeyName_str S3RequestObjectTag = ''s3:RequestObjectTag''"

definition S3KeyName_all :: "S3KeyName list" where
  "S3KeyName_all =
    [S3XAmzCopySource, S3XAmzServerSideEncryption, S3XAmzServerSideEncryptionCustomerAlgorithm
     , S3SignatureVersion, S3AuthType, S3SignatureAge, S3XAmzContentSha256, S3XAmzAcl
     , S3LocationConstraint, S3ObjectLockRetainUntilDate, S3MaxKeys, S3XAmzMetadataDirective
     , S3XAmzStorageClass, S3Prefix, S3Delimiter, S3ExistingObjectTag, S3RequestObjectTagKeys
     , S3RequestObjectTag]"

definition S3KeyName_try_from :: "string \<Rightarrow> S3KeyName option" where
  "S3KeyName_try_from value = find (\<lambda>a. S3KeyName_str a = value) S3KeyName_all"

datatype JwtKeyName =
    JWTSub | JWTIss | JWTAud | JWTJti | JWTName | JWTUpn | JWTGroups | JWTGivenName | JWTFamilyName
    | JWTMiddleName | JWTNickName | JWTPrefUsername | JWTProfile | JWTPicture | JWTWebsite
    | JWTEmail | JWTGender | JWTBirthdate | JWTPhoneNumber | JWTAddress | JWTScope | JWTClientID

primrec JwtKeyName_str :: "JwtKeyName \<Rightarrow> string" where
  "JwtKeyName_str JWTSub = ''jwt:sub''"
| "JwtKeyName_str JWTIss = ''jwt:iss''"
| "JwtKeyName_str JWTAud = ''jwt:aud''"
| "JwtKeyName_str JWTJti = ''jwt:jti''"
| "JwtKeyName_str JWTName = ''jwt:name''"
| "JwtKeyName_str JWTUpn = ''jwt:upn''"
| "JwtKeyName_str JWTGroups = ''jwt:groups''"
| "JwtKeyName_str JWTGivenName = ''jwt:given_name''"
| "JwtKeyName_str JWTFamilyName = ''jwt:family_name''"
| "JwtKeyName_str JWTMiddleName = ''jwt:middle_name''"
| "JwtKeyName_str JWTNickName = ''jwt:nickname''"
| "JwtKeyName_str JWTPrefUsername = ''jwt:preferred_username''"
| "JwtKeyName_str JWTProfile = ''jwt:profile''"
| "JwtKeyName_str JWTPicture = ''jwt:picture''"
| "JwtKeyName_str JWTWebsite = ''jwt:website''"
| "JwtKeyName_str JWTEmail = ''jwt:email''"
| "JwtKeyName_str JWTGender = ''jwt:gender''"
| "JwtKeyName_str JWTBirthdate = ''jwt:birthdate''"
| "JwtKeyName_str JWTPhoneNumber = ''jwt:phone_number''"
| "JwtKeyName_str JWTAddress = ''jwt:address''"
| "JwtKeyName_str JWTScope = ''jwt:scope''"
| "JwtKeyName_str JWTClientID = ''jwt:client_id''"

definition JwtKeyName_all :: "JwtKeyName list" where
  "JwtKeyName_all =
    [JWTSub, JWTIss, JWTAud, JWTJti, JWTName, JWTUpn, JWTGroups, JWTGivenName, JWTFamilyName
     , JWTMiddleName, JWTNickName, JWTPrefUsername, JWTProfile, JWTPicture, JWTWebsite, JWTEmail
     , JWTGender, JWTBirthdate, JWTPhoneNumber, JWTAddress, JWTScope, JWTClientID]"

definition JwtKeyName_try_from :: "string \<Rightarrow> JwtKeyName option" where
  "JwtKeyName_try_from value = find (\<lambda>a. JwtKeyName_str a = value) JwtKeyName_all"

datatype SvcKeyName =
    SVCDurationSeconds

primrec SvcKeyName_str :: "SvcKeyName \<Rightarrow> string" where
  "SvcKeyName_str SVCDurationSeconds = ''svc:DurationSeconds''"

definition SvcKeyName_all :: "SvcKeyName list" where
  "SvcKeyName_all =
    [SVCDurationSeconds]"

definition SvcKeyName_try_from :: "string \<Rightarrow> SvcKeyName option" where
  "SvcKeyName_try_from value = find (\<lambda>a. SvcKeyName_str a = value) SvcKeyName_all"

datatype LdapKeyName =
    User | Username | Groups

primrec LdapKeyName_str :: "LdapKeyName \<Rightarrow> string" where
  "LdapKeyName_str User = ''ldap:user''"
| "LdapKeyName_str Username = ''ldap:username''"
| "LdapKeyName_str Groups = ''ldap:groups''"

definition LdapKeyName_all :: "LdapKeyName list" where
  "LdapKeyName_all =
    [User, Username, Groups]"

definition LdapKeyName_try_from :: "string \<Rightarrow> LdapKeyName option" where
  "LdapKeyName_try_from value = find (\<lambda>a. LdapKeyName_str a = value) LdapKeyName_all"

datatype StsKeyName =
    STSDurationSeconds

primrec StsKeyName_str :: "StsKeyName \<Rightarrow> string" where
  "StsKeyName_str STSDurationSeconds = ''sts:DurationSeconds''"

definition StsKeyName_all :: "StsKeyName list" where
  "StsKeyName_all =
    [STSDurationSeconds]"

definition StsKeyName_try_from :: "string \<Rightarrow> StsKeyName option" where
  "StsKeyName_try_from value = find (\<lambda>a. StsKeyName_str a = value) StsKeyName_all"

datatype AwsKeyName =
    AWSReferer | AWSSourceIP | AWSUserAgent | AWSSecureTransport | AWSCurrentTime | AWSEpochTime
    | AWSPrincipalType | AWSUserID | AWSUsername | AWSGroups

primrec AwsKeyName_str :: "AwsKeyName \<Rightarrow> string" where
  "AwsKeyName_str AWSReferer = ''aws:Referer''"
| "AwsKeyName_str AWSSourceIP = ''aws:SourceIp''"
| "AwsKeyName_str AWSUserAgent = ''aws:UserAgent''"
| "AwsKeyName_str AWSSecureTransport = ''aws:SecureTransport''"
| "AwsKeyName_str AWSCurrentTime = ''aws:CurrentTime''"
| "AwsKeyName_str AWSEpochTime = ''aws:EpochTime''"
| "AwsKeyName_str AWSPrincipalType = ''aws:principaltype''"
| "AwsKeyName_str AWSUserID = ''aws:userid''"
| "AwsKeyName_str AWSUsername = ''aws:username''"
| "AwsKeyName_str AWSGroups = ''aws:groups''"

definition AwsKeyName_all :: "AwsKeyName list" where
  "AwsKeyName_all =
    [AWSReferer, AWSSourceIP, AWSUserAgent, AWSSecureTransport, AWSCurrentTime, AWSEpochTime
     , AWSPrincipalType, AWSUserID, AWSUsername, AWSGroups]"

definition AwsKeyName_try_from :: "string \<Rightarrow> AwsKeyName option" where
  "AwsKeyName_try_from value = find (\<lambda>a. AwsKeyName_str a = value) AwsKeyName_all"

datatype KeyName =
    Aws AwsKeyName
  | Jwt JwtKeyName
  | Ldap LdapKeyName
  | Sts StsKeyName
  | Svc SvcKeyName
  | S3 S3KeyName

fun KeyName_str :: "KeyName \<Rightarrow> string" where
  "KeyName_str (Aws k) = AwsKeyName_str k"
| "KeyName_str (Jwt k) = JwtKeyName_str k"
| "KeyName_str (Ldap k) = LdapKeyName_str k"
| "KeyName_str (Sts k) = StsKeyName_str k"
| "KeyName_str (Svc k) = SvcKeyName_str k"
| "KeyName_str (S3 k) = S3KeyName_str k"

definition KeyName_try_from :: "string \<Rightarrow> IamError + KeyName" where
  "KeyName_try_from value =
    (let ok = (\<lambda>r. case r of Some k \<Rightarrow> Inr k | None \<Rightarrow> Inl (InvalidKeyName value))
     in if prefix ''s3:'' value then ok (map_option S3 (S3KeyName_try_from value))
        else if prefix ''aws:'' value then ok (map_option Aws (AwsKeyName_try_from value))
        else if prefix ''ldap:'' value then ok (map_option Ldap (LdapKeyName_try_from value))
        else if prefix ''sts:'' value then ok (map_option Sts (StsKeyName_try_from value))
        else if prefix ''jwt:'' value then ok (map_option Jwt (JwtKeyName_try_from value))
        else if prefix ''svc:'' value then ok (map_option Svc (SvcKeyName_try_from value))
        else Inl (InvalidKeyName value))"

definition COMMON_KEYS :: "KeyName list" where
  "COMMON_KEYS =
    [S3 S3SignatureVersion, S3 S3AuthType, S3 S3SignatureAge, S3 S3XAmzContentSha256
     , S3 S3LocationConstraint, Aws AWSReferer, Aws AWSSourceIP, Aws AWSUserAgent
     , Aws AWSSecureTransport, Aws AWSCurrentTime, Aws AWSEpochTime, Aws AWSPrincipalType
     , Aws AWSUserID, Aws AWSUsername, Aws AWSGroups, Ldap User, Ldap Username, Ldap Groups
     , Jwt JWTSub, Jwt JWTIss, Jwt JWTAud, Jwt JWTJti, Jwt JWTName, Jwt JWTUpn, Jwt JWTGroups
     , Jwt JWTGivenName, Jwt JWTFamilyName, Jwt JWTMiddleName, Jwt JWTNickName, Jwt JWTPrefUsername
     , Jwt JWTProfile, Jwt JWTPicture, Jwt JWTWebsite, Jwt JWTEmail, Jwt JWTGender, Jwt JWTBirthdate
     , Jwt JWTPhoneNumber, Jwt JWTAddress, Jwt JWTScope, Jwt JWTClientID]"

fun KeyName_prefix :: "KeyName \<Rightarrow> nat" where
  "KeyName_prefix (Aws _) = length ''aws:''"
| "KeyName_prefix (Jwt _) = length ''jwt:''"
| "KeyName_prefix (Ldap _) = length ''ldap:''"
| "KeyName_prefix (Sts _) = length ''sts:''"
| "KeyName_prefix (Svc _) = length ''svc:''"
| "KeyName_prefix (S3 _) = length ''s3:''"

definition KeyName_name :: "KeyName \<Rightarrow> string" where
  "KeyName_name k = drop (KeyName_prefix k) (KeyName_str k)"

fun KeyName_var_name :: "KeyName \<Rightarrow> string" where
  "KeyName_var_name (Aws k) = ''${aws:'' @ AwsKeyName_str k @ ''}''"
| "KeyName_var_name (Jwt k) = ''${jwt:'' @ JwtKeyName_str k @ ''}''"
| "KeyName_var_name (Ldap k) = ''${ldap:'' @ LdapKeyName_str k @ ''}''"
| "KeyName_var_name (Sts k) = ''${sts:'' @ StsKeyName_str k @ ''}''"
| "KeyName_var_name (Svc k) = ''${svc:'' @ SvcKeyName_str k @ ''}''"
| "KeyName_var_name (S3 k) = ''${s3:'' @ S3KeyName_str k @ ''}''"

record Key =
  k_name :: KeyName
  k_variable :: "string option"

definition Key_is :: "Key \<Rightarrow> KeyName \<Rightarrow> bool" where
  "Key_is self other = (k_name self = other)"

definition Key_name :: "Key \<Rightarrow> string" where
  "Key_name k =
    (case k_variable k of
       Some x \<Rightarrow> KeyName_name (k_name k) @ ''/'' @ x
     | None \<Rightarrow> KeyName_name (k_name k))"

text \<open>\<open>From<Key> for String\<close> and \<open>TryFrom<&str> for Key\<close>\<close>

definition Key_str :: "Key \<Rightarrow> string" where
  "Key_str k =
    (case k_variable k of
       Some x \<Rightarrow> KeyName_str (k_name k) @ ''/'' @ x
     | None \<Rightarrow> KeyName_str (k_name k))"

text \<open>\<open>splitn(2, '/')\<close>: the text before the first slash, and the text after it if there is one.\<close>

definition splitn2 :: "string \<Rightarrow> string \<times> string option" where
  "splitn2 value =
    (let rest = dropWhile (\<lambda>c. c \<noteq> CHR ''/'') value
     in (takeWhile (\<lambda>c. c \<noteq> CHR ''/'') value, if rest = [] then None else Some (tl rest)))"

definition Key_try_from :: "string \<Rightarrow> IamError + Key" where
  "Key_try_from value =
    (case splitn2 value of
       (name, variable) \<Rightarrow>
         (case KeyName_try_from name of
            Inl e \<Rightarrow> Inl e
          | Inr n \<Rightarrow> Inr \<lparr>k_name = n, k_variable = variable\<rparr>))"

section \<open>Every name reads back\<close>

lemma S3KeyName_roundtrip: "S3KeyName_try_from (S3KeyName_str a) = Some a"
proof -
  have "distinct (map S3KeyName_str S3KeyName_all)"
    unfolding S3KeyName_all_def list.map S3KeyName_str.simps by code_simp
  moreover have "a \<in> set S3KeyName_all" by (cases a) (simp_all add: S3KeyName_all_def)
  ultimately show ?thesis unfolding S3KeyName_try_from_def by (rule find_roundtrip)
qed

lemma JwtKeyName_roundtrip: "JwtKeyName_try_from (JwtKeyName_str a) = Some a"
proof -
  have "distinct (map JwtKeyName_str JwtKeyName_all)"
    unfolding JwtKeyName_all_def list.map JwtKeyName_str.simps by code_simp
  moreover have "a \<in> set JwtKeyName_all" by (cases a) (simp_all add: JwtKeyName_all_def)
  ultimately show ?thesis unfolding JwtKeyName_try_from_def by (rule find_roundtrip)
qed

lemma SvcKeyName_roundtrip: "SvcKeyName_try_from (SvcKeyName_str a) = Some a"
proof -
  have "distinct (map SvcKeyName_str SvcKeyName_all)"
    unfolding SvcKeyName_all_def list.map SvcKeyName_str.simps by code_simp
  moreover have "a \<in> set SvcKeyName_all" by (cases a) (simp_all add: SvcKeyName_all_def)
  ultimately show ?thesis unfolding SvcKeyName_try_from_def by (rule find_roundtrip)
qed

lemma LdapKeyName_roundtrip: "LdapKeyName_try_from (LdapKeyName_str a) = Some a"
proof -
  have "distinct (map LdapKeyName_str LdapKeyName_all)"
    unfolding LdapKeyName_all_def list.map LdapKeyName_str.simps by code_simp
  moreover have "a \<in> set LdapKeyName_all" by (cases a) (simp_all add: LdapKeyName_all_def)
  ultimately show ?thesis unfolding LdapKeyName_try_from_def by (rule find_roundtrip)
qed

lemma StsKeyName_roundtrip: "StsKeyName_try_from (StsKeyName_str a) = Some a"
proof -
  have "distinct (map StsKeyName_str StsKeyName_all)"
    unfolding StsKeyName_all_def list.map StsKeyName_str.simps by code_simp
  moreover have "a \<in> set StsKeyName_all" by (cases a) (simp_all add: StsKeyName_all_def)
  ultimately show ?thesis unfolding StsKeyName_try_from_def by (rule find_roundtrip)
qed

lemma AwsKeyName_roundtrip: "AwsKeyName_try_from (AwsKeyName_str a) = Some a"
proof -
  have "distinct (map AwsKeyName_str AwsKeyName_all)"
    unfolding AwsKeyName_all_def list.map AwsKeyName_str.simps by code_simp
  moreover have "a \<in> set AwsKeyName_all" by (cases a) (simp_all add: AwsKeyName_all_def)
  ultimately show ?thesis unfolding AwsKeyName_try_from_def by (rule find_roundtrip)
qed

lemma S3Action_prefix: "prefix ''s3:'' (S3Action_str a)"
  by (cases a) simp_all

lemma AdminAction_prefix: "\<not> prefix ''s3:'' (AdminAction_str a)" "prefix ''admin:'' (AdminAction_str a)"
  by (cases a, simp_all)+

lemma Action_roundtrip:
  "Action_try_from (Action_str a) = (if a = ActionNone then Inl (InvalidAction []) else Inr a)"
proof (cases a)
  case (S3Action x)
  then show ?thesis
    using S3Action_prefix [of x] by (auto simp: Action_try_from_def S3Action_roundtrip)
next
  case (AdminAction x)
  then show ?thesis
    using AdminAction_prefix [of x] by (auto simp: Action_try_from_def AdminAction_roundtrip)
next
  case (KmsAction x)
  then show ?thesis by (cases x) (simp add: Action_try_from_def KmsAction_try_from_def)
qed (simp add: Action_try_from_def)

lemma S3KeyName_prefix: "prefix ''s3:'' (S3KeyName_str k)"
  by (cases k) simp_all

lemma AwsKeyName_prefix: "prefix ''aws:'' (AwsKeyName_str k)"
  by (cases k) simp_all

lemma LdapKeyName_prefix: "prefix ''ldap:'' (LdapKeyName_str k)"
  by (cases k) simp_all

lemma StsKeyName_prefix: "prefix ''sts:'' (StsKeyName_str k)"
  by (cases k) simp_all

lemma JwtKeyName_prefix: "prefix ''jwt:'' (JwtKeyName_str k)"
  by (cases k) simp_all

lemma SvcKeyName_prefix: "prefix ''svc:'' (SvcKeyName_str k)"
  by (cases k) simp_all

lemma prefix_conflict: "prefix p s \<Longrightarrow> \<not> prefix p q \<Longrightarrow> \<not> prefix q p \<Longrightarrow> \<not> prefix q s"
  using prefix_same_cases by blast

lemmas KeyName_prefixes =
  S3KeyName_prefix AwsKeyName_prefix LdapKeyName_prefix StsKeyName_prefix JwtKeyName_prefix
  SvcKeyName_prefix

lemmas KeyName_name_roundtrips =
  S3KeyName_roundtrip AwsKeyName_roundtrip LdapKeyName_roundtrip StsKeyName_roundtrip
  JwtKeyName_roundtrip SvcKeyName_roundtrip

lemma KeyName_roundtrip: "KeyName_try_from (KeyName_str k) = Inr k"
  by (cases k) (simp_all add: KeyName_try_from_def KeyName_name_roundtrips Let_def KeyName_prefixes
      KeyName_prefixes [THEN prefix_conflict])

lemma KeyName_no_slash: "CHR ''/'' \<notin> set (KeyName_str k)"
proof (cases k)
  case (Aws x) then show ?thesis by (cases x) simp_all
next
  case (Jwt x) then show ?thesis by (cases x) simp_all
next
  case (Ldap x) then show ?thesis by (cases x) simp_all
next
  case (Sts x) then show ?thesis by (cases x) simp_all
next
  case (Svc x) then show ?thesis by (cases x) simp_all
next
  case (S3 x) then show ?thesis by (cases x) simp_all
qed

lemma splitn2_slash:
  assumes "CHR ''/'' \<notin> set n"
  shows "splitn2 n = (n, None)" and "splitn2 (n @ CHR ''/'' # v) = (n, Some v)"
proof -
  have "takeWhile (\<lambda>c. c \<noteq> CHR ''/'') (n @ r) = n @ takeWhile (\<lambda>c. c \<noteq> CHR ''/'') r"
    and "dropWhile (\<lambda>c. c \<noteq> CHR ''/'') (n @ r) = dropWhile (\<lambda>c. c \<noteq> CHR ''/'') r" for r
    using assms by (induction n) auto
  from this [of "[]"] this [of "CHR ''/'' # v"]
  show "splitn2 n = (n, None)" and "splitn2 (n @ CHR ''/'' # v) = (n, Some v)"
    by (simp_all add: splitn2_def)
qed

text \<open>
  The text of every action and of every condition key, variable included, is read back as
  the same value; the one action without a text of its own is refused.
\<close>

theorem names_roundtrip:
  "Action_try_from (Action_str a) = (if a = ActionNone then Inl (InvalidAction []) else Inr a)
   \<and> KeyName_try_from (KeyName_str n) = Inr n
   \<and> Key_try_from (Key_str k) = Inr k"
proof -
  have "Key_try_from (Key_str k) = Inr k"
    using splitn2_slash [OF KeyName_no_slash]
    by (cases k) (auto simp: Key_try_from_def Key_str_def KeyName_roundtrip split: option.splits)
  then show ?thesis by (simp add: Action_roundtrip KeyName_roundtrip)
qed

text \<open>
  \<open>var_name\<close> writes the prefix of a key twice, so the variable it substitutes in patterns is
  never the one a policy author writes.
\<close>

lemma var_name_doubles_prefix:
  "KeyName_var_name k = ''${'' @ take (KeyName_prefix k) (KeyName_str k) @ KeyName_str k @ ''}''"
proof -
  have t: "prefix p s \<Longrightarrow> take (length p) s = p" for p s :: string by (auto simp: prefix_def)
  show ?thesis
    using KeyName_prefixes [THEN t] by (cases k) simp_all
qed

end
