(* ===== verification/PolicyVars.thy ===== *)
theory PolicyVars
  imports Prelude
begin

text \<open>
  Policy variables (\<open>crates/policy/src/policy/variables.rs\<close>): the request context, the resolver
  of single variables and the substitution of \<open>${...}\<close> in patterns. Texts are ASCII, where a byte
  index is a character index. The wall clock is an argument. The substitution is run with fuel,
  and \<open>None\<close> means that it has not returned yet.
\<close>

section \<open>Substrings\<close>

text \<open>\<open>str::find\<close> and \<open>str::replace\<close> with a non-empty needle\<close>

fun str_find :: "string \<Rightarrow> string \<Rightarrow> nat option" where
  "str_find pat [] = (if pat = [] then Some 0 else None)"
| "str_find pat (c # s) = (if prefix pat (c # s) then Some 0 else map_option Suc (str_find pat s))"

function str_replace :: "string \<Rightarrow> string \<Rightarrow> string \<Rightarrow> string" where
  "str_replace pat to [] = []"
| "str_replace pat to (c # s) =
    (if pat \<noteq> [] \<and> prefix pat (c # s) then to @ str_replace pat to (drop (length pat) (c # s))
     else c # str_replace pat to s)"
  by pat_completeness auto
termination by (relation "measure (\<lambda>(_, _, s). length s)") auto

section \<open>The context and its resolver\<close>

text \<open>A JSON value of \<open>serde_json\<close>; a number is kept as its text.\<close>

datatype Value =
    Null
  | Bool bool
  | Number string
  | String string
  | Array "Value list"
  | Object "(string \<times> Value) list"

record VariableContext =
  is_https :: bool
  source_ip :: "string option"
  account_id :: "string option"
  region :: "string option"
  username :: "string option"
  ctx_claims :: "(string \<rightharpoonup> Value) option"
  ctx_conditions :: "string \<rightharpoonup> string list"
  custom_variables :: "string \<rightharpoonup> string"

definition VariableContext_new :: VariableContext where
  "VariableContext_new =
    \<lparr>is_https = False, source_ip = None, account_id = None, region = None, username = None,
     ctx_claims = None, ctx_conditions = Map.empty, custom_variables = Map.empty\<rparr>"

definition show_bool :: "bool \<Rightarrow> string" where
  "show_bool b = (if b then ''true'' else ''false'')"

fun scalar_text :: "Value \<Rightarrow> string option" where
  "scalar_text (String s) = Some s"
| "scalar_text (Number n) = Some n"
| "scalar_text (Bool b) = Some (show_bool b)"
| "scalar_text _ = None"

fun value_strings :: "Value \<Rightarrow> string list option" where
  "value_strings (String s) = Some [s]"
| "value_strings (Array arr) = Some (List.map_filter scalar_text arr)"
| "value_strings (Number n) = Some [n]"
| "value_strings (Bool b) = Some [show_bool b]"
| "value_strings _ = None"

definition get_claim_as_strings :: "VariableContext \<Rightarrow> string \<Rightarrow> string list option" where
  "get_claim_as_strings ctx claim_name =
    Option.bind (ctx_claims ctx) (\<lambda>claims. Option.bind (claims claim_name) value_strings)"

definition or_else :: "'a option \<Rightarrow> 'a option \<Rightarrow> 'a option" where
  "or_else a b = (case a of Some x \<Rightarrow> Some x | None \<Rightarrow> b)"

definition userid_strings :: "VariableContext \<Rightarrow> string list option" where
  "userid_strings ctx = or_else (get_claim_as_strings ctx ''sub'') (get_claim_as_strings ctx ''parent'')"

definition resolve_userid :: "VariableContext \<Rightarrow> string option" where
  "resolve_userid ctx =
    Option.bind (userid_strings ctx) (\<lambda>vec. if vec = [] then None else Some (last vec))"

definition resolve_principal_type :: "VariableContext \<Rightarrow> string" where
  "resolve_principal_type ctx =
    (case ctx_claims ctx of
       Some claims \<Rightarrow>
         if claims ''roleArn'' \<noteq> None then ''AssumedRole''
         else if claims ''parent'' \<noteq> None \<and> claims ''sa-policy'' \<noteq> None then ''ServiceAccount''
         else ''User''
     | None \<Rightarrow> ''User'')"

definition resolve_custom_variable :: "VariableContext \<Rightarrow> string \<Rightarrow> string option" where
  "resolve_custom_variable ctx variable_name =
    (if prefix ''custom:'' variable_name
     then custom_variables ctx (drop (length ''custom:'') variable_name) else None)"

text \<open>The texts the clock gives to \<open>aws:CurrentTime\<close> and \<open>aws:EpochTime\<close>\<close>

record clock =
  clock_rfc3339 :: string
  clock_epoch :: string

definition resolve_var :: "clock \<Rightarrow> VariableContext \<Rightarrow> string \<Rightarrow> string option" where
  "resolve_var now ctx variable_name =
    (if variable_name = ''aws:username'' then username ctx
     else if variable_name = ''aws:userid'' then resolve_userid ctx
     else if variable_name = ''aws:PrincipalType'' then Some (resolve_principal_type ctx)
     else if variable_name = ''aws:SecureTransport'' then Some (show_bool (is_https ctx))
     else if variable_name = ''aws:CurrentTime'' then Some (clock_rfc3339 now)
     else if variable_name = ''aws:EpochTime'' then Some (clock_epoch now)
     else if variable_name = ''aws:AccountId'' then account_id ctx
     else if variable_name = ''aws:Region'' then region ctx
     else if variable_name = ''aws:SourceIp'' then source_ip ctx
     else resolve_custom_variable ctx variable_name)"

definition resolve_multiple :: "clock \<Rightarrow> VariableContext \<Rightarrow> string \<Rightarrow> string list option" where
  "resolve_multiple now ctx variable_name =
    (if variable_name = ''aws:username'' then map_option (\<lambda>s. [s]) (username ctx)
     else if variable_name = ''aws:userid'' then userid_strings ctx
     else map_option (\<lambda>s. [s]) (resolve_var now ctx variable_name))"

section \<open>Substitution\<close>

text \<open>
  The search for the closing brace: \<open>end_pos\<close> and \<open>brace_count\<close> when the loop stops, from the
  text at \<open>end_pos\<close>.
\<close>

fun scan_brace :: "string \<Rightarrow> nat \<Rightarrow> nat \<Rightarrow> nat \<times> nat" where
  "scan_brace [] end_pos n = (end_pos, n)"
| "scan_brace (c # s) end_pos n =
    (if n = 0 then (end_pos, n)
     else
       (let n' = (if c = CHR ''{'' then n + 1 else if c = CHR ''}'' then n - 1 else n)
        in if 0 < n' then scan_brace s (end_pos + 1) n' else (end_pos, n')))"

text \<open>Removing duplicates, the first occurrence staying in its place\<close>

fun dedup :: "'a set \<Rightarrow> 'a list \<Rightarrow> 'a list" where
  "dedup seen [] = []"
| "dedup seen (x # xs) = (if x \<in> seen then dedup seen xs else x # dedup (insert x seen) xs)"

definition pass_changed :: "string \<Rightarrow> string list \<Rightarrow> bool" where
  "pass_changed result resolved \<longleftrightarrow>
    1 < length resolved \<or> (length resolved = 1 \<and> resolved ! 0 \<noteq> result)"

text \<open>
  \<open>replace_var\<close> is the inner loop of \<open>resolve_single_pass\<close> on one string from \<open>start\<close>: \<open>None\<close> in
  the result leaves the string, \<open>Some\<close> gives the strings it is replaced by. The recursive call on
  a nested variable name is the argument \<open>inner\<close>.
\<close>

lemma scan_brace_ge: "scan_brace s e n = (e', n') \<Longrightarrow> e \<le> e'"
  by (induction s e n rule: scan_brace.induct) (auto simp: Let_def split: if_splits)

lemma str_find_Some: "str_find pat s = Some pos \<Longrightarrow> prefix pat (drop pos s)"
  by (induction pat s arbitrary: pos rule: str_find.induct) (auto split: if_splits)

lemma str_find_less: "str_find pat s = Some pos \<Longrightarrow> pat \<noteq> [] \<Longrightarrow> pos < length s"
  using str_find_Some [of pat s pos] by (cases "pos < length s") auto

lemma scan_progress:
  assumes "str_find ''${'' (drop start s) = Some pos"
    and "(e, n) = scan_brace t (Suc (Suc (start + pos))) m"
  shows "length s - Suc e < length s - start"
proof -
  have "pos < length (drop start s)" using str_find_less [OF assms(1)] by simp
  moreover have "Suc (Suc (start + pos)) \<le> e" using scan_brace_ge [OF assms(2) [symmetric]] .
  ultimately show ?thesis by simp
qed

function replace_var ::
  "(string \<Rightarrow> string list option) \<Rightarrow> (string \<Rightarrow> string list option) \<Rightarrow> string \<Rightarrow> nat
    \<Rightarrow> string list option option" where
  "replace_var inner rv s start =
    (case str_find ''${'' (drop start s) of
       None \<Rightarrow> Some None
     | Some pos \<Rightarrow>
         (let actual_pos = start + pos
          in case scan_brace (drop (actual_pos + 2) s) (actual_pos + 2) 1 of
               (end_pos, brace_count) \<Rightarrow>
                 if brace_count = 0 then
                   (let var_name = take (end_pos - (actual_pos + 2)) (drop (actual_pos + 2) s);
                        pre = take actual_pos s;
                        suf = drop (end_pos + 1) s
                    in if contains ''${'' var_name then
                         (case inner var_name of
                            None \<Rightarrow> None
                          | Some resolved_inner \<Rightarrow>
                              if resolved_inner \<noteq> [] then Some (Some (map (\<lambda>v. pre @ v @ suf) resolved_inner))
                              else replace_var inner rv s (end_pos + 1))
                       else
                         (case rv var_name of
                            Some values \<Rightarrow>
                              if values \<noteq> [] then Some (Some (map (\<lambda>v. pre @ v @ suf) values))
                              else Some (Some [pre @ suf])
                          | None \<Rightarrow> replace_var inner rv s (end_pos + 1)))
                 else Some None))"
  by pat_completeness auto
termination
  by (relation "measure (\<lambda>(_, _, s, start). length s - start)")
    (auto intro: scan_progress)

declare replace_var.simps [simp del]

text \<open>
  \<open>resolve_single_pass\<close> works through the queue \<open>results[i..]\<close>, where a replaced string is
  examined again.
\<close>

primrec resolve_single_pass ::
  "nat \<Rightarrow> (string \<Rightarrow> string list option) \<Rightarrow> (string \<Rightarrow> string list option) \<Rightarrow> string list
    \<Rightarrow> string list option" where
  "resolve_single_pass 0 inner rv queue = None"
| "resolve_single_pass (Suc f) inner rv queue =
    (case queue of
       [] \<Rightarrow> Some []
     | s # rest \<Rightarrow>
         (case replace_var inner rv s 0 of
            None \<Rightarrow> None
          | Some None \<Rightarrow> map_option ((#) s) (resolve_single_pass f inner rv rest)
          | Some (Some new_results) \<Rightarrow> resolve_single_pass f inner rv (new_results @ rest)))"

text \<open>
  The outer loop of \<open>resolve_aws_variables\<close>: the single pass is its argument, \<open>turns\<close> are the
  iterations left of the ten.
\<close>

primrec resolve_iter :: "(string list \<Rightarrow> string list option) \<Rightarrow> nat \<Rightarrow> string list \<Rightarrow> string list option" where
  "resolve_iter pass 0 results = Some results"
| "resolve_iter pass (Suc turns) results =
    (case those (map (\<lambda>r. pass [r]) results) of
       None \<Rightarrow> None
     | Some resolved \<Rightarrow>
         (let results' = dedup {} (concat resolved)
          in if list_ex (\<lambda>(r, rs). pass_changed r rs) (zip results resolved)
             then resolve_iter pass turns results' else Some results'))"

primrec resolve_aws_variables :: "nat \<Rightarrow> (string \<Rightarrow> string list option) \<Rightarrow> string \<Rightarrow> string list option" where
  "resolve_aws_variables 0 rv pattern = None"
| "resolve_aws_variables (Suc f) rv pattern =
    resolve_iter (resolve_single_pass f (resolve_aws_variables f rv) rv) 10 [pattern]"

lemma resolve_plain:
  assumes "str_find ''${'' p = None"
  shows "resolve_aws_variables (Suc (Suc (Suc f))) rv p = Some [p]"
proof -
  have "replace_var inner rv p 0 = Some None" for inner
    using assms by (subst replace_var.simps) simp
  then have "resolve_single_pass (Suc (Suc f)) inner rv [p] = Some [p]" for inner by simp
  then show ?thesis
    by (simp add: numeral_eq_Suc pass_changed_def del: resolve_single_pass.simps)
qed

section \<open>The substitution returns\<close>

text \<open>
  Every replacement removes a dollar sign when no value contains one. Fuel is counted per loop
  and per nesting, so the result is the same for every large enough amount.
\<close>

definition dollars :: "string \<Rightarrow> nat" where
  "dollars s = count_list s (CHR ''$'')"

lemma dollars_append [simp]: "dollars (s @ t) = dollars s + dollars t"
  by (simp add: dollars_def)

lemma dollars_simps [simp]:
  "dollars [] = 0" "dollars (c # s) = (if c = CHR ''$'' then Suc (dollars s) else dollars s)"
  by (simp_all add: dollars_def)

lemma scan_brace_close:
  assumes "scan_brace t e n = (e', 0)" and "0 < n"
  shows "\<exists>v u. t = v @ CHR ''}'' # u \<and> e' = e + length v"
  using assms
proof (induction t e n rule: scan_brace.induct)
  case (2 c t e n)
  let ?n = "if c = CHR ''{'' then n + 1 else if c = CHR ''}'' then n - 1 else n"
  show ?case
  proof (cases "0 < ?n")
    case True
    then obtain v u where "t = v @ CHR ''}'' # u" "e' = (e + 1) + length v"
      using 2 by (auto simp: Let_def)
    then show ?thesis by (intro exI [of _ "c # v"] exI [of _ u]) simp
  next
    case False
    then have "c = CHR ''}''" "e' = e" using 2 by (auto simp: Let_def split: if_splits)
    then show ?thesis by (intro exI [of _ "[]"] exI [of _ t]) simp
  qed
qed simp

lemma var_split:
  assumes "str_find ''${'' (drop start s) = Some pos"
    and "scan_brace (drop (start + pos + 2) s) (start + pos + 2) 1 = (e, 0)"
  shows "s = take (start + pos) s @ ''${'' @ take (e - (start + pos + 2)) (drop (start + pos + 2) s) @ ''}''
    @ drop (e + 1) s"
proof -
  obtain r where r: "drop (start + pos) s = ''${'' @ r"
    using str_find_Some [OF assms(1)] by (auto simp: prefix_def add.commute)
  then have r': "drop (start + pos + 2) s = r"
    by (metis append_eq_conv_conj drop_drop length_Cons list.size(3) numeral_2_eq_2 add.commute)
  obtain v u where v: "r = v @ CHR ''}'' # u" "e = start + pos + 2 + length v"
    using scan_brace_close [OF assms(2)] r' by auto
  have "drop (e + 1) s = drop (Suc (length v)) (drop (start + pos + 2) s)"
    by (simp add: v(2) add.commute add.left_commute)
  also have "\<dots> = u" unfolding r' v(1) by simp
  finally have "drop (e + 1) s = u" .
  moreover have "s = take (start + pos) s @ ''${'' @ v @ ''}'' @ u"
    using r v(1) append_take_drop_id [of "start + pos" s] by simp
  ultimately show ?thesis using v r' by simp
qed

definition quiet :: "(string \<Rightarrow> string list option) \<Rightarrow> bool" where
  "quiet rv \<longleftrightarrow> (\<forall>v vs. rv v = Some vs \<longrightarrow> (\<forall>x \<in> set vs. dollars x = 0))"

definition settles :: "(nat \<Rightarrow> 'a option) \<Rightarrow> 'a \<Rightarrow> bool" where
  "settles g r \<longleftrightarrow> (\<exists>N. \<forall>f \<ge> N. g f = Some r)"

lemma settles_const [intro]: "settles (\<lambda>f. Some r) r"
  by (simp add: settles_def)

lemma settles_bind:
  assumes "settles g r" and "settles (\<lambda>f. h f r) r'"
  shows "settles (\<lambda>f. case g f of None \<Rightarrow> None | Some x \<Rightarrow> h f x) r'"
proof -
  obtain N M where "\<forall>f \<ge> N. g f = Some r" "\<forall>f \<ge> M. h f r = Some r'"
    using assms by (auto simp: settles_def)
  then show ?thesis unfolding settles_def by (intro exI [of _ "max N M"]) simp
qed

text \<open>The nested call at fuel \<open>f\<close>, and what is known of it below a number of dollar signs\<close>

definition nested_ok :: "(string \<Rightarrow> string list option) \<Rightarrow> nat \<Rightarrow> bool" where
  "nested_ok rv k \<longleftrightarrow> (\<forall>v. dollars v < k \<longrightarrow>
    (\<exists>r. settles (\<lambda>f. resolve_aws_variables f rv v) r \<and> (\<forall>x \<in> set r. dollars x \<le> dollars v)))"

lemma replace_var_found:
  assumes "str_find ''${'' (drop start s) = Some pos"
    and "scan_brace (drop (start + pos + 2) s) (start + pos + 2) 1 = (e, 0)"
    and "v = take (e - (start + pos + 2)) (drop (start + pos + 2) s)"
    and "w = (\<lambda>x. take (start + pos) s @ x @ drop (e + 1) s)"
  shows "replace_var inner rv s start =
    (if contains ''${'' v
     then (case inner v of None \<Rightarrow> None
           | Some ri \<Rightarrow> if ri \<noteq> [] then Some (Some (map w ri)) else replace_var inner rv s (e + 1))
     else (case rv v of
             Some vs \<Rightarrow> if vs \<noteq> [] then Some (Some (map w vs)) else Some (Some [w []])
           | None \<Rightarrow> replace_var inner rv s (e + 1)))"
  unfolding assms(3,4)
  by (subst replace_var.simps)
    (simp only: assms(1,2) option.case Let_def prod.case simp_thms if_True append_Nil)

lemma found_dollars:
  assumes "str_find ''${'' (drop start s) = Some pos"
    and "scan_brace (drop (start + pos + 2) s) (start + pos + 2) 1 = (e, 0)"
    and "v = take (e - (start + pos + 2)) (drop (start + pos + 2) s)"
    and "w = (\<lambda>x. take (start + pos) s @ x @ drop (e + 1) s)"
  shows "dollars v < dollars s" and "dollars x \<le> dollars v \<Longrightarrow> dollars (w x) < dollars s"
proof -
  have "s = take (start + pos) s @ ''${'' @ v @ ''}'' @ drop (e + 1) s"
    unfolding assms(3) by (rule var_split [OF assms(1,2)])
  then have d: "dollars s = dollars (take (start + pos) s @ ''${'' @ v @ ''}'' @ drop (e + 1) s)"
    by (rule arg_cong)
  then show "dollars v < dollars s" by simp
  show "dollars (w x) < dollars s" if "dollars x \<le> dollars v" using d that by (simp add: assms(4))
qed

lemma replace_var_settles:
  assumes "quiet rv" and "nested_ok rv (dollars s)"
  shows "\<exists>r. settles (\<lambda>f. replace_var (resolve_aws_variables f rv) rv s start) r
    \<and> (\<forall>new. r = Some new \<longrightarrow> (\<forall>x \<in> set new. dollars x < dollars s))"
proof (induction "length s - start" arbitrary: start rule: less_induct)
  case less
  show ?case
  proof (cases "str_find ''${'' (drop start s)")
    case None
    then show ?thesis by (intro exI [of _ None]) (auto simp: replace_var.simps)
  next
    case pos: (Some pos)
    obtain e n where sc: "scan_brace (drop (start + pos + 2) s) (start + pos + 2) 1 = (e, n)"
      by fastforce
    show ?thesis
    proof (cases "n = 0")
      case False
      then show ?thesis using pos sc by (intro exI [of _ None]) (auto simp: replace_var.simps Let_def)
    next
      case True
      define v where "v = take (e - (start + pos + 2)) (drop (start + pos + 2) s)"
      define w where "w = (\<lambda>x. take (start + pos) s @ x @ drop (e + 1) s)"
      note found = pos sc [unfolded True] v_def w_def
      note unf = replace_var_found [OF found] and d = found_dollars [OF found]
      have "length s - (e + 1) < length s - start"
        using scan_progress [OF pos, of e n] sc by (simp add: eq_commute)
      then obtain r where again: "settles (\<lambda>f. replace_var (resolve_aws_variables f rv) rv s (e + 1)) r"
        "\<forall>new. r = Some new \<longrightarrow> (\<forall>x \<in> set new. dollars x < dollars s)"
        using less by blast
      show ?thesis
      proof (cases "contains ''${'' v")
        case nested: True
        obtain ri where ri: "settles (\<lambda>f. resolve_aws_variables f rv v) ri"
          "\<forall>x \<in> set ri. dollars x \<le> dollars v"
          using assms(2) d(1) unfolding nested_ok_def by blast
        show ?thesis
        proof (cases "ri = []")
          case True
          have "settles (\<lambda>f. replace_var (resolve_aws_variables f rv) rv s start) r"
            unfolding unf if_P [OF nested]
            by (rule settles_bind [OF ri(1)]) (simp only: True simp_thms if_False again(1))
          then show ?thesis using again(2) by blast
        next
          case False
          have "settles (\<lambda>f. replace_var (resolve_aws_variables f rv) rv s start) (Some (map w ri))"
            unfolding unf if_P [OF nested]
            by (rule settles_bind [OF ri(1)]) (simp only: False simp_thms if_True settles_const)
          then show ?thesis using ri(2) d(2) by (intro exI [of _ "Some (map w ri)"]) auto
        qed
      next
        case plain: False
        show ?thesis
        proof (cases "rv v")
          case None
          then show ?thesis using again unfolding unf if_not_P [OF plain] by auto
        next
          case (Some vs)
          let ?new = "if vs \<noteq> [] then map w vs else [w []]"
          have "\<forall>x \<in> set ?new. dollars x < dollars s"
            using assms(1) Some d(2) unfolding quiet_def by auto
          moreover have "settles (\<lambda>f. replace_var (resolve_aws_variables f rv) rv s start) (Some ?new)"
            unfolding unf if_not_P [OF plain] Some by (cases "vs = []") (simp_all add: settles_const)
          ultimately show ?thesis by blast
        qed
      qed
    qed
  qed
qed

definition pass_ok :: "(string \<Rightarrow> string list option) \<Rightarrow> nat \<Rightarrow> string list \<Rightarrow> bool" where
  "pass_ok rv k queue \<longleftrightarrow> (\<exists>r N. (\<forall>f \<ge> N. \<forall>n \<ge> N.
      resolve_single_pass n (resolve_aws_variables f rv) rv queue = Some r) \<and> (\<forall>x \<in> set r. dollars x \<le> k))"

lemma pass_ok_Nil: "pass_ok rv k []"
proof -
  have "resolve_single_pass n (resolve_aws_variables f rv) rv [] = Some []" if "n \<ge> 1" for f n
    using that by (cases n) simp_all
  then show ?thesis unfolding pass_ok_def by (intro exI [of _ "[]"] exI [of _ 1]) simp
qed

lemma pass_ok_step:
  assumes "settles (\<lambda>f. replace_var (resolve_aws_variables f rv) rv s 0) r" and "dollars s \<le> k"
    and "pass_ok rv k (case r of None \<Rightarrow> rest | Some new \<Rightarrow> new @ rest)"
  shows "pass_ok rv k (s # rest)"
proof -
  obtain N where N: "\<And>f. f \<ge> N \<Longrightarrow> replace_var (resolve_aws_variables f rv) rv s 0 = Some r"
    using assms(1) by (auto simp: settles_def)
  obtain q M where M: "\<And>f n. f \<ge> M \<Longrightarrow> n \<ge> M \<Longrightarrow>
      resolve_single_pass n (resolve_aws_variables f rv) rv (case r of None \<Rightarrow> rest | Some new \<Rightarrow> new @ rest) = Some q"
    and q: "\<forall>x \<in> set q. dollars x \<le> k"
    using assms(3) unfolding pass_ok_def by blast
  let ?q = "case r of None \<Rightarrow> s # q | Some _ \<Rightarrow> q"
  have "resolve_single_pass n (resolve_aws_variables f rv) rv (s # rest) = Some ?q"
    if f: "f \<ge> Suc (max N M)" and n: "n \<ge> Suc (max N M)" for f n
  proof -
    obtain m where "n = Suc m" "m \<ge> M" using n by (cases n) auto
    moreover have "f \<ge> N" "f \<ge> M" using f by simp_all
    ultimately show ?thesis using N [of f] M [of f m] by (cases r) simp_all
  qed
  moreover have "\<forall>x \<in> set ?q. dollars x \<le> k" using q assms(2) by (auto split: option.splits)
  ultimately show ?thesis unfolding pass_ok_def by blast
qed

lemma pass_ok_append:
  assumes "quiet rv" and "nested_ok rv k" and "d \<le> k"
    and "\<forall>s \<in> set ss. dollars s \<le> d" and "pass_ok rv k rest"
  shows "pass_ok rv k (ss @ rest)"
  using assms(3-)
proof (induction d arbitrary: ss rest rule: less_induct)
  case (less d)
  from less.prems(2) show ?case
  proof (induction ss)
    case Nil
    then show ?case using less.prems(3) by simp
  next
    case (Cons s ss)
    have "nested_ok rv (dollars s)" using assms(2) less.prems(1) Cons.prems by (auto simp: nested_ok_def)
    then obtain r where r: "settles (\<lambda>f. replace_var (resolve_aws_variables f rv) rv s 0) r"
      "\<And>new x. r = Some new \<Longrightarrow> x \<in> set new \<Longrightarrow> dollars x < dollars s"
      using replace_var_settles [OF assms(1), of s 0] by blast
    have rest: "pass_ok rv k (ss @ rest)" using Cons by simp
    have "pass_ok rv k (case r of None \<Rightarrow> ss @ rest | Some new \<Rightarrow> new @ ss @ rest)"
    proof (cases r)
      case (Some new)
      show ?thesis
      proof (cases "new = []")
        case False
        then have "0 < dollars s" using r(2) [OF Some, of "hd new"] by simp
        then have "dollars s - 1 < d" "dollars s - 1 \<le> k" using Cons.prems less.prems(1) by auto
        moreover have "\<forall>x \<in> set new. dollars x \<le> dollars s - 1" using r(2) [OF Some] by fastforce
        ultimately show ?thesis using less.IH rest Some by simp
      qed (use rest Some in simp)
    qed (use rest in simp)
    moreover have "dollars s \<le> k" using Cons.prems less.prems(1) by simp
    ultimately show ?case using pass_ok_step [OF r(1)] by simp
  qed
qed

lemma set_dedup: "set (dedup seen xs) = set xs - seen"
  by (induction seen xs rule: dedup.induct) auto

lemma those_settles:
  assumes "\<forall>r \<in> set results. pass_ok rv k [r]"
  shows "\<exists>rs. settles (\<lambda>f. those (map (\<lambda>r. resolve_single_pass f (resolve_aws_variables f rv) rv [r]) results)) rs
    \<and> (\<forall>q \<in> set rs. \<forall>x \<in> set q. dollars x \<le> k)"
  using assms
proof (induction results)
  case (Cons a results)
  let ?g = "\<lambda>f r. resolve_single_pass f (resolve_aws_variables f rv) rv [r]"
  obtain rs N where rs: "\<And>f. f \<ge> N \<Longrightarrow> those (map (?g f) results) = Some rs"
    "\<forall>q \<in> set rs. \<forall>x \<in> set q. dollars x \<le> k"
    using Cons by (auto simp: settles_def)
  obtain q M where q: "\<And>f. f \<ge> M \<Longrightarrow> ?g f a = Some q" "\<forall>x \<in> set q. dollars x \<le> k"
    using Cons.prems unfolding pass_ok_def by (meson list.set_intros(1))
  have "settles (\<lambda>f. those (map (?g f) (a # results))) (q # rs)"
    unfolding settles_def by (rule exI [of _ "max N M"]) (use rs(1) q(1) in simp)
  moreover have "\<forall>q' \<in> set (q # rs). \<forall>x \<in> set q'. dollars x \<le> k" using rs(2) q(2) by simp
  ultimately show ?case by blast
qed (auto simp: settles_def)

lemma resolve_iter_settles:
  assumes "quiet rv" and "nested_ok rv k" and "\<forall>s \<in> set results. dollars s \<le> k"
  shows "\<exists>r. settles (\<lambda>f. resolve_iter (resolve_single_pass f (resolve_aws_variables f rv) rv) turns results) r
    \<and> (\<forall>x \<in> set r. dollars x \<le> k)"
  using assms(3)
proof (induction turns arbitrary: results)
  case 0
  then show ?case by (intro exI [of _ results]) (auto simp: settles_def)
next
  case (Suc turns)
  have "\<forall>r \<in> set results. pass_ok rv k [r]"
    using pass_ok_append [OF assms(1,2) order_refl _ pass_ok_Nil, of "[_]"] Suc.prems by simp
  then obtain rs where rs: "settles (\<lambda>f. those (map (\<lambda>r. resolve_single_pass f (resolve_aws_variables f rv) rv [r]) results)) rs"
    "\<forall>q \<in> set rs. \<forall>x \<in> set q. dollars x \<le> k"
    using those_settles by blast
  have "\<forall>x \<in> set (dedup {} (concat rs)). dollars x \<le> k" using rs(2) by (auto simp: set_dedup)
  then obtain r where r: "settles (\<lambda>f. resolve_iter (resolve_single_pass f (resolve_aws_variables f rv) rv) turns
      (dedup {} (concat rs))) r" "\<forall>x \<in> set r. dollars x \<le> k"
    using Suc.IH by blast
  let ?changed = "list_ex (\<lambda>(r, rs). pass_changed r rs) (zip results rs)"
  have "settles (\<lambda>f. resolve_iter (resolve_single_pass f (resolve_aws_variables f rv) rv) (Suc turns) results)
      (if ?changed then r else dedup {} (concat rs))"
    unfolding resolve_iter.simps Let_def
    by (rule settles_bind [OF rs(1)]) (use r(1) in \<open>simp add: settles_const\<close>)
  moreover have "\<forall>x \<in> set (if ?changed then r else dedup {} (concat rs)). dollars x \<le> k"
    using r(2) rs(2) by (auto simp: set_dedup)
  ultimately show ?case by blast
qed

lemma resolve_settles:
  assumes "quiet rv"
  shows "\<exists>r. settles (\<lambda>f. resolve_aws_variables f rv p) r \<and> (\<forall>x \<in> set r. dollars x \<le> dollars p)"
proof (induction "dollars p" arbitrary: p rule: less_induct)
  case less
  then have "nested_ok rv (dollars p)" by (simp add: nested_ok_def)
  from resolve_iter_settles [OF assms this, of "[p]" 10] obtain r N where
    r: "\<And>f. f \<ge> N \<Longrightarrow> resolve_iter (resolve_single_pass f (resolve_aws_variables f rv) rv) 10 [p] = Some r"
    "\<forall>x \<in> set r. dollars x \<le> dollars p"
    by (auto simp: settles_def)
  have "resolve_aws_variables f rv p = Some r" if "f \<ge> Suc N" for f
  proof -
    obtain g where "f = Suc g" "g \<ge> N" using \<open>f \<ge> Suc N\<close> by (cases f) auto
    then show ?thesis using r(1) [of g] by simp
  qed
  then show ?case using r(2) unfolding settles_def by blast
qed

text \<open>
  C23: When no value a variable can take contains a dollar sign, the substitution of variables in a
  pattern returns: some result is reached and kept by every larger amount of fuel, and none
  of its texts has more dollar signs than the pattern.
\<close>

theorem substitution_returns:
  assumes "\<forall>v vs x. rv v = Some vs \<longrightarrow> x \<in> set vs \<longrightarrow> CHR ''$'' \<notin> set x"
  shows "\<exists>r N. (\<forall>f \<ge> N. resolve_aws_variables f rv p = Some r)
    \<and> (\<forall>x \<in> set r. count_list x (CHR ''$'') \<le> count_list p (CHR ''$''))"
proof -
  have "quiet rv" using assms by (auto simp: quiet_def dollars_def count_list_0_iff)
  from resolve_settles [OF this, of p] show ?thesis by (auto simp: settles_def dollars_def)
qed

theorem substitution_returns_witness:
  "\<exists>f r. resolve_aws_variables f (resolve_multiple \<lparr>clock_rfc3339 = ''now'', clock_epoch = ''0''\<rparr>
      (VariableContext_new\<lparr>username := Some ''bob''\<rparr>)) ''home/${aws:username}/*'' = Some r"
proof -
  let ?rv = "resolve_multiple \<lparr>clock_rfc3339 = ''now'', clock_epoch = ''0''\<rparr>
      (VariableContext_new\<lparr>username := Some ''bob''\<rparr>)"
  have "\<forall>v vs x. ?rv v = Some vs \<longrightarrow> x \<in> set vs \<longrightarrow> CHR ''$'' \<notin> set x"
    by (auto simp: resolve_multiple_def resolve_var_def VariableContext_new_def userid_strings_def
        or_else_def get_claim_as_strings_def resolve_userid_def resolve_principal_type_def
        show_bool_def resolve_custom_variable_def split: if_splits)
  from substitution_returns [OF this, of "''home/${aws:username}/*''"] show ?thesis by blast
qed

text \<open>
  An account whose name is the text of its own variable makes the substitution loop for ever:
  the single pass replaces the variable by itself and examines the result again, so the
  limit of ten iterations outside it is never reached. No amount of fuel gives a result.
\<close>

theorem self_reference_never_returns:
  "resolve_aws_variables f
    (resolve_multiple now (VariableContext_new\<lparr>username := Some ''${aws:username}''\<rparr>)) ''${aws:username}''
   = None"
proof -
  let ?rv = "resolve_multiple now (VariableContext_new\<lparr>username := Some ''${aws:username}''\<rparr>)"
  have rv: "?rv ''aws:username'' = Some [''${aws:username}'']"
    by (simp add: resolve_multiple_def)
  have "replace_var inner ?rv ''${aws:username}'' 0 = Some (Some [''${aws:username}''])" for inner
    by (subst replace_var.simps) (simp add: rv contains_def Let_def sublist_code)
  then have "resolve_single_pass n inner ?rv [''${aws:username}''] = None" for n inner
    by (induction n) simp_all
  then show ?thesis by (cases f) (simp_all add: numeral_eq_Suc)
qed

end
