(* ===== verification/PolicyCond.thy ===== *)
theory PolicyCond
  imports PolicyNames PolicyVars
begin

text \<open>
  Policy conditions (\<open>crates/policy/src/policy/function.rs\<close> and \<open>function/\<close>): the operators, their
  evaluation on the values of a request and their textual names. Texts of IP networks and dates
  are interpreted by the libraries \<open>ipnetwork\<close> and \<open>time\<close>, and lower case by the Unicode tables;
  all three are arguments. \<open>None\<close> is a panic, or a substitution of variables that has not returned.
\<close>

section \<open>Short-circuit loops\<close>

fun every :: "('a \<Rightarrow> bool option) \<Rightarrow> 'a list \<Rightarrow> bool option" where
  "every P [] = Some True"
| "every P (x # xs) =
    (case P x of None \<Rightarrow> None | Some b \<Rightarrow> if b then every P xs else Some False)"

fun any_of :: "('a \<Rightarrow> bool option) \<Rightarrow> 'a list \<Rightarrow> bool option" where
  "any_of P [] = Some False"
| "any_of P (x # xs) =
    (case P x of None \<Rightarrow> None | Some b \<Rightarrow> if b then Some True else any_of P xs)"

lemma every_append:
  "every P (xs @ ys) = (case every P xs of None \<Rightarrow> None | Some b \<Rightarrow> if b then every P ys else Some False)"
  by (induction xs) (auto split: option.splits)

lemma every_True: "every P xs = Some True \<longleftrightarrow> (\<forall>x \<in> set xs. P x = Some True)"
  by (induction xs) (auto split: option.splits)

lemma any_of_True_imp: "any_of P xs = Some True \<Longrightarrow> \<exists>x \<in> set xs. P x = Some True"
  by (induction xs) (auto split: option.splits if_splits)

lemma any_of_False: "any_of P xs = Some False \<longleftrightarrow> (\<forall>x \<in> set xs. P x = Some False)"
  by (induction xs) (auto split: option.splits)

lemma every_False_imp: "every P xs = Some False \<Longrightarrow> \<exists>x \<in> set xs. P x = Some False"
  by (induction xs) (auto split: option.splits if_splits)

lemma every_total: "(\<And>x. x \<in> set xs \<Longrightarrow> P x = Some (Q x)) \<Longrightarrow> every P xs = Some (list_all Q xs)"
  by (induction xs) auto

lemma any_of_total: "(\<And>x. x \<in> set xs \<Longrightarrow> P x = Some (Q x)) \<Longrightarrow> any_of P xs = Some (list_ex Q xs)"
  by (induction xs) auto

section \<open>Operators and their data\<close>

text \<open>\<open>InnerFunc<T>\<close>: pairs of a key and the values the policy gives it\<close>

record 'v FuncKeyValue =
  fk_key :: Key
  fk_values :: 'v

type_synonym values_map = "string \<rightharpoonup> string list"
type_synonym StringFunc = "string list FuncKeyValue list"
type_synonym BinaryFunc = "string FuncKeyValue list"
type_synonym AddrFunc = "string list FuncKeyValue list"
type_synonym BoolFunc = "bool FuncKeyValue list"
type_synonym NumberFunc = "int FuncKeyValue list"
type_synonym DateFunc = "int FuncKeyValue list"

datatype Condition =
    StringEquals StringFunc
  | StringNotEquals StringFunc
  | StringEqualsIgnoreCase StringFunc
  | StringNotEqualsIgnoreCase StringFunc
  | StringLike StringFunc
  | StringNotLike StringFunc
  | BinaryEquals BinaryFunc
  | IpAddress AddrFunc
  | NotIpAddress AddrFunc
  | NullCond BoolFunc
  | BoolCond BoolFunc
  | NumericEquals NumberFunc
  | NumericNotEquals NumberFunc
  | NumericLessThan NumberFunc
  | NumericLessThanEquals NumberFunc
  | NumericGreaterThan NumberFunc
  | NumericGreaterThanIfExists NumberFunc
  | NumericGreaterThanEquals NumberFunc
  | DateEquals DateFunc
  | DateNotEquals DateFunc
  | DateLessThan DateFunc
  | DateLessThanEquals DateFunc
  | DateGreaterThan DateFunc
  | DateGreaterThanEquals DateFunc

text \<open>The libraries: lower case, address texts, membership of an address in a network, RFC 3339 dates\<close>

record cond_env =
  to_lower :: "string \<Rightarrow> string"
  parse_ip :: "string \<Rightarrow> nat option"
  net_contains :: "string \<Rightarrow> nat \<Rightarrow> bool"
  parse_date :: "string \<Rightarrow> int option"

section \<open>Strings\<close>

definition resolve_value :: "(string \<Rightarrow> string list option) option \<Rightarrow> string \<Rightarrow> string list option" where
  "resolve_value resolver c = (case resolver of Some res \<Rightarrow> res c | None \<Rightarrow> Some [c])"

text \<open>
  The loop over \<open>COMMON_KEYS\<close>: the first key the request has a value for is substituted and ends
  the loop.
\<close>

fun substitute_first :: "values_map \<Rightarrow> KeyName list \<Rightarrow> string \<Rightarrow> string" where
  "substitute_first values [] c = c"
| "substitute_first values (key # keys) c =
    (case values (KeyName_name key) of
       Some (v # vs) \<Rightarrow>
         if v \<noteq> [] then str_replace (KeyName_var_name key) v c else substitute_first values keys c
     | _ \<Rightarrow> substitute_first values keys c)"

definition resolved_values ::
  "values_map \<Rightarrow> (string \<Rightarrow> string list option) option \<Rightarrow> string list \<Rightarrow> string list option" where
  "resolved_values values resolver cs =
    map_option (\<lambda>rs. map (substitute_first values COMMON_KEYS) (concat rs)) (those (map (resolve_value resolver) cs))"

definition String_eval ::
  "cond_env \<Rightarrow> bool \<Rightarrow> bool \<Rightarrow> values_map \<Rightarrow> (string \<Rightarrow> string list option) option
    \<Rightarrow> string list FuncKeyValue \<Rightarrow> bool option" where
  "String_eval env for_all ignore_case values resolver inner =
    (let fold_case = (if ignore_case then to_lower env else (\<lambda>x. x));
         rvalues = remdups (map fold_case (case values (Key_name (fk_key inner)) of Some t \<Rightarrow> t | None \<Rightarrow> []))
     in case resolved_values values resolver (fk_values inner) of
          None \<Rightarrow> None
        | Some resolved \<Rightarrow>
            (let fvalues = map fold_case resolved;
                 ivalues = filter (\<lambda>x. x \<in> set fvalues) rvalues
             in Some (if for_all then rvalues = [] \<or> length rvalues = length ivalues
                      else 0 < length ivalues)))"

fun like_loop :: "bool \<Rightarrow> (string list) option \<Rightarrow> string list \<Rightarrow> bool option" where
  "like_loop for_all patterns [] = Some for_all"
| "like_loop for_all patterns (v # vs) =
    (case patterns of
       None \<Rightarrow> None
     | Some ps \<Rightarrow>
         (let matched = list_ex (\<lambda>x. is_match x v) ps
          in if for_all then (if \<not> matched then Some False else like_loop for_all patterns vs)
             else if matched then Some True else like_loop for_all patterns vs))"

definition String_eval_like ::
  "bool \<Rightarrow> values_map \<Rightarrow> (string \<Rightarrow> string list option) option \<Rightarrow> string list FuncKeyValue \<Rightarrow> bool option" where
  "String_eval_like for_all values resolver inner =
    (case values (Key_name (fk_key inner)) of
       Some rvalues \<Rightarrow> like_loop for_all (resolved_values values resolver (fk_values inner)) rvalues
     | None \<Rightarrow> Some for_all)"

definition StringFunc_evaluate ::
  "cond_env \<Rightarrow> bool \<Rightarrow> bool \<Rightarrow> bool \<Rightarrow> bool \<Rightarrow> values_map \<Rightarrow> (string \<Rightarrow> string list option) option
    \<Rightarrow> StringFunc \<Rightarrow> bool option" where
  "StringFunc_evaluate env for_all ignore_case like negate values resolver self =
    every (\<lambda>inner. map_option (\<lambda>r. r \<noteq> negate)
      (if like then String_eval_like for_all values resolver inner
       else String_eval env for_all ignore_case values resolver inner)) self"

section \<open>Numbers, dates, addresses, booleans\<close>

text \<open>\<open>str::parse::<i64>\<close>: an optional sign, at least one digit, and the range of 64 bits\<close>

definition is_digit :: "char \<Rightarrow> bool" where
  "is_digit c \<longleftrightarrow> 48 \<le> (of_char c :: nat) \<and> of_char c \<le> (57 :: nat)"

definition digits_value :: "string \<Rightarrow> int" where
  "digits_value = foldl (\<lambda>n c. 10 * n + (int (of_char c) - 48)) 0"

definition parse_i64 :: "string \<Rightarrow> int option" where
  "parse_i64 s =
    (let neg = (s \<noteq> [] \<and> hd s = CHR ''-'');
         ds = (if s \<noteq> [] \<and> (hd s = CHR ''-'' \<or> hd s = CHR ''+'') then tl s else s);
         v = (if neg then - digits_value ds else digits_value ds)
     in if ds \<noteq> [] \<and> list_all is_digit ds \<and> - (2 ^ 63) \<le> v \<and> v < 2 ^ 63 then Some v else None)"

definition first_value :: "values_map \<Rightarrow> Key \<Rightarrow> string option" where
  "first_value values key =
    (case values (Key_name key) of Some (x # _) \<Rightarrow> Some x | _ \<Rightarrow> None)"

fun Number_evaluate :: "(int \<Rightarrow> int \<Rightarrow> bool) \<Rightarrow> bool \<Rightarrow> values_map \<Rightarrow> NumberFunc \<Rightarrow> bool" where
  "Number_evaluate op if_exists values [] = True"
| "Number_evaluate op if_exists values (inner # rest) =
    (case first_value values (fk_key inner) of
       None \<Rightarrow> if_exists
     | Some v \<Rightarrow>
         (case parse_i64 v of
            None \<Rightarrow> False
          | Some rv \<Rightarrow>
              if op rv (fk_values inner) then Number_evaluate op if_exists values rest else False))"

fun Date_evaluate :: "cond_env \<Rightarrow> (int \<Rightarrow> int \<Rightarrow> bool) \<Rightarrow> values_map \<Rightarrow> DateFunc \<Rightarrow> bool" where
  "Date_evaluate env op values [] = True"
| "Date_evaluate env op values (inner # rest) =
    (case first_value values (fk_key inner) of
       None \<Rightarrow> False
     | Some v \<Rightarrow>
         (case parse_date env v of
            None \<Rightarrow> False
          | Some rv \<Rightarrow>
              if op (fk_values inner) rv then Date_evaluate env op values rest else False))"

text \<open>The loop over the addresses of one key: \<open>Some\<close> is a return, \<open>None\<close> falls through.\<close>

fun addr_loop :: "cond_env \<Rightarrow> string list \<Rightarrow> string list \<Rightarrow> bool option" where
  "addr_loop env nets [] = None"
| "addr_loop env nets (r # rs) =
    (case parse_ip env r of
       None \<Rightarrow> Some False
     | Some ip \<Rightarrow>
         if list_ex (\<lambda>net. net_contains env net ip) nets then Some True
         else addr_loop env nets rs)"

fun Addr_evaluate :: "cond_env \<Rightarrow> values_map \<Rightarrow> AddrFunc \<Rightarrow> bool" where
  "Addr_evaluate env values [] = False"
| "Addr_evaluate env values (inner # rest) =
    (case addr_loop env (fk_values inner)
            (case values (Key_name (fk_key inner)) of Some t \<Rightarrow> t | None \<Rightarrow> []) of
       Some r \<Rightarrow> r
     | None \<Rightarrow> Addr_evaluate env values rest)"

definition Bool_evaluate_bool :: "values_map \<Rightarrow> BoolFunc \<Rightarrow> bool" where
  "Bool_evaluate_bool values self =
    list_all (\<lambda>inner. first_value values (fk_key inner) = Some (show_bool (fk_values inner))) self"

definition Bool_evaluate_null :: "values_map \<Rightarrow> BoolFunc \<Rightarrow> bool" where
  "Bool_evaluate_null values self =
    list_all (\<lambda>inner.
      let len = (case values (Key_name (fk_key inner)) of Some t \<Rightarrow> length t | None \<Rightarrow> 0)
      in if fk_values inner then len = 0 else len \<noteq> 0) self"

section \<open>Conditions\<close>

fun is_negate :: "Condition \<Rightarrow> bool" where
  "is_negate (StringNotEquals _) = True"
| "is_negate (StringNotEqualsIgnoreCase _) = True"
| "is_negate (NotIpAddress _) = True"
| "is_negate _ = False"

text \<open>The match before the negation. \<open>BinaryEquals\<close> is \<open>todo!()\<close>.\<close>

primrec Condition_match ::
  "cond_env \<Rightarrow> bool \<Rightarrow> values_map \<Rightarrow> (string \<Rightarrow> string list option) option \<Rightarrow> Condition \<Rightarrow> bool option" where
  "Condition_match env for_all values resolver (StringEquals s) =
    StringFunc_evaluate env for_all False False False values resolver s"
| "Condition_match env for_all values resolver (StringNotEquals s) =
    StringFunc_evaluate env for_all False False True values resolver s"
| "Condition_match env for_all values resolver (StringEqualsIgnoreCase s) =
    StringFunc_evaluate env for_all True False False values resolver s"
| "Condition_match env for_all values resolver (StringNotEqualsIgnoreCase s) =
    StringFunc_evaluate env for_all True False True values resolver s"
| "Condition_match env for_all values resolver (StringLike s) =
    StringFunc_evaluate env for_all False True False values resolver s"
| "Condition_match env for_all values resolver (StringNotLike s) =
    StringFunc_evaluate env for_all False True True values resolver s"
| "Condition_match env for_all values resolver (BinaryEquals s) = None"
| "Condition_match env for_all values resolver (IpAddress s) = Some (Addr_evaluate env values s)"
| "Condition_match env for_all values resolver (NotIpAddress s) = Some (Addr_evaluate env values s)"
| "Condition_match env for_all values resolver (NullCond s) = Some (Bool_evaluate_null values s)"
| "Condition_match env for_all values resolver (BoolCond s) = Some (Bool_evaluate_bool values s)"
| "Condition_match env for_all values resolver (NumericEquals s) = Some (Number_evaluate (=) False values s)"
| "Condition_match env for_all values resolver (NumericNotEquals s) = Some (Number_evaluate (\<noteq>) False values s)"
| "Condition_match env for_all values resolver (NumericLessThan s) = Some (Number_evaluate (<) False values s)"
| "Condition_match env for_all values resolver (NumericLessThanEquals s) = Some (Number_evaluate (\<le>) False values s)"
| "Condition_match env for_all values resolver (NumericGreaterThan s) = Some (Number_evaluate (>) False values s)"
| "Condition_match env for_all values resolver (NumericGreaterThanIfExists s) = Some (Number_evaluate (\<ge>) True values s)"
| "Condition_match env for_all values resolver (NumericGreaterThanEquals s) = Some (Number_evaluate (\<ge>) False values s)"
| "Condition_match env for_all values resolver (DateEquals s) = Some (Date_evaluate env (=) values s)"
| "Condition_match env for_all values resolver (DateNotEquals s) = Some (Date_evaluate env (\<noteq>) values s)"
| "Condition_match env for_all values resolver (DateLessThan s) = Some (Date_evaluate env (<) values s)"
| "Condition_match env for_all values resolver (DateLessThanEquals s) = Some (Date_evaluate env (\<le>) values s)"
| "Condition_match env for_all values resolver (DateGreaterThan s) = Some (Date_evaluate env (>) values s)"
| "Condition_match env for_all values resolver (DateGreaterThanEquals s) = Some (Date_evaluate env (\<ge>) values s)"

definition Condition_evaluate ::
  "cond_env \<Rightarrow> bool \<Rightarrow> values_map \<Rightarrow> (string \<Rightarrow> string list option) option \<Rightarrow> Condition \<Rightarrow> bool option" where
  "Condition_evaluate env for_all values resolver c =
    map_option (\<lambda>r. if is_negate c then \<not> r else r) (Condition_match env for_all values resolver c)"

record Functions =
  for_any_value :: "Condition list"
  for_all_values :: "Condition list"
  for_normal :: "Condition list"

definition Functions_evaluate ::
  "cond_env \<Rightarrow> values_map \<Rightarrow> (string \<Rightarrow> string list option) option \<Rightarrow> Functions \<Rightarrow> bool option" where
  "Functions_evaluate env values resolver self =
    (case every (Condition_evaluate env False values resolver) (for_any_value self) of
       None \<Rightarrow> None
     | Some b \<Rightarrow>
         if \<not> b then Some False
         else (case every (Condition_evaluate env True values resolver) (for_all_values self) of
                 None \<Rightarrow> None
               | Some b \<Rightarrow>
                   if \<not> b then Some False
                   else every (Condition_evaluate env False values resolver) (for_normal self)))"

definition Functions_is_empty :: "Functions \<Rightarrow> bool" where
  "Functions_is_empty self \<longleftrightarrow> for_all_values self = [] \<and> for_any_value self = [] \<and> for_normal self = []"

section \<open>Names of the operators and equality\<close>

primrec to_key :: "Condition \<Rightarrow> string" where
  "to_key (StringEquals _) = ''StringEquals''"
| "to_key (StringNotEquals _) = ''StringNotEquals''"
| "to_key (StringEqualsIgnoreCase _) = ''StringEqualsIgnoreCase''"
| "to_key (StringNotEqualsIgnoreCase _) = ''StringNotEqualsIgnoreCase''"
| "to_key (StringLike _) = ''StringLike''"
| "to_key (StringNotLike _) = ''StringNotLike''"
| "to_key (BinaryEquals _) = ''BinaryEquals''"
| "to_key (IpAddress _) = ''IpAddress''"
| "to_key (NotIpAddress _) = ''NotIpAddress''"
| "to_key (NullCond _) = ''Null''"
| "to_key (BoolCond _) = ''Bool''"
| "to_key (NumericEquals _) = ''NumericEquals''"
| "to_key (NumericNotEquals _) = ''NumericNotEquals''"
| "to_key (NumericLessThan _) = ''NumericLessThan''"
| "to_key (NumericLessThanEquals _) = ''NumericLessThanEquals''"
| "to_key (NumericGreaterThan _) = ''NumericGreaterThan''"
| "to_key (NumericGreaterThanIfExists _) = ''NumericGreaterThanIfExists''"
| "to_key (NumericGreaterThanEquals _) = ''NumericGreaterThanEquals''"
| "to_key (DateEquals _) = ''DateEquals''"
| "to_key (DateNotEquals _) = ''DateNotEquals''"
| "to_key (DateLessThan _) = ''DateLessThan''"
| "to_key (DateLessThanEquals _) = ''DateLessThanEquals''"
| "to_key (DateGreaterThan _) = ''DateGreaterThan''"
| "to_key (DateGreaterThanEquals _) = ''DateGreaterThanEquals''"

text \<open>The value that follows an operator in the document, read by the type the operator asks for\<close>

datatype payload =
    PString StringFunc
  | PBinary BinaryFunc
  | PAddr AddrFunc
  | PBool BoolFunc
  | PNumber NumberFunc
  | PDate DateFunc

primrec Condition_payload :: "Condition \<Rightarrow> payload" where
  "Condition_payload (StringEquals s) = PString s"
| "Condition_payload (StringNotEquals s) = PString s"
| "Condition_payload (StringEqualsIgnoreCase s) = PString s"
| "Condition_payload (StringNotEqualsIgnoreCase s) = PString s"
| "Condition_payload (StringLike s) = PString s"
| "Condition_payload (StringNotLike s) = PString s"
| "Condition_payload (BinaryEquals s) = PBinary s"
| "Condition_payload (IpAddress s) = PAddr s"
| "Condition_payload (NotIpAddress s) = PAddr s"
| "Condition_payload (NullCond s) = PBool s"
| "Condition_payload (BoolCond s) = PBool s"
| "Condition_payload (NumericEquals s) = PNumber s"
| "Condition_payload (NumericNotEquals s) = PNumber s"
| "Condition_payload (NumericLessThan s) = PNumber s"
| "Condition_payload (NumericLessThanEquals s) = PNumber s"
| "Condition_payload (NumericGreaterThan s) = PNumber s"
| "Condition_payload (NumericGreaterThanIfExists s) = PNumber s"
| "Condition_payload (NumericGreaterThanEquals s) = PNumber s"
| "Condition_payload (DateEquals s) = PDate s"
| "Condition_payload (DateNotEquals s) = PDate s"
| "Condition_payload (DateLessThan s) = PDate s"
| "Condition_payload (DateLessThanEquals s) = PDate s"
| "Condition_payload (DateGreaterThan s) = PDate s"
| "Condition_payload (DateGreaterThanEquals s) = PDate s"

primrec from_deserializer :: "string \<Rightarrow> payload \<Rightarrow> Condition option" where
  "from_deserializer key (PString s) =
    (if key = ''StringEquals'' then Some (StringEquals s)
     else if key = ''StringNotEquals'' then Some (StringNotEquals s)
     else if key = ''StringEqualsIgnoreCase'' then Some (StringEqualsIgnoreCase s)
     else if key = ''StringNotEqualsIgnoreCase'' then Some (StringNotEqualsIgnoreCase s)
     else if key = ''StringLike'' then Some (StringLike s)
     else if key = ''StringNotLike'' then Some (StringNotLike s)
     else None)"
| "from_deserializer key (PBinary s) = (if key = ''BinaryEquals'' then Some (BinaryEquals s) else None)"
| "from_deserializer key (PAddr s) =
    (if key = ''IpAddress'' then Some (IpAddress s)
     else if key = ''NotIpAddress'' then Some (NotIpAddress s)
     else None)"
| "from_deserializer key (PBool s) =
    (if key = ''Null'' then Some (NullCond s) else if key = ''Bool'' then Some (BoolCond s) else None)"
| "from_deserializer key (PNumber s) =
    (if key = ''NumericEquals'' then Some (NumericEquals s)
     else if key = ''NumericNotEquals'' then Some (NumericNotEquals s)
     else if key = ''NumericLessThan'' then Some (NumericLessThan s)
     else if key = ''NumericGreaterThan'' then Some (NumericGreaterThan s)
     else if key = ''NumericGreaterThanIfExists'' then Some (NumericGreaterThanIfExists s)
     else if key = ''NumericGreaterThanEquals'' then Some (NumericGreaterThanEquals s)
     else None)"
| "from_deserializer key (PDate s) =
    (if key = ''DateEquals'' then Some (DateEquals s)
     else if key = ''DateNotEquals'' then Some (DateNotEquals s)
     else if key = ''DateLessThanEquals'' then Some (DateLessThanEquals s)
     else if key = ''DateGreaterThan'' then Some (DateGreaterThan s)
     else if key = ''DateGreaterThanEquals'' then Some (DateGreaterThanEquals s)
     else None)"

text \<open>Equality: the values of a string operator are compared as sets.\<close>

definition StringFunc_eq :: "StringFunc \<Rightarrow> StringFunc \<Rightarrow> bool" where
  "StringFunc_eq a b =
    list_all2 (\<lambda>x y. fk_key x = fk_key y \<and> set (fk_values x) = set (fk_values y)) a b"

fun payload_eq :: "payload \<Rightarrow> payload \<Rightarrow> bool" where
  "payload_eq (PString a) (PString b) = StringFunc_eq a b"
| "payload_eq a b = (a = b)"

definition Condition_eq :: "Condition \<Rightarrow> Condition \<Rightarrow> bool" where
  "Condition_eq a b \<longleftrightarrow> to_key a = to_key b \<and> payload_eq (Condition_payload a) (Condition_payload b)"

definition Functions_eq :: "Functions \<Rightarrow> Functions \<Rightarrow> bool" where
  "Functions_eq self other \<longleftrightarrow>
    length (for_all_values self) = length (for_all_values other)
    \<and> length (for_any_value self) = length (for_any_value other)
    \<and> length (for_normal self) = length (for_normal other)
    \<and> list_all (\<lambda>x. list_ex (Condition_eq x) (for_any_value other)) (for_any_value self)
    \<and> list_all (\<lambda>x. list_ex (Condition_eq x) (for_all_values other)) (for_all_values self)
    \<and> list_all (\<lambda>x. list_ex (Condition_eq x) (for_normal other)) (for_normal self)"

section \<open>What the operators decide\<close>

lemma every_not: "every (\<lambda>x. map_option Not (P x)) xs = map_option Not (any_of P xs)"
  by (induction xs) (auto split: option.splits)

lemma not_not: "map_option Not (map_option Not r) = r"
  by (cases r) auto

text \<open>
  \<open>StringEquals\<close> holds when every key of the condition matches. Its negation is applied twice,
  once per key and once around the whole, so \<open>StringNotEquals\<close> holds when some key matches: with
  one key it decides exactly like \<open>StringEquals\<close>. The same holds when case is ignored.
  \<open>StringNotLike\<close>, which is negated once, holds when no key matches.
\<close>

theorem string_not_equals_twice_negated:
  "Condition_evaluate env fa values res (StringEquals s) = every (String_eval env fa False values res) s
   \<and> Condition_evaluate env fa values res (StringNotEquals s) = any_of (String_eval env fa False values res) s
   \<and> Condition_evaluate env fa values res (StringNotEquals [x]) = Condition_evaluate env fa values res (StringEquals [x])
   \<and> Condition_evaluate env fa values res (StringNotEqualsIgnoreCase s) = any_of (String_eval env fa True values res) s
   \<and> Condition_evaluate env fa values res (StringNotLike s) =
       map_option Not (any_of (String_eval_like fa values res) s)"
  by (simp add: Condition_evaluate_def StringFunc_evaluate_def every_not not_not option.map_ident
      split: option.split)

text \<open>
  A numeric operator compares the value of the request with the value of the policy, in this
  order. A date operator compares them the other way round, so \<open>DateLessThan\<close> holds for
  requests after the date of the policy, and \<open>DateGreaterThan\<close> for requests before it.
\<close>

theorem date_operators_swapped:
  "Condition_evaluate env fa values res (NumericLessThan [\<lparr>fk_key = k, fk_values = n\<rparr>]) =
     Some (\<exists>v t. first_value values k = Some v \<and> parse_i64 v = Some t \<and> t < n)
   \<and> Condition_evaluate env fa values res (NumericGreaterThan [\<lparr>fk_key = k, fk_values = n\<rparr>]) =
     Some (\<exists>v t. first_value values k = Some v \<and> parse_i64 v = Some t \<and> n < t)
   \<and> Condition_evaluate env fa values res (DateLessThan [\<lparr>fk_key = k, fk_values = n\<rparr>]) =
     Some (\<exists>v t. first_value values k = Some v \<and> parse_date env v = Some t \<and> n < t)
   \<and> Condition_evaluate env fa values res (DateGreaterThan [\<lparr>fk_key = k, fk_values = n\<rparr>]) =
     Some (\<exists>v t. first_value values k = Some v \<and> parse_date env v = Some t \<and> t < n)"
  by (auto simp: Condition_evaluate_def split: option.splits)

text \<open>
  A condition written to a document under the name of its operator reads back as itself, except
  for \<open>NumericLessThanEquals\<close> and \<open>DateLessThan\<close>, whose names the reader does not know.
\<close>

theorem condition_roundtrip:
  "from_deserializer (to_key c) (Condition_payload c) =
    (case c of
       NumericLessThanEquals _ \<Rightarrow> None
     | DateLessThan _ \<Rightarrow> None
     | _ \<Rightarrow> Some c)"
  by (cases c) simp_all

section \<open>Numbers as text\<close>

text \<open>\<open>i64::to_string\<close>\<close>

definition show_i64 :: "int \<Rightarrow> string" where
  "show_i64 n = (if n < 0 then CHR ''-'' # show_nat (nat (- n)) else show_nat (nat n))"

lemma of_char_digit: "d < 10 \<Longrightarrow> (of_char (char_of (48 + d) :: char) :: nat) = 48 + d"
  by (simp add: of_char_of)

lemma digit_char:
  assumes "d < 10"
  shows "is_digit (char_of (48 + d))" and "int (of_char (char_of (48 + d) :: char)) - 48 = int d"
  unfolding is_digit_def of_char_digit [OF assms] using assms by simp_all

lemma show_nat_digits: "list_all is_digit (show_nat n) \<and> show_nat n \<noteq> []"
proof (induction n rule: show_nat.induct)
  case (1 n)
  then show ?case
    by (subst (1 2) show_nat.simps) (use digit_char(1) [of n] digit_char(1) [of "n mod 10"] in auto)
qed

lemma digits_value_snoc: "digits_value (ds @ [c]) = 10 * digits_value ds + (int (of_char c) - 48)"
  by (simp add: digits_value_def)

lemma digits_show_nat: "digits_value (show_nat n) = int n"
proof (induction n rule: show_nat.induct)
  case (1 n)
  show ?case
  proof (cases "n < 10")
    case True
    then show ?thesis
      using digit_char(2) [OF True] by (subst show_nat.simps) (simp add: digits_value_def)
  next
    case False
    then have "digits_value (show_nat n) = 10 * int (n div 10) + int (n mod 10)"
      using 1 [OF False] digit_char(2) [of "n mod 10"]
      by (subst show_nat.simps) (simp add: digits_value_snoc)
    also have "\<dots> = int n" by presburger
    finally show ?thesis .
  qed
qed

lemma digit_not_sign: "is_digit c \<Longrightarrow> c \<noteq> CHR ''-'' \<and> c \<noteq> CHR ''+''"
  by (auto simp: is_digit_def)


end
