(* ===== verification/Policy.thy ===== *)
theory Policy
  imports PathClean PolicyCond
begin

text \<open>
  Resources, principals, statements and policies of the policy crate
  (\<open>crates/policy/src/policy/\<close>: \<open>resource.rs\<close>, \<open>principal.rs\<close>, \<open>effect.rs\<close>, \<open>statement.rs\<close>,
  \<open>policy.rs\<close>). Hash sets are lists in their iteration order. A decision is \<open>None\<close> when its
  evaluation panics or when a substitution of variables has not returned within the fuel.
\<close>

section \<open>Resources\<close>

datatype Resource = ResS3 string | ResKms string

definition S3_PREFIX :: string where
  "S3_PREFIX = ''arn:aws:s3:::''"

text \<open>The substitution of the condition keys in a resource pattern, one key after the other\<close>

fun substitute_all :: "values_map \<Rightarrow> KeyName list \<Rightarrow> string \<Rightarrow> string" where
  "substitute_all conditions [] p = p"
| "substitute_all conditions (key # keys) p =
    (case conditions (KeyName_name key) of
       Some (v # vs) \<Rightarrow>
         substitute_all conditions keys (if v \<noteq> [] then str_replace (KeyName_var_name key) v p else p)
     | _ \<Rightarrow> substitute_all conditions keys p)"

primrec Resource_pattern :: "Resource \<Rightarrow> string" where
  "Resource_pattern (ResS3 s) = s"
| "Resource_pattern (ResKms s) = s"

definition Resource_is_match ::
  "(string \<Rightarrow> string list option) option \<Rightarrow> values_map \<Rightarrow> string \<Rightarrow> Resource \<Rightarrow> bool option" where
  "Resource_is_match resolver conditions resource self =
    (case resolve_value resolver (Resource_pattern self) of
       None \<Rightarrow> None
     | Some patterns \<Rightarrow>
         any_of (\<lambda>pattern.
           let resolved_pattern = substitute_all conditions COMMON_KEYS pattern
           in case clean resource of
                None \<Rightarrow> None
              | Some cp \<Rightarrow>
                  Some (cp \<noteq> ''.'' \<and> cp = resolved_pattern \<or> is_match resolved_pattern resource)) patterns)"

definition ResourceSet_is_match ::
  "(string \<Rightarrow> string list option) option \<Rightarrow> values_map \<Rightarrow> string \<Rightarrow> Resource list \<Rightarrow> bool option" where
  "ResourceSet_is_match resolver conditions resource self =
    any_of (Resource_is_match resolver conditions resource) self"

definition ResourceSet_match_resource :: "string \<Rightarrow> Resource list \<Rightarrow> bool option" where
  "ResourceSet_match_resource resource self = any_of (Resource_is_match None Map.empty resource) self"

primrec Resource_is_valid :: "Resource \<Rightarrow> IamError + unit" where
  "Resource_is_valid (ResS3 pattern) =
    (if pattern = [] \<or> hd pattern = CHR ''/'' then Inl (InvalidResource ''s3'' pattern) else Inr ())"
| "Resource_is_valid (ResKms pattern) =
    (if pattern = [] \<or> list_ex (\<lambda>c. c = CHR ''/'' \<or> c = CHR 0x5C \<or> c = CHR ''.'') pattern
     then Inl (InvalidResource ''kms'' pattern) else Inr ())"

definition Resource_try_from :: "string \<Rightarrow> IamError + Resource" where
  "Resource_try_from value =
    (if prefix S3_PREFIX value then
       (let resource = ResS3 (drop (length S3_PREFIX) value)
        in case Resource_is_valid resource of Inl e \<Rightarrow> Inl e | Inr _ \<Rightarrow> Inr resource)
     else Inl (InvalidResource ''unknown'' value))"

primrec Resource_str :: "Resource \<Rightarrow> string" where
  "Resource_str (ResS3 s) = S3_PREFIX @ s"
| "Resource_str (ResKms s) = s"

text \<open>\<open>is_valid\<close> of a sequence: the first error\<close>

fun first_error :: "('a \<Rightarrow> IamError + unit) \<Rightarrow> 'a list \<Rightarrow> IamError + unit" where
  "first_error valid [] = Inr ()"
| "first_error valid (x # xs) = (case valid x of Inl e \<Rightarrow> Inl e | Inr _ \<Rightarrow> first_error valid xs)"

definition ResourceSet_is_valid :: "Resource list \<Rightarrow> IamError + unit" where
  "ResourceSet_is_valid self = first_error Resource_is_valid self"

text \<open>Equality of action and resource sets: the same number of elements, and each contained\<close>

definition set_eq :: "'a list \<Rightarrow> 'a list \<Rightarrow> bool" where
  "set_eq self other \<longleftrightarrow> length self = length other \<and> list_all (\<lambda>x. x \<in> set other) self"

section \<open>Effects and principals\<close>

datatype Effect = Allow | Deny

definition Effect_is_allowed :: "Effect \<Rightarrow> bool \<Rightarrow> bool" where
  "Effect_is_allowed self allowed = (if self = Allow then allowed else \<not> allowed)"

definition Principal_is_match :: "string list \<Rightarrow> string \<Rightarrow> bool" where
  "Principal_is_match aws parincipal = list_ex (\<lambda>pattern. is_simple_match pattern parincipal) aws"

definition Principal_is_valid :: "string list \<Rightarrow> IamError + unit" where
  "Principal_is_valid aws = (if aws = [] then Inl InvalidPrincipal else Inr ())"

section \<open>Statements\<close>

record Args =
  account :: string
  action :: Action
  bucket :: string
  conditions :: values_map
  is_owner :: bool
  object :: string
  claims :: "string \<rightharpoonup> Value"
  deny_only :: bool

record Statement =
  sid :: string
  effect :: Effect
  actions :: "Action list"
  not_actions :: "Action list"
  resources :: "Resource list"
  not_resources :: "Resource list"
  st_conditions :: Functions

definition is_kms :: "Action list \<Rightarrow> bool" where
  "is_kms acts = list_ex (\<lambda>act. case act of KmsAction _ \<Rightarrow> True | _ \<Rightarrow> False) acts"

definition is_admin :: "Action list \<Rightarrow> bool" where
  "is_admin acts = list_ex (\<lambda>act. case act of AdminAction _ \<Rightarrow> True | _ \<Rightarrow> False) acts"

text \<open>There is no action of the kind \<open>StsAction\<close>.\<close>

definition is_sts :: "Action list \<Rightarrow> bool" where
  "is_sts acts = False"

definition statement_context :: "Args \<Rightarrow> VariableContext" where
  "statement_context args =
    VariableContext_new
      \<lparr>ctx_claims := Some (claims args), ctx_conditions := conditions args,
       account_id := Some (account args),
       username := Some (case claims args ''parent'' of Some (String parent) \<Rightarrow> parent | _ \<Rightarrow> account args)\<rparr>"

definition request_resource :: "string \<Rightarrow> string \<Rightarrow> string" where
  "request_resource bkt obj =
    (if obj \<noteq> [] then (if hd obj \<noteq> CHR ''/'' then bkt @ ''/'' @ obj else bkt @ obj) else bkt @ ''/'')"

definition action_applies :: "Action list \<Rightarrow> Action list \<Rightarrow> Action \<Rightarrow> bool" where
  "action_applies acts not_acts act \<longleftrightarrow>
    \<not> ((\<not> ActionSet_is_match acts act \<and> acts \<noteq> []) \<or> ActionSet_is_match not_acts act)"

text \<open>The block \<open>'c\<close> of \<open>is_allowed\<close>, whether the statement applies, and the decision it gives\<close>

definition Statement_check :: "nat \<Rightarrow> clock \<Rightarrow> cond_env \<Rightarrow> Args \<Rightarrow> Statement \<Rightarrow> bool option" where
  "Statement_check fuel now env args self =
    (let resolver = Some (resolve_aws_variables fuel (resolve_multiple now (statement_context args)));
         resource = request_resource (bucket args) (object args);
         exempt = is_admin (actions self) \<or> is_sts (actions self)
     in if \<not> action_applies (actions self) (not_actions self) (action args) then Some False
        else if is_kms (actions self) \<and> (resource = ''/'' \<or> resources self = []) then
          Functions_evaluate env (conditions args) resolver (st_conditions self)
        else if resources self = [] \<and> not_resources self = [] \<and> \<not> exempt then Some False
        else
          (case (if resources self = [] then Some True
                 else ResourceSet_is_match resolver (conditions args) resource (resources self)) of
             None \<Rightarrow> None
           | Some matched \<Rightarrow>
               if \<not> matched \<and> \<not> exempt then Some False
               else
                 (case (if not_resources self = [] then Some False
                        else ResourceSet_is_match resolver (conditions args) resource (not_resources self)) of
                    None \<Rightarrow> None
                  | Some excluded \<Rightarrow>
                      if excluded \<and> \<not> exempt then Some False
                      else Functions_evaluate env (conditions args) resolver (st_conditions self))))"

definition Statement_is_allowed :: "nat \<Rightarrow> clock \<Rightarrow> cond_env \<Rightarrow> Args \<Rightarrow> Statement \<Rightarrow> bool option" where
  "Statement_is_allowed fuel now env args self =
    map_option (Effect_is_allowed (effect self)) (Statement_check fuel now env args self)"

text \<open>The four tests that \<open>Statement\<close> and \<open>BPStatement\<close> share, and the validity of the sets\<close>

definition sets_are_valid ::
  "Action list \<Rightarrow> Action list \<Rightarrow> Resource list \<Rightarrow> Resource list \<Rightarrow> IamError + unit" where
  "sets_are_valid acts not_acts res not_res =
    (if acts = [] \<and> not_acts = [] then Inl NonAction
     else if acts \<noteq> [] \<and> not_acts \<noteq> [] then Inl BothActionAndNotAction
     else if res = [] \<and> not_res = [] then Inl NonResource
     else if res \<noteq> [] \<and> not_res \<noteq> [] then Inl BothResourceAndNotResource
     else (case ResourceSet_is_valid res of Inl e \<Rightarrow> Inl e | Inr _ \<Rightarrow> ResourceSet_is_valid not_res))"

definition Statement_is_valid :: "Statement \<Rightarrow> IamError + unit" where
  "Statement_is_valid self =
    sets_are_valid (actions self) (not_actions self) (resources self) (not_resources self)"

text \<open>\<open>PartialEq for Statement\<close>\<close>

definition Statement_eq :: "Statement \<Rightarrow> Statement \<Rightarrow> bool" where
  "Statement_eq self other \<longleftrightarrow>
    effect self = effect other
    \<and> set_eq (actions self) (actions other)
    \<and> set_eq (not_actions self) (not_actions other)
    \<and> set_eq (resources self) (resources other)
    \<and> Functions_eq (st_conditions self) (st_conditions other)"

section \<open>Policies\<close>

definition DEFAULT_VERSION :: string where
  "DEFAULT_VERSION = ''2012-10-17''"

record Policy =
  pol_id :: string
  version :: string
  statements :: "Statement list"

definition Policy_is_allowed :: "nat \<Rightarrow> clock \<Rightarrow> cond_env \<Rightarrow> Args \<Rightarrow> Policy \<Rightarrow> bool option" where
  "Policy_is_allowed fuel now env args self =
    (case every (Statement_is_allowed fuel now env args) (filter (\<lambda>s. effect s = Deny) (statements self)) of
       None \<Rightarrow> None
     | Some b \<Rightarrow>
         if \<not> b then Some False
         else if is_owner args then Some True
         else if deny_only args then Some False
         else any_of (Statement_is_allowed fuel now env args)
                (filter (\<lambda>s. effect s = Allow) (statements self)))"

definition Policy_match_resource :: "string \<Rightarrow> Policy \<Rightarrow> bool option" where
  "Policy_match_resource resource self =
    any_of (\<lambda>s. ResourceSet_match_resource resource (resources s)) (statements self)"

text \<open>
  \<open>drop_duplicate_statements\<close>: the first loop collects the indices \<open>dups\<close>, the second keeps the
  others in order.
\<close>

definition mark_dups :: "Statement list \<Rightarrow> nat \<Rightarrow> nat set \<Rightarrow> nat set" where
  "mark_dups sts i dups =
    (if i \<in> dups then dups
     else dups \<union> set (filter (\<lambda>j. Statement_eq (sts ! i) (sts ! j)) [i + 1..<length sts]))"

definition duplicate_indices :: "Statement list \<Rightarrow> nat set" where
  "duplicate_indices sts = foldl (\<lambda>dups i. mark_dups sts i dups) {} [0..<length sts]"

definition drop_duplicate_statements :: "Statement list \<Rightarrow> Statement list" where
  "drop_duplicate_statements sts =
    map (\<lambda>i. sts ! i) (filter (\<lambda>i. i \<notin> duplicate_indices sts) [0..<length sts])"

definition merge_policies :: "Policy list \<Rightarrow> Policy" where
  "merge_policies inputs =
    \<lparr>pol_id = [],
     version = foldl (\<lambda>v p. if v = [] then version p else v) [] inputs,
     statements = drop_duplicate_statements (concat (map statements inputs))\<rparr>"

definition Policy_is_valid :: "Policy \<Rightarrow> IamError + unit" where
  "Policy_is_valid self =
    (if version self \<noteq> [] \<and> version self \<noteq> DEFAULT_VERSION then Inl (InvalidVersion (version self))
     else first_error Statement_is_valid (statements self))"

section \<open>Bucket policies\<close>

record BucketPolicyArgs =
  bp_account :: string
  bp_action :: Action
  bp_bucket :: string
  bp_conditions :: values_map
  bp_is_owner :: bool
  bp_object :: string

record BPStatement =
  bps_sid :: string
  bps_effect :: Effect
  bps_principal :: "string list"
  bps_actions :: "Action list"
  bps_not_actions :: "Action list"
  bps_resources :: "Resource list"
  bps_not_resources :: "Resource list"
  bps_conditions :: Functions

definition BPStatement_check :: "cond_env \<Rightarrow> BucketPolicyArgs \<Rightarrow> BPStatement \<Rightarrow> bool option" where
  "BPStatement_check env args self =
    (let resource = request_resource (bp_bucket args) (bp_object args)
     in if \<not> Principal_is_match (bps_principal self) (bp_account args) then Some False
        else if \<not> action_applies (bps_actions self) (bps_not_actions self) (bp_action args) then Some False
        else
          (case (if bps_resources self = [] then Some True
                 else ResourceSet_is_match None (bp_conditions args) resource (bps_resources self)) of
             None \<Rightarrow> None
           | Some matched \<Rightarrow>
               if \<not> matched then Some False
               else
                 (case (if bps_not_resources self = [] then Some False
                        else ResourceSet_is_match None (bp_conditions args) resource (bps_not_resources self)) of
                    None \<Rightarrow> None
                  | Some excluded \<Rightarrow>
                      if excluded then Some False
                      else Functions_evaluate env (bp_conditions args) None (bps_conditions self))))"

definition BPStatement_is_allowed :: "cond_env \<Rightarrow> BucketPolicyArgs \<Rightarrow> BPStatement \<Rightarrow> bool option" where
  "BPStatement_is_allowed env args self =
    map_option (Effect_is_allowed (bps_effect self)) (BPStatement_check env args self)"

definition BPStatement_is_valid :: "BPStatement \<Rightarrow> IamError + unit" where
  "BPStatement_is_valid self =
    (case Principal_is_valid (bps_principal self) of
       Inl e \<Rightarrow> Inl e
     | Inr _ \<Rightarrow> sets_are_valid (bps_actions self) (bps_not_actions self) (bps_resources self) (bps_not_resources self))"

record BucketPolicy =
  bp_id :: string
  bp_version :: string
  bp_statements :: "BPStatement list"

definition BucketPolicy_is_allowed :: "cond_env \<Rightarrow> BucketPolicyArgs \<Rightarrow> BucketPolicy \<Rightarrow> bool option" where
  "BucketPolicy_is_allowed env args self =
    (case every (BPStatement_is_allowed env args) (filter (\<lambda>s. bps_effect s = Deny) (bp_statements self)) of
       None \<Rightarrow> None
     | Some b \<Rightarrow>
         if \<not> b then Some False
         else if bp_is_owner args then Some True
         else any_of (BPStatement_is_allowed env args) (filter (\<lambda>s. bps_effect s = Allow) (bp_statements self)))"

definition BucketPolicy_is_valid :: "BucketPolicy \<Rightarrow> IamError + unit" where
  "BucketPolicy_is_valid self =
    (if bp_version self \<noteq> [] \<and> bp_version self \<noteq> DEFAULT_VERSION then Inl (InvalidVersion (bp_version self))
     else first_error BPStatement_is_valid (bp_statements self))"

section \<open>Policy names in claims\<close>

text \<open>\<open>split(',')\<close>, \<open>trim\<close> (of ASCII white space) and the non-empty parts\<close>

fun split_comma :: "string \<Rightarrow> string list" where
  "split_comma [] = [[]]"
| "split_comma (c # s) =
    (if c = CHR '','' then [] # split_comma s
     else (c # hd (split_comma s)) # tl (split_comma s))"

definition is_space :: "char \<Rightarrow> bool" where
  "is_space c \<longleftrightarrow> c = CHR '' '' \<or> (9 \<le> (of_char c :: nat) \<and> of_char c \<le> (13 :: nat))"

definition trim :: "string \<Rightarrow> string" where
  "trim s = rev (dropWhile is_space (rev (dropWhile is_space s)))"

definition names_of :: "string \<Rightarrow> string list" where
  "names_of s = filter (\<lambda>p. p \<noteq> []) (map trim (split_comma s))"

definition get_values_from_claims :: "(string \<rightharpoonup> Value) \<Rightarrow> string \<Rightarrow> string set \<times> bool" where
  "get_values_from_claims cl claim_name =
    (case cl claim_name of
       Some (Array pnames) \<Rightarrow>
         (set (concat (map (\<lambda>v. case v of String s \<Rightarrow> names_of s | _ \<Rightarrow> []) pnames)), True)
     | Some (String s) \<Rightarrow> (set (names_of s), True)
     | _ \<Rightarrow> ({}, False))"

section \<open>The built-in policies\<close>

definition no_conditions :: Functions where
  "no_conditions = \<lparr>for_any_value = [], for_all_values = [], for_normal = []\<rparr>"

definition allow_statement :: "Action list \<Rightarrow> Resource list \<Rightarrow> Statement" where
  "allow_statement acts res =
    \<lparr>sid = [], effect = Allow, actions = acts, not_actions = [], resources = res, not_resources = [],
     st_conditions = no_conditions\<rparr>"

definition default_policy :: "Statement list \<Rightarrow> Policy" where
  "default_policy sts = \<lparr>pol_id = [], version = DEFAULT_VERSION, statements = sts\<rparr>"

definition DEFAULT_POLICIES :: "(string \<times> Policy) list" where
  "DEFAULT_POLICIES =
    [(''readwrite'', default_policy [allow_statement [S3Action AllActions] [ResS3 ''*'']]),
     (''readonly'', default_policy
        [allow_statement
          [S3Action GetBucketLocationAction, S3Action GetObjectAction, S3Action GetBucketQuotaAction]
          [ResS3 ''*'']]),
     (''writeonly'', default_policy [allow_statement [S3Action PutObjectAction] [ResS3 ''*'']]),
     (''writeonly'', default_policy [allow_statement [S3Action PutObjectAction] [ResS3 ''*'']]),
     (''diagnostics'', default_policy
        [allow_statement
          [AdminAction ProfilingAdminAction, AdminAction TraceAdminAction, AdminAction ConsoleLogAdminAction,
           AdminAction ServerInfoAdminAction, AdminAction TopLocksAdminAction,
           AdminAction HealthInfoAdminAction, AdminAction PrometheusAdminAction,
           AdminAction BandwidthMonitorAction]
          [ResS3 ''*'']]),
     (''consoleAdmin'', default_policy
        [allow_statement [AdminAction AllAdminActions] [],
         allow_statement [KmsAction KmsAllActions] [],
         allow_statement [S3Action AllActions] [ResS3 ''*'']])]"

end
