(* ===== verification/PolicySpec.thy ===== *)
theory PolicySpec
  imports Policy
begin

text \<open>
  What a policy decides: the interface of a statement to the decision loop and its
  interpretations for user and bucket policies, the precedence of denial, the merging of policies,
  validity and resource matching.
\<close>

section \<open>The decision loop over statements\<close>

locale statement_decision =
  fixes effect_of :: "'s \<Rightarrow> Effect"
    and check :: "'s \<Rightarrow> bool option"
    and allowed :: "'s \<Rightarrow> bool option"
  assumes allowed_check: "allowed s = map_option (Effect_is_allowed (effect_of s)) (check s)"
begin

lemma deny_loop_True:
  "every allowed (filter (\<lambda>s. effect_of s = Deny) sts) = Some True \<longleftrightarrow>
    (\<forall>s \<in> set sts. effect_of s = Deny \<longrightarrow> check s = Some False)"
  by (auto simp: every_True allowed_check Effect_is_allowed_def)

lemma allow_loop_True:
  assumes "any_of allowed (filter (\<lambda>s. effect_of s = Allow) sts) = Some True"
  shows "\<exists>s \<in> set sts. effect_of s = Allow \<and> check s = Some True"
  using any_of_True_imp [OF assms] by (auto simp: allowed_check Effect_is_allowed_def)

lemma loops_total:
  assumes "\<forall>s \<in> set sts. check s = Some (applies s)"
  shows "every allowed (filter (\<lambda>s. effect_of s = Deny) sts) =
      Some (\<not> (\<exists>s \<in> set sts. effect_of s = Deny \<and> applies s))"
    and "any_of allowed (filter (\<lambda>s. effect_of s = Allow) sts) =
      Some (\<exists>s \<in> set sts. effect_of s = Allow \<and> applies s)"
proof -
  have "every allowed (filter (\<lambda>s. effect_of s = Deny) sts) =
      Some (list_all (\<lambda>s. \<not> applies s) (filter (\<lambda>s. effect_of s = Deny) sts))"
    by (rule every_total) (use assms in \<open>auto simp: allowed_check Effect_is_allowed_def\<close>)
  then show "every allowed (filter (\<lambda>s. effect_of s = Deny) sts) =
      Some (\<not> (\<exists>s \<in> set sts. effect_of s = Deny \<and> applies s))"
    by (auto simp: list_all_iff)
  have "any_of allowed (filter (\<lambda>s. effect_of s = Allow) sts) =
      Some (list_ex applies (filter (\<lambda>s. effect_of s = Allow) sts))"
    by (rule any_of_total) (use assms in \<open>auto simp: allowed_check Effect_is_allowed_def\<close>)
  then show "any_of allowed (filter (\<lambda>s. effect_of s = Allow) sts) =
      Some (\<exists>s \<in> set sts. effect_of s = Allow \<and> applies s)"
    by (auto simp: list_ex_iff)
qed

end

interpretation user_statement: statement_decision effect "Statement_check fuel now env args"
  "Statement_is_allowed fuel now env args" for fuel now env args
  by unfold_locales (simp add: Statement_is_allowed_def)

interpretation bucket_statement: statement_decision bps_effect "BPStatement_check env args"
  "BPStatement_is_allowed env args" for env args
  by unfold_locales (simp add: BPStatement_is_allowed_def)

lemma Policy_total:
  assumes "\<forall>s \<in> set (statements p). Statement_check fuel now env args s = Some (applies s)"
  shows "Policy_is_allowed fuel now env args p =
    Some (\<not> (\<exists>s \<in> set (statements p). effect s = Deny \<and> applies s)
      \<and> (is_owner args \<or> \<not> deny_only args \<and> (\<exists>s \<in> set (statements p). effect s = Allow \<and> applies s)))"
  using user_statement.loops_total [OF assms] by (simp add: Policy_is_allowed_def)

section \<open>A small policy and a request\<close>

definition ex_args :: Args where
  "ex_args =
    \<lparr>account = ''u'', action = S3Action GetObjectAction, bucket = ''a'', conditions = Map.empty,
     is_owner = False, object = ''x'', claims = Map.empty, deny_only = False\<rparr>"

definition ex_now :: clock where
  "ex_now = \<lparr>clock_rfc3339 = ''2024-01-01T00:00:00Z'', clock_epoch = ''1704067200''\<rparr>"

definition ex_env :: cond_env where
  "ex_env =
    \<lparr>to_lower = (\<lambda>s. s), parse_ip = (\<lambda>_. None), net_contains = (\<lambda>_ _. False), parse_date = (\<lambda>_. None)\<rparr>"

definition ex_bargs :: BucketPolicyArgs where
  "ex_bargs =
    \<lparr>bp_account = ''u'', bp_action = S3Action GetObjectAction, bp_bucket = ''a'',
     bp_conditions = Map.empty, bp_is_owner = False, bp_object = ''x''\<rparr>"

definition ex_deny_outside :: "string \<Rightarrow> Statement" where
  "ex_deny_outside p =
    \<lparr>sid = [], effect = Deny, actions = [S3Action AllActions], not_actions = [], resources = [],
     not_resources = [ResS3 p], st_conditions = no_conditions\<rparr>"

definition ex_read_all :: Statement where
  "ex_read_all = allow_statement [S3Action AllActions] [ResS3 ''*'']"

lemmas ex_policy_defs =
  ex_args_def ex_deny_outside_def ex_read_all_def allow_statement_def no_conditions_def default_policy_def

lemma ex_resource_match:
  assumes "str_find ''${'' p = None"
  shows "Resource_is_match (Some (resolve_aws_variables 3 rv)) Map.empty ''a/x'' (ResS3 p) =
    Some (''a/x'' = p \<or> is_match p ''a/x'')"
proof -
  have "resolve_aws_variables 3 rv p = Some [p]" using resolve_plain [OF assms, of 0 rv] by (simp add: numeral_3_eq_3)
  moreover have "clean ''a/x'' = Some ''a/x''"
    by (simp add: clean_eq_ref clean_ref_def norm_step_def render_def)
  moreover have "substitute_all Map.empty keys p = p" for keys p by (induction keys) auto
  ultimately show ?thesis by (simp add: Resource_is_match_def resolve_value_def)
qed

lemma ex_checks:
  "Statement_check 3 now env ex_args (ex_deny_outside p) =
     (if str_find ''${'' p = None then Some (\<not> (''a/x'' = p \<or> is_match p ''a/x''))
      else Statement_check 3 now env ex_args (ex_deny_outside p))"
  "Statement_check 3 now env ex_args ex_read_all = Some True"
proof -
  have act: "action_applies [S3Action AllActions] [] (S3Action GetObjectAction)"
    by (simp add: action_applies_def ActionSet_is_match_def Action_is_match_def is_match_def inner_match_def)
  have res: "request_resource ''a'' ''x'' = ''a/x''" by (simp add: request_resource_def)
  show "Statement_check 3 now env ex_args (ex_deny_outside p) =
     (if str_find ''${'' p = None then Some (\<not> (''a/x'' = p \<or> is_match p ''a/x''))
      else Statement_check 3 now env ex_args (ex_deny_outside p))"
    using act res
    by (simp add: Statement_check_def ex_policy_defs is_kms_def is_admin_def is_sts_def
        ResourceSet_is_match_def ex_resource_match Functions_evaluate_def Let_def)
  have "str_find ''${'' ''*'' = None" by simp
  then show "Statement_check 3 now env ex_args ex_read_all = Some True"
    using act res ex_resource_match [of "''*''"]
    by (simp add: Statement_check_def ex_policy_defs is_kms_def is_admin_def is_sts_def
        ResourceSet_is_match_def Functions_evaluate_def Let_def is_match_def inner_match_def)
qed

lemma ex_deny_outside_check:
  "Statement_check 3 now env ex_args (ex_deny_outside ''a/*'') = Some False"
  "Statement_check 3 now env ex_args (ex_deny_outside ''b/*'') = Some True"
  by (simp_all add: ex_checks(1) is_match_def inner_match_def)

text \<open>
  C25: When the evaluation of every statement returns, a request is allowed exactly if no denying
  statement applies to it and either the requester is the owner or, unless only denials are
  asked for, some allowing statement applies. A bucket policy decides in the same way.
\<close>

theorem policy_decides:
  assumes "\<forall>s \<in> set (statements p). Statement_check fuel now env args s = Some (applies s)"
    and "\<forall>s \<in> set (bp_statements bp). BPStatement_check env bargs s = Some (bp_applies s)"
  shows "Policy_is_allowed fuel now env args p =
      Some (\<not> (\<exists>s \<in> set (statements p). effect s = Deny \<and> applies s)
        \<and> (is_owner args \<or> \<not> deny_only args \<and> (\<exists>s \<in> set (statements p). effect s = Allow \<and> applies s)))
    \<and> BucketPolicy_is_allowed env bargs bp =
      Some (\<not> (\<exists>s \<in> set (bp_statements bp). bps_effect s = Deny \<and> bp_applies s)
        \<and> (bp_is_owner bargs \<or> (\<exists>s \<in> set (bp_statements bp). bps_effect s = Allow \<and> bp_applies s)))"
  using Policy_total [OF assms(1)] bucket_statement.loops_total [OF assms(2)]
  by (simp add: BucketPolicy_is_allowed_def)

theorem policy_decides_witness:
  "Policy_is_allowed 3 ex_now ex_env ex_args (default_policy [ex_deny_outside ''a/*'', ex_read_all]) = Some True
   \<and> Policy_is_allowed 3 ex_now ex_env ex_args (default_policy [ex_deny_outside ''b/*'', ex_read_all]) = Some False"
proof -
  have "\<forall>s \<in> set (statements (default_policy [ex_deny_outside ''a/*'', ex_read_all])).
      Statement_check 3 ex_now ex_env ex_args s = Some (effect s = Allow)"
    by (simp add: ex_deny_outside_check ex_checks(2) default_policy_def)
      (simp add: ex_policy_defs)
  moreover have "\<forall>s \<in> set (statements (default_policy [ex_deny_outside ''b/*'', ex_read_all])).
      Statement_check 3 ex_now ex_env ex_args s = Some True"
    by (simp add: ex_deny_outside_check ex_checks(2) default_policy_def)
  moreover have "\<forall>s \<in> set (bp_statements \<lparr>bp_id = [], bp_version = [], bp_statements = []\<rparr>).
      BPStatement_check ex_env ex_bargs s = Some True" by simp
  ultimately show ?thesis
    using policy_decides [of "default_policy [ex_deny_outside ''a/*'', ex_read_all]" 3 ex_now ex_env ex_args
        "\<lambda>s. effect s = Allow" "\<lparr>bp_id = [], bp_version = [], bp_statements = []\<rparr>" ex_bargs "\<lambda>_. True"]
      policy_decides [of "default_policy [ex_deny_outside ''b/*'', ex_read_all]" 3 ex_now ex_env ex_args
        "\<lambda>_. True" "\<lparr>bp_id = [], bp_version = [], bp_statements = []\<rparr>" ex_bargs "\<lambda>_. True"]
    by (simp add: ex_policy_defs)
qed

text \<open>
  C4: Whatever panics, a request is only ever allowed when every denying statement has been
  evaluated and does not apply, and when the requester is the owner or an allowing statement
  applies.
\<close>

theorem deny_overrides:
  assumes "Policy_is_allowed fuel now env args p = Some True"
  shows "(\<forall>s \<in> set (statements p). effect s = Deny \<longrightarrow> Statement_check fuel now env args s = Some False)
    \<and> (is_owner args \<or> \<not> deny_only args
        \<and> (\<exists>s \<in> set (statements p). effect s = Allow \<and> Statement_check fuel now env args s = Some True))"
  using assms user_statement.deny_loop_True user_statement.allow_loop_True
  by (auto simp: Policy_is_allowed_def split: option.splits if_splits)

theorem deny_overrides_witness:
  "Policy_is_allowed 3 ex_now ex_env ex_args (default_policy [ex_deny_outside ''a/*'', ex_read_all]) = Some True
   \<and> Statement_check 3 ex_now ex_env ex_args (ex_deny_outside ''a/*'') = Some False
   \<and> effect (ex_deny_outside ''a/*'') = Deny"
proof -
  have e: "effect (ex_deny_outside p) = Deny" "effect ex_read_all = Allow" for p by (simp_all add: ex_policy_defs)
  have "Policy_is_allowed 3 ex_now ex_env ex_args (default_policy [ex_deny_outside ''a/*'', ex_read_all]) = Some True"
    by (simp add: Policy_is_allowed_def default_policy_def Statement_is_allowed_def ex_deny_outside_check
        ex_checks(2) Effect_is_allowed_def e) (simp add: ex_args_def)
  with deny_overrides [OF this] e show ?thesis by (simp add: default_policy_def)
qed

section \<open>Resource matching\<close>

lemma Resource_match_plain:
  "Resource_is_match None Map.empty resource r =
    Some (clean_ref resource \<noteq> ''.'' \<and> clean_ref resource = Resource_pattern r \<or> resource \<in> glob (Resource_pattern r))"
proof -
  have "substitute_all Map.empty keys p = p" for keys p by (induction keys) auto
  then show ?thesis
    by (simp add: Resource_is_match_def resolve_value_def clean_eq_ref is_match_glob)
qed

text \<open>
  C26: Without variables and condition values a resource pattern matches the texts it denotes and, in
  addition, every text whose lexical normal form is the pattern itself: the object
  \<open>x/../../b/o\<close> of bucket \<open>a\<close> matches the pattern \<open>b/o\<close> of another bucket.
\<close>

theorem resource_match_denotes:
  "ResourceSet_match_resource resource rs =
    Some (\<exists>r \<in> set rs. resource \<in> glob (Resource_pattern r)
      \<or> clean_ref resource \<noteq> ''.'' \<and> clean_ref resource = Resource_pattern r)
   \<and> ResourceSet_match_resource (request_resource ''a'' ''x/../../b/o'') [ResS3 ''b/o''] = Some True"
proof -
  have "ResourceSet_match_resource resource rs =
      Some (list_ex (\<lambda>r. clean_ref resource \<noteq> ''.'' \<and> clean_ref resource = Resource_pattern r
        \<or> resource \<in> glob (Resource_pattern r)) rs)" for resource rs
    unfolding ResourceSet_match_resource_def by (rule any_of_total) (rule Resource_match_plain)
  moreover have "clean_ref (request_resource ''a'' ''x/../../b/o'') = ''b/o''"
    by (simp add: clean_ref_def request_resource_def norm_step_def render_def)
  ultimately show ?thesis by (auto simp: list_ex_iff)
qed

section \<open>Validity\<close>

lemma first_error_ok: "first_error valid xs = Inr () \<longleftrightarrow> (\<forall>x \<in> set xs. valid x = Inr ())"
  by (induction xs) (auto split: sum.splits)

lemma then_ok: "(case v of Inl e \<Rightarrow> Inl e | Inr _ \<Rightarrow> w) = Inr () \<longleftrightarrow> v = Inr () \<and> w = Inr ()"
  by (cases v) auto

text \<open>
  A policy is valid exactly if its version is empty or the supported one and every statement has
  actions or excluded actions but not both, resources or excluded resources but not both, and
  only resource patterns that can be written. The built-in policy of the console
  administrator is not valid by this rule.
\<close>

theorem policy_validity:
  "(Policy_is_valid p = Inr () \<longleftrightarrow>
     (version p = [] \<or> version p = DEFAULT_VERSION)
     \<and> (\<forall>s \<in> set (statements p).
          (actions s = [] \<longleftrightarrow> not_actions s \<noteq> []) \<and> (resources s = [] \<longleftrightarrow> not_resources s \<noteq> [])
          \<and> (\<forall>r \<in> set (resources s @ not_resources s). Resource_is_valid r = Inr ())))
   \<and> map (\<lambda>(n, p). (n, Policy_is_valid p)) DEFAULT_POLICIES =
       [(''readwrite'', Inr ()), (''readonly'', Inr ()), (''writeonly'', Inr ()), (''writeonly'', Inr ()),
        (''diagnostics'', Inr ()), (''consoleAdmin'', Inl NonResource)]"
proof -
  have "sets_are_valid a na r nr = Inr () \<longleftrightarrow>
      (a = [] \<longleftrightarrow> na \<noteq> []) \<and> (r = [] \<longleftrightarrow> nr \<noteq> []) \<and> (\<forall>x \<in> set (r @ nr). Resource_is_valid x = Inr ())"
    for a na r nr
    by (auto simp: sets_are_valid_def ResourceSet_is_valid_def first_error_ok then_ok)
  then have "Policy_is_valid p = Inr () \<longleftrightarrow>
     (version p = [] \<or> version p = DEFAULT_VERSION)
     \<and> (\<forall>s \<in> set (statements p).
          (actions s = [] \<longleftrightarrow> not_actions s \<noteq> []) \<and> (resources s = [] \<longleftrightarrow> not_resources s \<noteq> [])
          \<and> (\<forall>r \<in> set (resources s @ not_resources s). Resource_is_valid r = Inr ()))"
    by (simp add: Policy_is_valid_def first_error_ok Statement_is_valid_def)
  moreover have "map (\<lambda>(n, p). (n, Policy_is_valid p)) DEFAULT_POLICIES =
       [(''readwrite'', Inr ()), (''readonly'', Inr ()), (''writeonly'', Inr ()), (''writeonly'', Inr ()),
        (''diagnostics'', Inr ()), (''consoleAdmin'', Inl NonResource)]"
    by (simp add: DEFAULT_POLICIES_def default_policy_def allow_statement_def Policy_is_valid_def
        DEFAULT_VERSION_def Statement_is_valid_def sets_are_valid_def ResourceSet_is_valid_def)
  ultimately show ?thesis by blast
qed

theorem policy_validity_witness:
  "Policy_is_valid (default_policy [ex_read_all, ex_deny_outside ''a/*'']) = Inr ()"
  using policy_validity [of "default_policy [ex_read_all, ex_deny_outside ''a/*'']"]
  by (simp add: ex_policy_defs)

section \<open>Merging\<close>

lemma set_eq_set:
  assumes "set_eq a b" and "distinct a"
  shows "set a = set b"
proof -
  have "card (set b) \<le> length a" using assms(1) card_length [of b] by (simp add: set_eq_def)
  moreover have "card (set a) = length a" using assms(2) by (rule distinct_card)
  moreover have "set a \<subseteq> set b" using assms(1) by (auto simp: set_eq_def list_all_iff)
  ultimately show ?thesis by (simp add: card_seteq)
qed

text \<open>Results that are equal whenever both are returned\<close>

definition agree :: "bool option \<Rightarrow> bool option \<Rightarrow> bool" where
  "agree a b \<longleftrightarrow> (\<forall>x y. a = Some x \<longrightarrow> b = Some y \<longrightarrow> x = y)"

lemma agree_refl [simp]: "agree a a"
  by (simp add: agree_def)

lemma agree_map: "agree a b \<Longrightarrow> agree (map_option f a) (map_option f b)"
  by (auto simp: agree_def)

lemma agreeI:
  assumes "a = Some True \<Longrightarrow> b = Some False \<Longrightarrow> False" and "b = Some True \<Longrightarrow> a = Some False \<Longrightarrow> False"
  shows "agree a b"
proof -
  have "x = y" if "a = Some x" "b = Some y" for x y
    using assms that by (cases x; cases y) simp_all
  then show ?thesis by (simp add: agree_def)
qed

lemma any_of_agree:
  assumes "set xs = set ys"
  shows "agree (any_of P xs) (any_of P ys)"
proof (rule agreeI)
  assume "any_of P xs = Some True" "any_of P ys = Some False"
  then show False using any_of_True_imp [of P xs] any_of_False [of P ys] assms by auto
next
  assume "any_of P ys = Some True" "any_of P xs = Some False"
  then show False using any_of_True_imp [of P ys] any_of_False [of P xs] assms by auto
qed

lemma every_agree:
  assumes "\<forall>x \<in> set xs. \<exists>y \<in> set ys. agree (P x) (P y)"
    and "\<forall>y \<in> set ys. \<exists>x \<in> set xs. agree (P x) (P y)"
  shows "agree (every P xs) (every P ys)"
proof -
  have False if t: "every P us = Some True" and f: "every P vs = Some False"
    and c: "\<forall>v \<in> set vs. \<exists>u \<in> set us. agree (P u) (P v) \<or> agree (P v) (P u)" for us vs
  proof -
    obtain v where v: "v \<in> set vs" "P v = Some False" using every_False_imp [OF f] by blast
    then obtain u where "u \<in> set us" "agree (P u) (P v) \<or> agree (P v) (P u)" using c by blast
    moreover have "P u = Some True" using t calculation(1) by (simp add: every_True)
    ultimately show False using v(2) by (auto simp: agree_def)
  qed
  from this [of xs ys] this [of ys xs] show ?thesis
    using assms by (intro agreeI) blast+
qed

lemma list_all2_agree:
  assumes "list_all2 (\<lambda>x y. agree (P x) (P y)) xs ys"
  shows "agree (every P xs) (every P ys)"
proof (rule every_agree)
  show "\<forall>x \<in> set xs. \<exists>y \<in> set ys. agree (P x) (P y)"
    using assms by (induction rule: list_all2_induct) auto
  show "\<forall>y \<in> set ys. \<exists>x \<in> set xs. agree (P x) (P y)"
    using assms by (induction rule: list_all2_induct) auto
qed

subsection \<open>Equal conditions decide equally\<close>

lemma those_Some: "those xs = Some ys \<longleftrightarrow> xs = map Some ys"
  by (induction xs arbitrary: ys) (auto split: option.splits)

lemma resolved_values_set:
  assumes "resolved_values values res cs = Some r" and "resolved_values values res ds = Some q"
    and "set cs = set ds"
  shows "set r = set q"
proof -
  have "set r = substitute_first values COMMON_KEYS ` (\<Union>c \<in> set cs. set (the (resolve_value res c)))"
    if h: "resolved_values values res cs = Some r" for cs r
  proof -
    obtain rs where rs: "map (resolve_value res) cs = map Some rs"
      "r = map (substitute_first values COMMON_KEYS) (concat rs)"
      using h by (auto simp: resolved_values_def those_Some)
    have "map the (map (resolve_value res) cs) = rs" unfolding rs(1) by (simp add: comp_def)
    then have "rs = map (\<lambda>c. the (resolve_value res c)) cs" by (simp add: comp_def)
    then show ?thesis using rs(2) by (simp add: image_UN)
  qed
  from this [OF assms(1)] this [OF assms(2)] assms(3) show ?thesis by simp
qed

lemma String_eval_agree:
  assumes "fk_key x = fk_key y" and "set (fk_values x) = set (fk_values y)"
  shows "agree (String_eval env fa ic values res x) (String_eval env fa ic values res y)"
  using resolved_values_set [OF _ _ assms(2)] assms(1)
  unfolding agree_def String_eval_def Let_def by (auto split: option.splits)

lemma like_loop_cong:
  assumes "set ps = set qs"
  shows "like_loop fa (Some ps) vs = like_loop fa (Some qs) vs"
proof -
  have "list_ex P ps \<longleftrightarrow> list_ex P qs" for P using assms by (simp add: list_ex_iff)
  then show ?thesis by (induction vs) (auto simp: Let_def)
qed

lemma String_like_agree:
  assumes "fk_key x = fk_key y" and "set (fk_values x) = set (fk_values y)"
  shows "agree (String_eval_like fa values res x) (String_eval_like fa values res y)"
proof (cases "values (Key_name (fk_key y))")
  case (Some rv)
  let ?r = "\<lambda>z. resolved_values values res (fk_values z)"
  have ev: "String_eval_like fa values res z = like_loop fa (?r z) rv" if "fk_key z = fk_key y" for z
    using Some that by (simp add: String_eval_like_def)
  show ?thesis
  proof (cases "?r x = None \<or> ?r y = None")
    case True
    then show ?thesis unfolding ev [OF assms(1)] ev [OF refl] by (cases rv) (auto simp: agree_def)
  next
    case False
    then obtain p q where "?r x = Some p" "?r y = Some q" by auto
    then show ?thesis
      unfolding ev [OF assms(1)] ev [OF refl]
      using like_loop_cong [OF resolved_values_set [OF _ _ assms(2)]] by simp
  qed
qed (simp add: String_eval_like_def assms(1))

lemma StringFunc_agree:
  assumes "StringFunc_eq s t"
  shows "agree (StringFunc_evaluate env fa ic like neg values res s) (StringFunc_evaluate env fa ic like neg values res t)"
  unfolding StringFunc_evaluate_def
  by (rule list_all2_agree, rule list_all2_mono [OF assms [unfolded StringFunc_eq_def]])
    (auto intro: agree_map String_eval_agree String_like_agree)

text \<open>An operator is determined by its name and its data, up to the order of string values.\<close>

fun string_op :: "string \<Rightarrow> (bool \<times> bool \<times> bool \<times> bool) option" where
  "string_op k =
    (if k = ''StringEquals'' then Some (False, False, False, False)
     else if k = ''StringNotEquals'' then Some (False, False, True, True)
     else if k = ''StringEqualsIgnoreCase'' then Some (True, False, False, False)
     else if k = ''StringNotEqualsIgnoreCase'' then Some (True, False, True, True)
     else if k = ''StringLike'' then Some (False, True, False, False)
     else if k = ''StringNotLike'' then Some (False, True, True, False)
     else None)"

lemma string_condition:
  assumes "Condition_payload c = PString s"
  shows "case string_op (to_key c) of
      Some (ic, like, neg, flip) \<Rightarrow> Condition_evaluate env fa values res c =
        map_option (\<lambda>r. if flip then \<not> r else r) (StringFunc_evaluate env fa ic like neg values res s)
    | None \<Rightarrow> False"
  using assms by (cases c) (simp_all add: Condition_evaluate_def)

lemma other_condition:
  assumes "Condition_payload a = Condition_payload b" and "to_key a = to_key b"
  shows "a = b"
  using assms by (cases a; cases b) simp_all

lemma Condition_agree:
  assumes "Condition_eq a b"
  shows "agree (Condition_evaluate env fa values res a) (Condition_evaluate env fa values res b)"
proof (cases "\<exists>s. Condition_payload a = PString s")
  case True
  then obtain s t where st: "Condition_payload a = PString s" "Condition_payload b = PString t" "StringFunc_eq s t"
    using assms by (cases "Condition_payload b") (auto simp: Condition_eq_def)
  show ?thesis
    using string_condition [OF st(1), of env fa "values" res] string_condition [OF st(2), of env fa "values" res] assms
    by (auto simp: Condition_eq_def simp del: string_op.simps split: option.splits
        intro!: agree_map StringFunc_agree st(3))
next
  case False
  then have "Condition_payload a = Condition_payload b"
    using assms by (cases "Condition_payload a") (auto simp: Condition_eq_def)
  then have "a = b" using other_condition assms by (simp add: Condition_eq_def)
  then show ?thesis by simp
qed

text \<open>The document reader refuses a second operator of the same name under one qualifier.\<close>

definition unique_ops :: "Functions \<Rightarrow> bool" where
  "unique_ops F \<longleftrightarrow> distinct (map to_key (for_any_value F)) \<and> distinct (map to_key (for_all_values F))
    \<and> distinct (map to_key (for_normal F))"

lemma counterpart:
  assumes "length xs = length ys" and "\<forall>x \<in> set xs. \<exists>y \<in> set ys. Condition_eq x y"
    and "distinct (map to_key xs)" and "y \<in> set ys"
  shows "\<exists>x \<in> set xs. Condition_eq x y"
proof -
  have sub: "to_key ` set xs \<subseteq> to_key ` set ys"
    using assms(2) by (fastforce simp: Condition_eq_def)
  have cx: "card (to_key ` set xs) = length xs"
    using distinct_card [OF assms(3)] by simp
  have cy: "card (to_key ` set ys) \<le> length ys"
    using card_length [of "map to_key ys"] by simp
  have eq: "to_key ` set xs = to_key ` set ys"
    using card_seteq [OF _ sub] cx cy assms(1) by simp
  then have "distinct (map to_key ys)" using card_distinct [of "map to_key ys"] cx assms(1) by simp
  then have inj: "inj_on to_key (set ys)" by (simp add: distinct_map)
  obtain x where x: "x \<in> set xs" "to_key x = to_key y" using eq assms(4) by (metis imageE imageI)
  then obtain y' where y': "y' \<in> set ys" "Condition_eq x y'" using assms(2) by blast
  then have "y' = y" using inj assms(4) x(2) by (auto simp: Condition_eq_def dest: inj_onD)
  then show ?thesis using x(1) y'(2) by blast
qed

lemma conditions_agree:
  assumes "length xs = length ys" and "list_all (\<lambda>x. list_ex (Condition_eq x) ys) xs"
    and "distinct (map to_key xs)"
  shows "agree (every (Condition_evaluate env fa values res) xs) (every (Condition_evaluate env fa values res) ys)"
proof (rule every_agree)
  have c: "\<forall>x \<in> set xs. \<exists>y \<in> set ys. Condition_eq x y"
    using assms(2) by (simp add: list_all_iff list_ex_iff)
  then show "\<forall>x \<in> set xs. \<exists>y \<in> set ys.
      agree (Condition_evaluate env fa values res x) (Condition_evaluate env fa values res y)"
    using Condition_agree by blast
  show "\<forall>y \<in> set ys. \<exists>x \<in> set xs.
      agree (Condition_evaluate env fa values res x) (Condition_evaluate env fa values res y)"
    using counterpart [OF assms(1) c assms(3)] Condition_agree by blast
qed

lemma Functions_agree:
  assumes "Functions_eq F G" and "unique_ops F"
  shows "agree (Functions_evaluate env values res F) (Functions_evaluate env values res G)"
proof -
  note a = conditions_agree [of _ _ env _ "values" res]
  have "agree (every (Condition_evaluate env False values res) (for_any_value F))
      (every (Condition_evaluate env False values res) (for_any_value G))"
    and "agree (every (Condition_evaluate env True values res) (for_all_values F))
      (every (Condition_evaluate env True values res) (for_all_values G))"
    and "agree (every (Condition_evaluate env False values res) (for_normal F))
      (every (Condition_evaluate env False values res) (for_normal G))"
    using assms by (simp_all add: Functions_eq_def unique_ops_def a)
  then show ?thesis
    unfolding Functions_evaluate_def agree_def by (auto split: option.splits if_splits)
qed

subsection \<open>Equal statements apply to the same requests\<close>

definition wf_statement :: "Statement \<Rightarrow> bool" where
  "wf_statement s \<longleftrightarrow> distinct (actions s) \<and> distinct (not_actions s) \<and> distinct (resources s)
    \<and> unique_ops (st_conditions s)"

lemma ActionSet_set: "set a = set b \<Longrightarrow> ActionSet_is_match a x = ActionSet_is_match b x"
  by (simp add: ActionSet_is_match_def list_ex_iff)

lemma kinds_set: "set a = set b \<Longrightarrow> is_kms a = is_kms b \<and> is_admin a = is_admin b \<and> is_sts a = is_sts b"
  by (simp add: is_kms_def is_admin_def is_sts_def list_ex_iff)

lemma agree_chain:
  assumes "agree F G" and "agree R S"
  shows "agree
      (if A then Some False else if K then F else if E then Some False
       else case R of None \<Rightarrow> None | Some m \<Rightarrow> if \<not> m \<and> \<not> X then Some False else F)
      (if A then Some False else if K then G else if E then Some False
       else case S of None \<Rightarrow> None | Some m \<Rightarrow> if \<not> m \<and> \<not> X then Some False else G)"
  using assms by (cases R; cases S) (simp_all add: agree_def)

lemma Statement_check_plain:
  assumes "not_resources s = []"
  shows "Statement_check fuel now env args s =
    (let resolver = Some (resolve_aws_variables fuel (resolve_multiple now (statement_context args)));
         resource = request_resource (bucket args) (object args);
         exempt = is_admin (actions s) \<or> is_sts (actions s);
         F = Functions_evaluate env (conditions args) resolver (st_conditions s)
     in if \<not> action_applies (actions s) (not_actions s) (action args) then Some False
        else if is_kms (actions s) \<and> (resource = ''/'' \<or> resources s = []) then F
        else if resources s = [] \<and> \<not> exempt then Some False
        else case (if resources s = [] then Some True
                   else ResourceSet_is_match resolver (conditions args) resource (resources s)) of
               None \<Rightarrow> None
             | Some m \<Rightarrow> if \<not> m \<and> \<not> exempt then Some False else F)"
  using assms by (simp add: Statement_check_def Let_def split: option.split)

lemma Statement_agree:
  assumes "Statement_eq a b" and "wf_statement a" and "not_resources a = []" and "not_resources b = []"
  shows "agree (Statement_check fuel now env args a) (Statement_check fuel now env args b)"
proof -
  have sets: "set (actions a) = set (actions b)" "set (not_actions a) = set (not_actions b)"
    "set (resources a) = set (resources b)"
    using assms(1,2) set_eq_set unfolding Statement_eq_def wf_statement_def by blast+
  then have empty: "(actions a = []) = (actions b = [])" "(resources a = []) = (resources b = [])"
    by (metis set_empty)+
  have act: "action_applies (actions a) (not_actions a) x = action_applies (actions b) (not_actions b) x" for x
    using ActionSet_set [OF sets(1)] ActionSet_set [OF sets(2)] empty(1) by (simp add: action_applies_def)
  have F: "agree (Functions_evaluate env v r (st_conditions a)) (Functions_evaluate env v r (st_conditions b))" for v r
    using Functions_agree assms(1,2) unfolding Statement_eq_def wf_statement_def by blast
  have R: "agree (if resources b = [] then Some True else ResourceSet_is_match r v x (resources a))
      (if resources b = [] then Some True else ResourceSet_is_match r v x (resources b))" for r v x
    unfolding ResourceSet_is_match_def using any_of_agree [OF sets(3)] by simp
  show ?thesis
    unfolding Statement_check_plain [OF assms(3)] Statement_check_plain [OF assms(4)] Let_def act empty(2)
      conjunct1 [OF kinds_set [OF sets(1)]] conjunct2 [OF kinds_set [OF sets(1)], THEN conjunct1]
      conjunct2 [OF kinds_set [OF sets(1)], THEN conjunct2]
    by (rule agree_chain [OF F R])
qed

subsection \<open>Dropping duplicates\<close>

definition dup_inv :: "Statement list \<Rightarrow> nat \<Rightarrow> nat set \<Rightarrow> bool" where
  "dup_inv sts i D \<longleftrightarrow> (\<forall>j \<in> D. \<exists>k < i. k < j \<and> k \<notin> D \<and> Statement_eq (sts ! k) (sts ! j))"

lemma dup_inv_step:
  assumes "dup_inv sts i D"
  shows "dup_inv sts (Suc i) (mark_dups sts i D)"
proof (cases "i \<in> D")
  case True
  then show ?thesis using assms unfolding dup_inv_def mark_dups_def by (simp, meson less_SucI)
next
  case False
  let ?new = "set (filter (\<lambda>j. Statement_eq (sts ! i) (sts ! j)) [i + 1..<length sts])"
  have "\<exists>k < Suc i. k < j \<and> k \<notin> D \<union> ?new \<and> Statement_eq (sts ! k) (sts ! j)" if j: "j \<in> D \<union> ?new" for j
  proof (cases "j \<in> D")
    case True
    then obtain k where "k < i" "k < j" "k \<notin> D" "Statement_eq (sts ! k) (sts ! j)"
      using assms unfolding dup_inv_def by blast
    then show ?thesis by (intro exI [of _ k]) auto
  next
    case outside: False
    then show ?thesis using j False by (intro exI [of _ i]) auto
  qed
  then show ?thesis unfolding dup_inv_def mark_dups_def using False by simp
qed

lemma dup_inv_foldl: "dup_inv sts n (foldl (\<lambda>D i. mark_dups sts i D) {} [0..<n])"
proof (induction n)
  case 0
  then show ?case by (simp add: dup_inv_def)
next
  case (Suc n)
  then show ?case using dup_inv_step by simp
qed

lemma kept_statements:
  shows "set (drop_duplicate_statements sts) \<subseteq> set sts"
    and "s \<in> set sts \<Longrightarrow> \<exists>k \<in> set (drop_duplicate_statements sts). k = s \<or> Statement_eq k s"
proof -
  let ?D = "duplicate_indices sts"
  have kept: "set (drop_duplicate_statements sts) = (!) sts ` {i. i < length sts \<and> i \<notin> ?D}"
    by (auto simp: drop_duplicate_statements_def)
  then show "set (drop_duplicate_statements sts) \<subseteq> set sts" by auto
  show "\<exists>k \<in> set (drop_duplicate_statements sts). k = s \<or> Statement_eq k s" if "s \<in> set sts"
  proof -
    obtain j where j: "j < length sts" "s = sts ! j" using \<open>s \<in> set sts\<close> by (metis in_set_conv_nth)
    show ?thesis
    proof (cases "j \<in> ?D")
      case True
      then obtain k where "k < length sts" "k \<notin> ?D" "Statement_eq (sts ! k) (sts ! j)"
        using dup_inv_foldl [of sts "length sts"] unfolding dup_inv_def duplicate_indices_def by blast
      then show ?thesis using j(2) unfolding kept by blast
    qed (use j in \<open>auto simp: kept\<close>)
  qed
qed

text \<open>
  C27: Merging policies that use no excluded resources does not change any decision: a request is
  decided on the merged policy as on all the statements together.
\<close>

theorem merge_preserves_decisions:
  assumes "\<forall>p \<in> set ps. \<forall>s \<in> set (statements p). wf_statement s \<and> not_resources s = []"
    and "\<forall>p \<in> set ps. \<forall>s \<in> set (statements p). Statement_check fuel now env args s \<noteq> None"
  shows "Policy_is_allowed fuel now env args (merge_policies ps) =
    Policy_is_allowed fuel now env args (default_policy (concat (map statements ps)))"
proof -
  let ?sts = "concat (map statements ps)"
  let ?kept = "drop_duplicate_statements ?sts"
  let ?app = "\<lambda>s. the (Statement_check fuel now env args s)"
  have wf: "\<forall>s \<in> set ?sts. wf_statement s \<and> not_resources s = []" using assms(1) by auto
  have tot: "\<forall>s \<in> set ?sts. Statement_check fuel now env args s = Some (?app s)" using assms(2) by auto
  have ex: "(\<exists>s \<in> set ?kept. effect s = e \<and> ?app s) \<longleftrightarrow> (\<exists>s \<in> set ?sts. effect s = e \<and> ?app s)" for e
  proof
    show "\<exists>s \<in> set ?sts. effect s = e \<and> ?app s" if "\<exists>s \<in> set ?kept. effect s = e \<and> ?app s"
      using that kept_statements(1) by blast
  next
    assume "\<exists>s \<in> set ?sts. effect s = e \<and> ?app s"
    then obtain s where s: "s \<in> set ?sts" "effect s = e" "?app s" by blast
    obtain k where k: "k \<in> set ?kept" "k = s \<or> Statement_eq k s" using kept_statements(2) [OF s(1)] by blast
    have ks: "k \<in> set ?sts" using k(1) kept_statements(1) by blast
    have "effect k = e \<and> ?app k"
    proof (cases "k = s")
      case False
      then have eq: "Statement_eq k s" using k(2) by blast
      have "?app k = ?app s"
        using Statement_agree [OF eq, of fuel now env args] wf ks s(1) tot unfolding agree_def by blast
      then show ?thesis using eq s(2,3) by (simp add: Statement_eq_def)
    qed (use s in simp)
    then show "\<exists>s \<in> set ?kept. effect s = e \<and> ?app s" using k(1) by blast
  qed
  have "\<forall>s \<in> set ?kept. Statement_check fuel now env args s = Some (?app s)"
    using tot kept_statements(1) by blast
  then show ?thesis
    using Policy_total [of "merge_policies ps" fuel now env args ?app]
      Policy_total [of "default_policy ?sts" fuel now env args ?app] tot
    by (simp add: merge_policies_def default_policy_def ex)
qed

theorem merge_preserves_decisions_witness:
  "Policy_is_allowed 3 ex_now ex_env ex_args
      (merge_policies [default_policy [ex_read_all], default_policy [ex_read_all]]) =
   Policy_is_allowed 3 ex_now ex_env ex_args (default_policy [ex_read_all, ex_read_all])"
proof -
  let ?ps = "[default_policy [ex_read_all], default_policy [ex_read_all]]"
  have "\<forall>p \<in> set ?ps. \<forall>s \<in> set (statements p). wf_statement s \<and> not_resources s = []"
    by (simp add: ex_policy_defs wf_statement_def unique_ops_def)
  moreover have "\<forall>p \<in> set ?ps. \<forall>s \<in> set (statements p). Statement_check 3 ex_now ex_env ex_args s \<noteq> None"
    by (simp add: default_policy_def ex_checks(2))
  ultimately show ?thesis
    using merge_preserves_decisions [of ?ps 3 ex_now ex_env ex_args] by (simp add: default_policy_def)
qed

text \<open>
  Two statements that differ only in their excluded resources count as equal, so merging drops
  the second one. A read of bucket \<open>a\<close> that the second policy denies, and that all the
  statements together deny, is allowed by the merged policy.
\<close>

theorem merge_loses_denials:
  "let p = default_policy [ex_deny_outside ''a/*'']; q = default_policy [ex_deny_outside ''b/*''];
       r = default_policy [ex_read_all]
   in Policy_is_allowed 3 now env ex_args q = Some False
      \<and> Policy_is_allowed 3 now env ex_args (default_policy (statements p @ statements q @ statements r)) = Some False
      \<and> statements (merge_policies [p, q, r]) = [ex_deny_outside ''a/*'', ex_read_all]
      \<and> Policy_is_allowed 3 now env ex_args (merge_policies [p, q, r]) = Some True"
proof -
  have e: "effect (ex_deny_outside p) = Deny" "effect ex_read_all = Allow" for p by (simp_all add: ex_policy_defs)
  have eq: "Statement_eq (ex_deny_outside p) (ex_deny_outside q)" "\<not> Statement_eq (ex_deny_outside p) ex_read_all" for p q
    by (simp_all add: Statement_eq_def ex_policy_defs set_eq_def Functions_eq_def)
  have up: "[0..<3] = [0, 1, 2]" "[1..<3] = [1, 2]" "[2..<3] = [2]" "[3..<3] = []" "[Suc 0..<3] = [1, 2]"
    by (simp_all add: upt_rec)
  have "duplicate_indices [ex_deny_outside ''a/*'', ex_deny_outside ''b/*'', ex_read_all] = {1}"
    by (simp add: duplicate_indices_def mark_dups_def up eq numeral_3_eq_3 del: set_filter)
  then have d: "drop_duplicate_statements [ex_deny_outside ''a/*'', ex_deny_outside ''b/*'', ex_read_all] =
      [ex_deny_outside ''a/*'', ex_read_all]"
    by (simp add: drop_duplicate_statements_def up numeral_3_eq_3)
  have o: "\<not> is_owner ex_args" "\<not> deny_only ex_args" by (simp_all add: ex_args_def)
  show ?thesis
    by (simp add: Let_def merge_policies_def default_policy_def d Policy_is_allowed_def Statement_is_allowed_def
        ex_deny_outside_check ex_checks(2) e Effect_is_allowed_def o)
qed

end
