(* ===== verification/DiskErrors.thy ===== *)
theory DiskErrors
  imports Prelude "HOL-Library.Word"
begin

text \<open>
  The error values of a drive, crates/ecstore/src/disk/error.rs: the variants of DiskError with
  their texts, the numbers they travel under between nodes, equality, cloning, and the
  conversions to and from std::io::Error. An io error has a kind and a payload, which is either
  a boxed DiskError or checksum mismatch, found again by a downcast, or any other error, known
  by its text.
\<close>

text \<open>std::io::ErrorKind: the kinds the sources name, and the rest by name.\<close>

datatype ErrorKind =
    NotFound | PermissionDenied | IsADirectory | NotADirectory | DirectoryNotEmpty
  | UnexpectedEof | TooManyLinks | InvalidInput | InvalidData | StorageFull | OtherKind
  | AnotherKind string

datatype (plugins only:) DiskError =
    MaxVersionsExceeded | Unexpected | CorruptedFormat | CorruptedBackend | UnformattedDisk
  | InconsistentDisk | UnsupportedDisk | DiskFull | DiskNotDir | DiskNotFound | DiskOngoingReq
  | DriveIsRoot | FaultyRemoteDisk | FaultyDisk | DiskAccessDenied | FileNotFound
  | FileVersionNotFound | TooManyOpenFiles | FileNameTooLong | VolumeExists | IsNotRegular
  | PathNotFound | VolumeNotFound | VolumeNotEmpty | VolumeAccessDenied | FileAccessDenied
  | FileCorrupt | ShortWrite | BitrotHashAlgoInvalid | CrossDeviceLink | LessData | MoreData
  | OutdatedXLMeta | PartMissingOrCorrupt | NoHealRequired | MethodNotAllowed
  | ErasureWriteQuorum | ErasureReadQuorum | Io io_error | SourceStalled | Timeout
  | InvalidPath
and io_error = IoError ErrorKind payload
and payload = Boxed DiskError | ChecksumMismatch string string | Plain string

primrec DiskError_to_string :: "DiskError \<Rightarrow> string"
  and io_to_string :: "io_error \<Rightarrow> string"
  and payload_to_string :: "payload \<Rightarrow> string" where
  "DiskError_to_string MaxVersionsExceeded = ''maximum versions exceeded, please delete few versions to proceed''"
| "DiskError_to_string Unexpected = ''unexpected error''"
| "DiskError_to_string CorruptedFormat = ''corrupted format''"
| "DiskError_to_string CorruptedBackend = ''corrupted backend''"
| "DiskError_to_string UnformattedDisk = ''unformatted disk error''"
| "DiskError_to_string InconsistentDisk = ''inconsistent drive found''"
| "DiskError_to_string UnsupportedDisk = ''drive does not support O_DIRECT''"
| "DiskError_to_string DiskFull = ''drive path full''"
| "DiskError_to_string DiskNotDir = ''disk not a dir''"
| "DiskError_to_string DiskNotFound = ''disk not found''"
| "DiskError_to_string DiskOngoingReq = ''drive still did not complete the request''"
| "DiskError_to_string DriveIsRoot = ''drive is part of root drive, will not be used''"
| "DiskError_to_string FaultyRemoteDisk = ''remote drive is faulty''"
| "DiskError_to_string FaultyDisk = ''drive is faulty''"
| "DiskError_to_string DiskAccessDenied = ''drive access denied''"
| "DiskError_to_string FileNotFound = ''file not found''"
| "DiskError_to_string FileVersionNotFound = ''file version not found''"
| "DiskError_to_string TooManyOpenFiles = ''too many open files, please increase '' @ [CHR 0x27] @ ''ulimit -n'' @ [CHR 0x27] @ ''''"
| "DiskError_to_string FileNameTooLong = ''file name too long''"
| "DiskError_to_string VolumeExists = ''volume already exists''"
| "DiskError_to_string IsNotRegular = ''not of regular file type''"
| "DiskError_to_string PathNotFound = ''path not found''"
| "DiskError_to_string VolumeNotFound = ''volume not found''"
| "DiskError_to_string VolumeNotEmpty = ''volume is not empty''"
| "DiskError_to_string VolumeAccessDenied = ''volume access denied''"
| "DiskError_to_string FileAccessDenied = ''disk access denied''"
| "DiskError_to_string FileCorrupt = ''file is corrupted''"
| "DiskError_to_string ShortWrite = ''short write''"
| "DiskError_to_string BitrotHashAlgoInvalid = ''bit-rot hash algorithm is invalid''"
| "DiskError_to_string CrossDeviceLink = ''Rename across devices not allowed, please fix your backend configuration''"
| "DiskError_to_string LessData = ''less data available than what was requested''"
| "DiskError_to_string MoreData = ''more data was sent than what was advertised''"
| "DiskError_to_string OutdatedXLMeta = ''outdated XL meta''"
| "DiskError_to_string PartMissingOrCorrupt = ''part missing or corrupt''"
| "DiskError_to_string NoHealRequired = ''No healing is required''"
| "DiskError_to_string MethodNotAllowed = ''method not allowed''"
| "DiskError_to_string ErasureWriteQuorum = ''erasure write quorum''"
| "DiskError_to_string ErasureReadQuorum = ''erasure read quorum''"
| "DiskError_to_string (Io e) = ''io error '' @ io_to_string e"
| "DiskError_to_string SourceStalled = ''source stalled''"
| "DiskError_to_string Timeout = ''timeout''"
| "DiskError_to_string InvalidPath = ''invalid path''"
| "io_to_string (IoError k p) = payload_to_string p"
| "payload_to_string (Boxed e) = DiskError_to_string e"
| "payload_to_string (ChecksumMismatch want got) =
    ''Bad checksum: Want '' @ want @ '' does not match calculated '' @ got"
| "payload_to_string (Plain s) = s"

primrec to_u32 :: "DiskError \<Rightarrow> u32" where
  "to_u32 MaxVersionsExceeded = 0x01"
| "to_u32 Unexpected = 0x02"
| "to_u32 CorruptedFormat = 0x03"
| "to_u32 CorruptedBackend = 0x04"
| "to_u32 UnformattedDisk = 0x05"
| "to_u32 InconsistentDisk = 0x06"
| "to_u32 UnsupportedDisk = 0x07"
| "to_u32 DiskFull = 0x08"
| "to_u32 DiskNotDir = 0x09"
| "to_u32 DiskNotFound = 0x0A"
| "to_u32 DiskOngoingReq = 0x0B"
| "to_u32 DriveIsRoot = 0x0C"
| "to_u32 FaultyRemoteDisk = 0x0D"
| "to_u32 FaultyDisk = 0x0E"
| "to_u32 DiskAccessDenied = 0x0F"
| "to_u32 FileNotFound = 0x10"
| "to_u32 FileVersionNotFound = 0x11"
| "to_u32 TooManyOpenFiles = 0x12"
| "to_u32 FileNameTooLong = 0x13"
| "to_u32 VolumeExists = 0x14"
| "to_u32 IsNotRegular = 0x15"
| "to_u32 PathNotFound = 0x16"
| "to_u32 VolumeNotFound = 0x17"
| "to_u32 VolumeNotEmpty = 0x18"
| "to_u32 VolumeAccessDenied = 0x19"
| "to_u32 FileAccessDenied = 0x1A"
| "to_u32 FileCorrupt = 0x1B"
| "to_u32 ShortWrite = 0x27"
| "to_u32 BitrotHashAlgoInvalid = 0x1C"
| "to_u32 CrossDeviceLink = 0x1D"
| "to_u32 LessData = 0x1E"
| "to_u32 MoreData = 0x1F"
| "to_u32 OutdatedXLMeta = 0x20"
| "to_u32 PartMissingOrCorrupt = 0x21"
| "to_u32 NoHealRequired = 0x22"
| "to_u32 MethodNotAllowed = 0x23"
| "to_u32 ErasureWriteQuorum = 0x25"
| "to_u32 ErasureReadQuorum = 0x26"
| "to_u32 (Io e) = 0x24"
| "to_u32 SourceStalled = 0x28"
| "to_u32 Timeout = 0x29"
| "to_u32 InvalidPath = 0x2A"

definition from_u32 :: "u32 \<Rightarrow> DiskError option" where
  "from_u32 error =
    (if error = 0x01 then Some MaxVersionsExceeded
     else if error = 0x02 then Some Unexpected
     else if error = 0x03 then Some CorruptedFormat
     else if error = 0x04 then Some CorruptedBackend
     else if error = 0x05 then Some UnformattedDisk
     else if error = 0x06 then Some InconsistentDisk
     else if error = 0x07 then Some UnsupportedDisk
     else if error = 0x08 then Some DiskFull
     else if error = 0x09 then Some DiskNotDir
     else if error = 0x0A then Some DiskNotFound
     else if error = 0x0B then Some DiskOngoingReq
     else if error = 0x0C then Some DriveIsRoot
     else if error = 0x0D then Some FaultyRemoteDisk
     else if error = 0x0E then Some FaultyDisk
     else if error = 0x0F then Some DiskAccessDenied
     else if error = 0x10 then Some FileNotFound
     else if error = 0x11 then Some FileVersionNotFound
     else if error = 0x12 then Some TooManyOpenFiles
     else if error = 0x13 then Some FileNameTooLong
     else if error = 0x14 then Some VolumeExists
     else if error = 0x15 then Some IsNotRegular
     else if error = 0x16 then Some PathNotFound
     else if error = 0x17 then Some VolumeNotFound
     else if error = 0x18 then Some VolumeNotEmpty
     else if error = 0x19 then Some VolumeAccessDenied
     else if error = 0x1A then Some FileAccessDenied
     else if error = 0x1B then Some FileCorrupt
     else if error = 0x1C then Some BitrotHashAlgoInvalid
     else if error = 0x1D then Some CrossDeviceLink
     else if error = 0x1E then Some LessData
     else if error = 0x1F then Some MoreData
     else if error = 0x20 then Some OutdatedXLMeta
     else if error = 0x21 then Some PartMissingOrCorrupt
     else if error = 0x22 then Some NoHealRequired
     else if error = 0x23 then Some MethodNotAllowed
     else if error = 0x24 then Some (Io (IoError OtherKind (Plain '''')))
     else if error = 0x25 then Some ErasureWriteQuorum
     else if error = 0x26 then Some ErasureReadQuorum
     else if error = 0x27 then Some ShortWrite
     else if error = 0x28 then Some SourceStalled
     else if error = 0x29 then Some Timeout
     else if error = 0x2A then Some InvalidPath
     else None)"
text \<open>PartialEq compares io errors by kind and text and all others by number.\<close>

fun kind :: "io_error \<Rightarrow> ErrorKind" where
  "kind (IoError k p) = k"

definition DiskError_eq :: "DiskError \<Rightarrow> DiskError \<Rightarrow> bool" where
  "DiskError_eq self other =
    (case (self, other) of
       (Io e1, Io e2) \<Rightarrow> kind e1 = kind e2 \<and> io_to_string e1 = io_to_string e2
     | _ \<Rightarrow> to_u32 self = to_u32 other)"

text \<open>DiskError::other boxes an error that is not a DiskError; it is known by its text.\<close>

definition DiskError_other :: "string \<Rightarrow> DiskError" where
  "DiskError_other error = Io (IoError OtherKind (Plain error))"

definition DiskError_clone :: "DiskError \<Rightarrow> DiskError" where
  "DiskError_clone self =
    (case self of
       Io io_error \<Rightarrow> Io (IoError (kind io_error) (Plain (io_to_string io_error)))
     | e \<Rightarrow> e)"

definition disk_from_io :: "io_error \<Rightarrow> DiskError" where
  "disk_from_io e =
    (case e of
       IoError k (Boxed d) \<Rightarrow> d
     | _ \<Rightarrow> Io e)"

definition io_from_disk :: "DiskError \<Rightarrow> io_error" where
  "io_from_disk e =
    (case e of
       Io io_error \<Rightarrow> io_error
     | e \<Rightarrow> IoError OtherKind (Boxed e))"

fun all_not_found_loop :: "DiskError option list \<Rightarrow> bool" where
  "all_not_found_loop [] = True"
| "all_not_found_loop (Some err # errs) =
    (if DiskError_eq err FileNotFound \<or> DiskError_eq err FileVersionNotFound
     then all_not_found_loop errs else False)"
| "all_not_found_loop (None # errs) = False"

definition is_all_not_found :: "DiskError option list \<Rightarrow> bool" where
  "is_all_not_found errs \<longleftrightarrow> all_not_found_loop errs \<and> errs \<noteq> []"

definition is_err_object_not_found :: "DiskError \<Rightarrow> bool" where
  "is_err_object_not_found err = (case err of FileNotFound \<Rightarrow> True | VolumeNotFound \<Rightarrow> True | _ \<Rightarrow> False)"

definition is_err_version_not_found :: "DiskError \<Rightarrow> bool" where
  "is_err_version_not_found err = (case err of FileVersionNotFound \<Rightarrow> True | _ \<Rightarrow> False)"

subsection \<open>Between nodes\<close>

text \<open>The message proto_gen::node_service::Error has a number and a text.\<close>

record proto_error =
  code :: u32
  error_info :: string

definition proto_from_disk :: "DiskError \<Rightarrow> proto_error" where
  "proto_from_disk e = \<lparr>code = to_u32 e, error_info = DiskError_to_string e\<rparr>"

definition disk_from_proto :: "proto_error \<Rightarrow> DiskError" where
  "disk_from_proto e =
    (case from_u32 (code e) of
       Some err \<Rightarrow> (case err of Io _ \<Rightarrow> DiskError_other (error_info e) | _ \<Rightarrow> err)
     | None \<Rightarrow> DiskError_other (error_info e))"

subsection \<open>Conversion of file system errors, error_conv.rs\<close>

definition to_file_error :: "io_error \<Rightarrow> io_error" where
  "to_file_error io_err =
    (case kind io_err of
       NotFound \<Rightarrow> io_from_disk FileNotFound
     | PermissionDenied \<Rightarrow> io_from_disk FileAccessDenied
     | IsADirectory \<Rightarrow> io_from_disk IsNotRegular
     | NotADirectory \<Rightarrow> io_from_disk FileAccessDenied
     | DirectoryNotEmpty \<Rightarrow> io_from_disk FileAccessDenied
     | UnexpectedEof \<Rightarrow> io_from_disk FaultyDisk
     | TooManyLinks \<Rightarrow> io_from_disk TooManyOpenFiles
     | InvalidInput \<Rightarrow> io_from_disk FileNotFound
     | InvalidData \<Rightarrow> io_from_disk FileCorrupt
     | StorageFull \<Rightarrow> io_from_disk DiskFull
     | _ \<Rightarrow> io_err)"

text \<open>io::Error::downcast: the boxed DiskError, or the error itself.\<close>

fun downcast :: "io_error \<Rightarrow> io_error + DiskError" where
  "downcast (IoError k (Boxed d)) = Inr d"
| "downcast e = Inl e"

definition to_volume_error :: "io_error \<Rightarrow> io_error" where
  "to_volume_error io_err =
    (case kind io_err of
       NotFound \<Rightarrow> io_from_disk VolumeNotFound
     | PermissionDenied \<Rightarrow> io_from_disk DiskAccessDenied
     | DirectoryNotEmpty \<Rightarrow> io_from_disk VolumeNotEmpty
     | NotADirectory \<Rightarrow> io_from_disk IsNotRegular
     | OtherKind \<Rightarrow>
         (case downcast io_err of
            Inr err \<Rightarrow>
              (case err of
                 FileNotFound \<Rightarrow> io_from_disk VolumeNotFound
               | FileAccessDenied \<Rightarrow> io_from_disk DiskAccessDenied
               | err \<Rightarrow> io_from_disk err)
          | Inl err \<Rightarrow> to_file_error err)
     | _ \<Rightarrow> to_file_error io_err)"

definition to_disk_error :: "io_error \<Rightarrow> io_error" where
  "to_disk_error io_err =
    (case kind io_err of
       NotFound \<Rightarrow> io_from_disk DiskNotFound
     | PermissionDenied \<Rightarrow> io_from_disk DiskAccessDenied
     | OtherKind \<Rightarrow>
         (case downcast io_err of
            Inr err \<Rightarrow>
              (case err of
                 FileNotFound \<Rightarrow> io_from_disk DiskNotFound
               | VolumeNotFound \<Rightarrow> io_from_disk DiskNotFound
               | FileAccessDenied \<Rightarrow> io_from_disk DiskAccessDenied
               | VolumeAccessDenied \<Rightarrow> io_from_disk DiskAccessDenied
               | err \<Rightarrow> io_from_disk err)
          | Inl err \<Rightarrow> to_volume_error err)
     | _ \<Rightarrow> to_volume_error io_err)"

definition to_access_error :: "io_error \<Rightarrow> DiskError \<Rightarrow> io_error" where
  "to_access_error io_err per_err =
    (case kind io_err of
       PermissionDenied \<Rightarrow> io_from_disk per_err
     | NotADirectory \<Rightarrow> io_from_disk per_err
     | NotFound \<Rightarrow> io_from_disk VolumeNotFound
     | UnexpectedEof \<Rightarrow> io_from_disk FaultyDisk
     | OtherKind \<Rightarrow>
         (case downcast io_err of
            Inr err \<Rightarrow>
              (case err of
                 DiskAccessDenied \<Rightarrow> io_from_disk per_err
               | FileAccessDenied \<Rightarrow> io_from_disk per_err
               | FileNotFound \<Rightarrow> io_from_disk VolumeNotFound
               | err \<Rightarrow> io_from_disk err)
          | Inl err \<Rightarrow> to_volume_error err)
     | _ \<Rightarrow> to_volume_error io_err)"

definition to_unformatted_disk_error :: "io_error \<Rightarrow> io_error" where
  "to_unformatted_disk_error io_err =
    (case kind io_err of
       NotFound \<Rightarrow> io_from_disk UnformattedDisk
     | PermissionDenied \<Rightarrow> io_from_disk DiskAccessDenied
     | UnexpectedEof \<Rightarrow> io_from_disk UnformattedDisk
     | InvalidData \<Rightarrow> io_from_disk UnformattedDisk
     | OtherKind \<Rightarrow>
         (case downcast io_err of
            Inr err \<Rightarrow>
              (case err of
                 FileNotFound \<Rightarrow> io_from_disk UnformattedDisk
               | DiskNotFound \<Rightarrow> io_from_disk UnformattedDisk
               | VolumeNotFound \<Rightarrow> io_from_disk UnformattedDisk
               | FileAccessDenied \<Rightarrow> io_from_disk DiskAccessDenied
               | DiskAccessDenied \<Rightarrow> io_from_disk DiskAccessDenied
               | _ \<Rightarrow> io_from_disk UnformattedDisk)
          | Inl _ \<Rightarrow> io_from_disk UnformattedDisk)
     | _ \<Rightarrow> io_from_disk UnformattedDisk)"

subsection \<open>Equality and round trips\<close>

text \<open>The errors that carry no payload.\<close>

definition is_Io :: "DiskError \<Rightarrow> bool" where
  "is_Io e = (case e of Io _ \<Rightarrow> True | _ \<Rightarrow> False)"

lemma is_Io_iff: "is_Io e \<longleftrightarrow> (\<exists>i. e = Io i)"
  by (cases e) (simp_all add: is_Io_def)

lemma from_to_u32: "\<not> is_Io e \<Longrightarrow> from_u32 (to_u32 e) = Some e"
  by (cases e) (simp_all add: from_u32_def is_Io_def)

lemma to_u32_Io: "to_u32 e = 0x24 \<longleftrightarrow> is_Io e"
  by (cases e) (simp_all add: is_Io_def)

lemma to_u32_inject:
  assumes "to_u32 a = to_u32 b" "\<not> (is_Io a \<and> is_Io b)"
  shows "a = b"
proof -
  have "is_Io a \<longleftrightarrow> is_Io b" using assms(1) to_u32_Io [of a] to_u32_Io [of b] by simp
  then have n: "\<not> is_Io a" "\<not> is_Io b" using assms(2) by auto
  have "Some a = from_u32 (to_u32 a)" by (rule from_to_u32 [OF n(1), symmetric])
  also have "\<dots> = from_u32 (to_u32 b)" by (simp only: assms(1))
  also have "\<dots> = Some b" by (rule from_to_u32 [OF n(2)])
  finally show ?thesis by (simp only: option.inject)
qed

lemma DiskError_eq_iff:
  "DiskError_eq a b \<longleftrightarrow>
    a = b \<or> (\<exists>e f. a = Io e \<and> b = Io f \<and> kind e = kind f \<and> io_to_string e = io_to_string f)"
proof (cases "is_Io a \<and> is_Io b")
  case True
  then obtain e f where "a = Io e" "b = Io f" by (auto simp: is_Io_iff)
  then show ?thesis by (auto simp: DiskError_eq_def)
next
  case False
  then have "DiskError_eq a b \<longleftrightarrow> to_u32 a = to_u32 b"
    by (auto simp: DiskError_eq_def is_Io_iff split: DiskError.split)
  then show ?thesis using to_u32_inject False by (auto simp: is_Io_iff)
qed

lemma DiskError_eq_refl [simp]: "DiskError_eq a a"
  by (simp add: DiskError_eq_iff)

lemma DiskError_eq_sym: "DiskError_eq a b \<Longrightarrow> DiskError_eq b a"
  by (auto simp: DiskError_eq_iff)

lemma DiskError_eq_trans: "DiskError_eq a b \<Longrightarrow> DiskError_eq b c \<Longrightarrow> DiskError_eq a c"
  by (auto simp: DiskError_eq_iff)

lemma DiskError_eq_plain: "\<not> is_Io b \<Longrightarrow> DiskError_eq a b \<longleftrightarrow> a = b"
  by (auto simp: DiskError_eq_iff is_Io_iff)

text \<open>Equal errors have equal numbers, which is what they are hashed by.\<close>

lemma DiskError_eq_hash: "DiskError_eq a b \<Longrightarrow> to_u32 a = to_u32 b"
  by (auto simp: DiskError_eq_iff)

lemma DiskError_clone_eq: "DiskError_eq (DiskError_clone e) e"
  by (cases "is_Io e") (auto simp: DiskError_eq_iff DiskError_clone_def is_Io_iff split: DiskError.split)

text \<open>
  An error survives the conversion to an io error and back, except one that already wraps a
  boxed drive error, which comes back unwrapped.
\<close>

lemma disk_from_io_Plain [simp]: "disk_from_io (IoError k (Plain s)) = Io (IoError k (Plain s))"
  by (simp add: disk_from_io_def)

lemma disk_from_io_Boxed [simp]: "disk_from_io (IoError k (Boxed d)) = d"
  by (simp add: disk_from_io_def)

lemma io_from_disk_Io [simp]: "io_from_disk (Io e) = e"
  by (simp add: io_from_disk_def)

lemma io_from_disk_plain: "\<not> is_Io e \<Longrightarrow> io_from_disk e = IoError OtherKind (Boxed e)"
  by (simp add: io_from_disk_def is_Io_def split: DiskError.split_asm)

lemma disk_io_disk: "\<not> is_Io e \<Longrightarrow> disk_from_io (io_from_disk e) = e"
  by (simp add: io_from_disk_plain)

text \<open>
  An error sent to another node arrives as an equal error exactly when it is not an io
  error; an io error arrives as an error of kind Other whose text has a prefix added, and so is
  never counted together with the same error of a local drive. A clone is always equal, and
  equal errors have equal numbers, as hashing needs.
\<close>

theorem disk_error_wire:
  "(DiskError_eq (disk_from_proto (proto_from_disk e)) e \<longleftrightarrow> \<not> is_Io e)
    \<and> DiskError_eq (DiskError_clone e) e
    \<and> disk_from_proto (proto_from_disk (Io i)) = DiskError_other (''io error '' @ io_to_string i)"
proof (intro conjI)
  have io: "disk_from_proto (proto_from_disk (Io i)) = DiskError_other (''io error '' @ io_to_string i)" for i
    by (simp add: disk_from_proto_def proto_from_disk_def from_u32_def)
  then show "disk_from_proto (proto_from_disk (Io i)) = DiskError_other (''io error '' @ io_to_string i)" .
  show "DiskError_eq (disk_from_proto (proto_from_disk e)) e \<longleftrightarrow> \<not> is_Io e"
  proof (cases "is_Io e")
    case True
    then obtain i where "e = Io i" by (auto simp: is_Io_iff)
    then show ?thesis using io [of i]
      by (simp add: DiskError_other_def DiskError_eq_def is_Io_def)
  next
    case False
    have "disk_from_proto (proto_from_disk e) = e"
      using False by (simp add: disk_from_proto_def proto_from_disk_def from_to_u32 is_Io_iff split: DiskError.split)
    then show ?thesis using False by simp
  qed
  show "DiskError_eq (DiskError_clone e) e" by (rule DiskError_clone_eq)
qed

end
