(* ===== verification/Tally.thy ===== *)
theory Tally
  imports Prelude "HOL-Library.Multiset"
begin

text \<open>
  Counting with a HashMap: the idiom \<^verbatim>\<open>*map.entry(k).or_insert(0) += 1\<close> that the quorum
  decisions over drives share. A map is an association list whose keys are pairwise different
  under the equality of the key type; the order in which a HashMap is iterated is not specified
  and is an argument of the definitions that iterate, a function that permutes the entries.
\<close>

type_synonym 'k counts = "('k \<times> nat) list"

fun tally_add :: "('k \<Rightarrow> 'k \<Rightarrow> bool) \<Rightarrow> ('k \<Rightarrow> 'k) \<Rightarrow> 'k \<Rightarrow> 'k counts \<Rightarrow> 'k counts" where
  "tally_add eq stored x [] = [(stored x, 1)]"
| "tally_add eq stored x ((k, c) # m) =
    (if eq k x then (k, c + 1) # m else (k, c) # tally_add eq stored x m)"

definition tally :: "('k \<Rightarrow> 'k \<Rightarrow> bool) \<Rightarrow> ('k \<Rightarrow> 'k) \<Rightarrow> 'k list \<Rightarrow> 'k counts" where
  "tally eq stored xs = fold (tally_add eq stored) xs []"

abbreviation occurrences :: "('k \<Rightarrow> 'k \<Rightarrow> bool) \<Rightarrow> 'k \<Rightarrow> 'k list \<Rightarrow> nat" where
  "occurrences eq k xs \<equiv> length (filter (eq k) xs)"

lemma filter_length_le: "(\<And>x. x \<in> set xs \<Longrightarrow> P x \<Longrightarrow> Q x) \<Longrightarrow> length (filter P xs) \<le> length (filter Q xs)"
  by (induction xs) (auto intro: le_SucI)

text \<open>An iteration order is a permutation of the entries.\<close>

definition iteration_order :: "('k counts \<Rightarrow> 'k counts) \<Rightarrow> bool" where
  "iteration_order ord \<longleftrightarrow> (\<forall>m. mset (ord m) = mset m)"

lemma iteration_order_id [simp]: "iteration_order (\<lambda>m. m)"
  by (simp add: iteration_order_def)

lemma iteration_order_rev [simp]: "iteration_order rev"
  by (simp add: iteration_order_def)

lemma iteration_order_set: "iteration_order ord \<Longrightarrow> set (ord m) = set m"
  unfolding iteration_order_def by (rule mset_eq_setD) (rule spec)

text \<open>Iterator::max_by on the counts: the last of the greatest entries.\<close>

fun max_by_count :: "'k counts \<Rightarrow> ('k \<times> nat) option" where
  "max_by_count [] = None"
| "max_by_count (e # m) =
    (case max_by_count m of
       None \<Rightarrow> Some e
     | Some b \<Rightarrow> if snd e \<le> snd b then Some b else Some e)"

lemma max_by_count_Some:
  assumes "max_by_count m = Some b"
  shows "b \<in> set m \<and> (\<forall>e \<in> set m. snd e \<le> snd b)"
  using assms
proof (induction m arbitrary: b)
  case (Cons e m)
  show ?case
  proof (cases "max_by_count m")
    case None
    then have "m = []" by (cases m) (auto split: option.splits if_splits)
    then show ?thesis using Cons.prems by simp
  next
    case (Some b')
    then show ?thesis using Cons.IH [OF Some] Cons.prems by (auto split: if_splits)
  qed
qed simp

lemma max_by_count_None [simp]: "max_by_count m = None \<longleftrightarrow> m = []"
  by (cases m) (auto split: option.splits)

text \<open>The loop that keeps the first entry above the maximum so far.\<close>

fun max_above :: "'k counts \<Rightarrow> 'k option \<Rightarrow> nat \<Rightarrow> 'k option \<times> nat" where
  "max_above [] best n = (best, n)"
| "max_above ((k, c) # m) best n = (if c > n then max_above m (Some k) c else max_above m best n)"

lemma max_above_spec:
  assumes "max_above m best n = (b, mx)"
  shows "n \<le> mx \<and> (\<forall>e \<in> set m. snd e \<le> mx) \<and> (mx = n \<and> b = best \<or> n < mx \<and> (\<exists>k. b = Some k \<and> (k, mx) \<in> set m))"
  using assms
proof (induction m best n rule: max_above.induct)
  case (2 k c m best n)
  then show ?case by (cases "c > n") fastforce+
qed simp

subsection \<open>What is counted\<close>

locale tally_key =
  fixes eq :: "'k \<Rightarrow> 'k \<Rightarrow> bool" and stored :: "'k \<Rightarrow> 'k"
  assumes eq_refl: "eq a a"
    and eq_sym: "eq a b \<Longrightarrow> eq b a"
    and eq_trans: "eq a b \<Longrightarrow> eq b c \<Longrightarrow> eq a c"
    and stored_eq: "eq (stored a) a"
begin

lemma eq_cong: "eq a b \<Longrightarrow> eq a x = eq b x"
  by (blast intro: eq_sym eq_trans)

lemma occurrences_cong:
  assumes "eq a b"
  shows "occurrences eq a xs = occurrences eq b xs"
  by (rule arg_cong [where f = length], rule filter_cong) (simp_all add: eq_cong [OF assms])

fun separated :: "'k counts \<Rightarrow> bool" where
  "separated [] = True"
| "separated ((k, c) # m) = ((\<forall>k' c'. (k', c') \<in> set m \<longrightarrow> \<not> eq k k') \<and> separated m)"

lemma tally_add_keys:
  "(k, c) \<in> set (tally_add eq stored x m) \<Longrightarrow> k = stored x \<or> (\<exists>c'. (k, c') \<in> set m)"
  by (induction eq stored x m rule: tally_add.induct) (auto split: if_splits)

lemma separated_add: "separated m \<Longrightarrow> separated (tally_add eq stored x m)"
proof (induction m)
  case (Cons e m)
  obtain k c where e: "e = (k, c)" by (cases e)
  show ?case
  proof (cases "eq k x")
    case False
    have "\<not> eq k (stored x)"
      using False stored_eq eq_trans by blast
    then have "\<forall>k' c'. (k', c') \<in> set (tally_add eq stored x m) \<longrightarrow> \<not> eq k k'"
      using Cons.prems tally_add_keys unfolding e by fastforce
    then show ?thesis using Cons False unfolding e by simp
  qed (use Cons.prems e in simp)
qed simp

lemma tally_add_mem:
  assumes "separated m" "(k, c) \<in> set (tally_add eq stored x m)"
  shows "(k, c) \<in> set m \<and> \<not> eq k x
    \<or> (\<exists>c'. (k, c') \<in> set m \<and> eq k x \<and> c = c' + 1)
    \<or> k = stored x \<and> c = 1 \<and> (\<forall>k' c'. (k', c') \<in> set m \<longrightarrow> \<not> eq k' x)"
  using assms
proof (induction m)
  case (Cons e m)
  obtain h n where e: "e = (h, n)" by (cases e)
  show ?case
  proof (cases "eq h x")
    case True
    have "\<not> eq k x" if "(k, c) \<in> set m"
      using that Cons.prems(1) True eq_sym eq_trans unfolding e by (meson separated.simps(2))
    then show ?thesis using Cons.prems(2) True unfolding e by auto
  next
    case False
    have "separated m" using Cons.prems(1) unfolding e by simp
    then show ?thesis using Cons.IH Cons.prems(2) False unfolding e by auto
  qed
qed simp

lemma tally_add_covers: "\<exists>k c. (k, c) \<in> set (tally_add eq stored x m) \<and> eq k x"
proof (induction m)
  case (Cons e m)
  then show ?case by (cases e) auto
qed (simp add: stored_eq)

lemma tally_add_keeps: "(k, c) \<in> set m \<Longrightarrow> \<exists>c'. (k, c') \<in> set (tally_add eq stored x m)"
  by (induction eq stored x m rule: tally_add.induct) auto

text \<open>Every entry counts the elements equal to its key, and every element has an entry.\<close>

definition counts_of :: "'k list \<Rightarrow> 'k counts \<Rightarrow> bool" where
  "counts_of xs m \<longleftrightarrow>
    (\<forall>k c. (k, c) \<in> set m \<longrightarrow> c = occurrences eq k xs \<and> (\<exists>x \<in> set xs. eq k x))
    \<and> (\<forall>x \<in> set xs. \<exists>k c. (k, c) \<in> set m \<and> eq k x)"

lemma counts_of_add:
  assumes "separated m" "counts_of xs m"
  shows "counts_of (xs @ [x]) (tally_add eq stored x m)"
proof -
  have fresh: "occurrences eq (stored x) xs = 0" if "\<forall>k' c'. (k', c') \<in> set m \<longrightarrow> \<not> eq k' x"
  proof -
    have "\<not> eq (stored x) y" if "y \<in> set xs" for y
    proof
      assume "eq (stored x) y"
      then have y: "eq y x" using stored_eq [of x] eq_sym eq_trans by blast
      obtain k c where "(k, c) \<in> set m" "eq k y"
        using assms(2) \<open>y \<in> set xs\<close> unfolding counts_of_def by blast
      then show False
        using \<open>\<forall>k' c'. (k', c') \<in> set m \<longrightarrow> \<not> eq k' x\<close> eq_trans [OF _ y] by blast
    qed
    then show ?thesis by simp
  qed
  have "c = occurrences eq k (xs @ [x]) \<and> (\<exists>y \<in> set (xs @ [x]). eq k y)"
    if "(k, c) \<in> set (tally_add eq stored x m)" for k c
    using tally_add_mem [OF assms(1) that] assms(2) fresh stored_eq unfolding counts_of_def by auto
  moreover have "\<exists>k c. (k, c) \<in> set (tally_add eq stored x m) \<and> eq k y" if "y \<in> set (xs @ [x])" for y
    using that tally_add_covers tally_add_keeps assms(2) unfolding counts_of_def by fastforce
  ultimately show ?thesis unfolding counts_of_def by blast
qed

lemma tally_correct: "separated (tally eq stored xs) \<and> counts_of xs (tally eq stored xs)"
proof (induction xs rule: rev_induct)
  case (snoc x xs)
  have "tally eq stored (xs @ [x]) = tally_add eq stored x (tally eq stored xs)"
    by (simp add: tally_def)
  then show ?case using snoc separated_add counts_of_add by simp
qed (simp add: tally_def counts_of_def)

lemma tally_entry:
  "(k, c) \<in> set (tally eq stored xs) \<Longrightarrow> c = occurrences eq k xs \<and> (\<exists>x \<in> set xs. eq k x)"
  using tally_correct unfolding counts_of_def by blast

lemma tally_covers:
  assumes "x \<in> set xs"
  obtains k where "(k, occurrences eq x xs) \<in> set (tally eq stored xs)" "eq k x"
  using tally_correct assms occurrences_cong unfolding counts_of_def by metis

lemma tally_empty [simp]: "tally eq stored xs = [] \<longleftrightarrow> xs = []"
proof
  assume "tally eq stored xs = []"
  then have "set xs = {}" using tally_correct [of xs] unfolding counts_of_def by auto
  then show "xs = []" by simp
qed (simp add: tally_def)

text \<open>Two different keys cannot both have more than half of the elements.\<close>

lemma occurrences_disjoint:
  assumes "\<not> eq a b"
  shows "occurrences eq a xs + occurrences eq b xs \<le> length xs"
proof -
  have "\<not> (eq a x \<and> eq b x)" for x using assms eq_sym eq_trans by blast
  then show ?thesis by (induction xs) auto
qed

end

end
