(* ===== verification/Quorum.thy ===== *)
theory Quorum
  imports DiskErrors Tally
begin

text \<open>
  Reduction of the results of all drives to one result, crates/ecstore/src/disk/error_reduce.rs.
  An entry None is a success. The iteration order of the HashMap of counts is the argument
  \<^verbatim>\<open>ord\<close>.
\<close>

definition OBJECT_OP_IGNORED_ERRS :: "DiskError list" where
  "OBJECT_OP_IGNORED_ERRS =
    [DiskNotFound, FaultyDisk, FaultyRemoteDisk, DiskAccessDenied, DiskOngoingReq, UnformattedDisk]"

definition BUCKET_OP_IGNORED_ERRS :: "DiskError list" where
  "BUCKET_OP_IGNORED_ERRS =
    [DiskNotFound, FaultyDisk, FaultyRemoteDisk, DiskAccessDenied, UnformattedDisk]"

definition BASE_IGNORED_ERRS :: "DiskError list" where
  "BASE_IGNORED_ERRS = [DiskNotFound, FaultyDisk, FaultyRemoteDisk]"

definition is_ignored_err :: "DiskError list \<Rightarrow> DiskError \<Rightarrow> bool" where
  "is_ignored_err ignored_errs err = list_ex (\<lambda>e. DiskError_eq e err) ignored_errs"

definition count_errs :: "DiskError option list \<Rightarrow> DiskError \<Rightarrow> nat" where
  "count_errs errors err =
    length (filter (\<lambda>e. case e of None \<Rightarrow> False | Some e' \<Rightarrow> DiskError_eq e' err) errors)"

definition nil_count :: "DiskError option list \<Rightarrow> nat" where
  "nil_count errors = length (filter Option.is_none errors)"

text \<open>The errors that are counted: those that are present and not ignored.\<close>

fun counted :: "DiskError list \<Rightarrow> DiskError option list \<Rightarrow> DiskError list" where
  "counted ignored_errs [] = []"
| "counted ignored_errs (None # errors) = counted ignored_errs errors"
| "counted ignored_errs (Some e # errors) =
    (if is_ignored_err ignored_errs e then counted ignored_errs errors
     else e # counted ignored_errs errors)"

definition reduce_errs ::
  "(DiskError counts \<Rightarrow> DiskError counts) \<Rightarrow> DiskError option list \<Rightarrow> DiskError list
    \<Rightarrow> nat \<times> DiskError option" where
  "reduce_errs ord errors ignored_errs =
    (let nil_error = DiskError_other ''nil'';
         nil = nil_count errors;
         err_counts = tally DiskError_eq DiskError_clone
           (counted ignored_errs errors);
         (best_err, best_count) =
           (case max_by_count (ord err_counts) of None \<Rightarrow> (nil_error, 0) | Some b \<Rightarrow> b)
     in if nil > best_count \<or> nil = best_count \<and> nil > 0 then (nil, None)
        else (best_count, Some best_err))"

definition reduce_quorum_errs ::
  "(DiskError counts \<Rightarrow> DiskError counts) \<Rightarrow> DiskError option list \<Rightarrow> DiskError list \<Rightarrow> nat
    \<Rightarrow> DiskError \<Rightarrow> DiskError option" where
  "reduce_quorum_errs ord errors ignored_errs quorun quorun_err =
    (case reduce_errs ord errors ignored_errs of
       (max_count, err) \<Rightarrow> if max_count \<ge> quorun then err else Some quorun_err)"

definition reduce_write_quorum_errs ::
  "(DiskError counts \<Rightarrow> DiskError counts) \<Rightarrow> DiskError option list \<Rightarrow> DiskError list \<Rightarrow> nat
    \<Rightarrow> DiskError option" where
  "reduce_write_quorum_errs ord errors ignored_errs quorun =
    reduce_quorum_errs ord errors ignored_errs quorun ErasureWriteQuorum"

definition reduce_read_quorum_errs ::
  "(DiskError counts \<Rightarrow> DiskError counts) \<Rightarrow> DiskError option list \<Rightarrow> DiskError list \<Rightarrow> nat
    \<Rightarrow> DiskError option" where
  "reduce_read_quorum_errs ord errors ignored_errs quorun =
    reduce_quorum_errs ord errors ignored_errs quorun ErasureReadQuorum"

fun all_buckets_not_found_loop :: "DiskError option list \<Rightarrow> bool" where
  "all_buckets_not_found_loop [] = True"
| "all_buckets_not_found_loop (Some err # errs) =
    (if DiskError_eq err DiskNotFound \<or> DiskError_eq err VolumeNotFound
     then all_buckets_not_found_loop errs else False)"
| "all_buckets_not_found_loop (None # errs) = False"

definition is_all_buckets_not_found :: "DiskError option list \<Rightarrow> bool" where
  "is_all_buckets_not_found errs \<longleftrightarrow> all_buckets_not_found_loop errs \<and> errs \<noteq> []"

interpretation disk_errors: tally_key DiskError_eq DiskError_clone
  by unfold_locales (auto intro: DiskError_eq_sym DiskError_eq_trans DiskError_clone_eq)

subsection \<open>What the reduction reports\<close>

lemma is_ignored_cong: "DiskError_eq a b \<Longrightarrow> is_ignored_err ig a = is_ignored_err ig b"
  unfolding is_ignored_err_def list_ex_iff
  by (meson DiskError_eq_sym DiskError_eq_trans)

lemma count_errs_Cons [simp]:
  "count_errs [] e = 0"
  "count_errs (None # xs) e = count_errs xs e"
  "count_errs (Some y # xs) e = (if DiskError_eq y e then 1 else 0) + count_errs xs e"
  by (simp_all add: count_errs_def)

lemma occurrences_counted:
  "occurrences DiskError_eq e (counted ig errors) = (if is_ignored_err ig e then 0 else count_errs errors e)"
proof (induction errors)
  case (Cons x xs)
  show ?case
  proof (cases x)
    case (Some y)
    have s: "DiskError_eq e y \<longleftrightarrow> DiskError_eq y e" by (blast intro: DiskError_eq_sym)
    show ?thesis
    proof (cases "DiskError_eq y e")
      case True
      then show ?thesis using Cons is_ignored_cong [OF True] s unfolding Some by simp
    next
      case False
      then show ?thesis using Cons s unfolding Some by (simp split: if_splits)
    qed
  qed (use Cons in simp)
qed simp

lemma nil_count_le: "nil_count errors + count_errs errors e \<le> length errors"
  unfolding nil_count_def count_errs_def
  by (induction errors) (auto split: option.split)

lemma count_errs_cong: "DiskError_eq a b \<Longrightarrow> count_errs errors a = count_errs errors b"
  unfolding count_errs_def
  by (rule arg_cong [where f = length], rule filter_cong)
    (auto split: option.split intro: DiskError_eq_sym DiskError_eq_trans)

lemma count_errs_disjoint: "\<not> DiskError_eq a b \<Longrightarrow> count_errs errors a + count_errs errors b \<le> length errors"
  unfolding count_errs_def
  by (induction errors) (auto split: option.split intro: DiskError_eq_sym DiskError_eq_trans)

lemma counted_not_ignored: "e \<in> set (counted ig errors) \<Longrightarrow> \<not> is_ignored_err ig e"
  by (induction ig errors rule: counted.induct) (auto split: if_splits)

text \<open>The two outcomes of the reduction, whatever the iteration order.\<close>

lemma reduce_errs_outcomes:
  assumes ord: "iteration_order ord" and r: "reduce_errs ord errors ig = (n, res)"
  shows "(res = None \<and> n = nil_count errors \<and> 0 < n
          \<and> (\<forall>e. \<not> is_ignored_err ig e \<longrightarrow> count_errs errors e \<le> n))
    \<or> (\<exists>e. res = Some e \<and> \<not> is_ignored_err ig e \<and> n = count_errs errors e \<and> nil_count errors < n
          \<and> (\<forall>e'. \<not> is_ignored_err ig e' \<longrightarrow> count_errs errors e' \<le> n))
    \<or> (res = Some (DiskError_other ''nil'') \<and> n = 0 \<and> nil_count errors = 0
          \<and> (\<forall>e. \<not> is_ignored_err ig e \<longrightarrow> count_errs errors e = 0))"
proof -
  let ?c = "counted ig errors" and ?t = "tally DiskError_eq DiskError_clone (counted ig errors)"
  have occ: "occurrences DiskError_eq e ?c = count_errs errors e" if "\<not> is_ignored_err ig e" for e
    using that by (simp only: occurrences_counted if_False)
  show ?thesis
  proof (cases "max_by_count (ord ?t)")
    case None
    then have "set (ord ?t) = {}" by simp
    then have "?t = []" by (simp add: iteration_order_set [OF ord])
    then have "?c = []" by (simp only: disk_errors.tally_empty)
    then have "count_errs errors e = 0" if "\<not> is_ignored_err ig e" for e
      using occ [OF that] by simp
    then show ?thesis using r None by (auto simp: reduce_errs_def Let_def split: if_splits)
  next
    case (Some b)
    obtain k c where b: "b = (k, c)" by (cases b)
    have mx: "(k, c) \<in> set ?t" "\<forall>e \<in> set ?t. snd e \<le> c"
      using max_by_count_Some [OF Some] by (simp_all add: iteration_order_set [OF ord] b)
    have k: "c = occurrences DiskError_eq k ?c" "\<exists>x \<in> set ?c. DiskError_eq k x"
      using disk_errors.tally_entry [OF mx(1)] by blast+
    then have nk: "\<not> is_ignored_err ig k" using counted_not_ignored is_ignored_cong by blast
    have c: "c = count_errs errors k" using k(1) occ [OF nk] by simp
    have ub: "count_errs errors e \<le> c" if ne: "\<not> is_ignored_err ig e" for e
    proof (cases "count_errs errors e = 0")
      case False
      then obtain x where x: "x \<in> set ?c" "DiskError_eq e x"
        using occ [OF ne] by (metis filter_empty_conv length_0_conv)
      obtain k' where "(k', occurrences DiskError_eq x ?c) \<in> set ?t"
        using disk_errors.tally_covers [OF x(1)] .
      then have "occurrences DiskError_eq x ?c \<le> c" using mx(2) by force
      then show ?thesis using disk_errors.occurrences_cong [OF x(2), of ?c] occ [OF ne] by simp
    qed simp
    have "0 < c" using k by (auto simp: filter_empty_conv)
    then show ?thesis using r Some b nk c ub
      by (auto simp: reduce_errs_def Let_def split: if_splits intro: order.trans [OF ub])
  qed
qed

lemma reduce_errs_cases:
  assumes "iteration_order ord" "reduce_errs ord errors ig = (n, res)"
  obtains (ok) "res = None" "n = nil_count errors" "0 < n"
      "\<And>e. \<not> is_ignored_err ig e \<Longrightarrow> count_errs errors e \<le> n"
    | (err) e where "res = Some e" "\<not> is_ignored_err ig e" "n = count_errs errors e" "nil_count errors < n"
      "\<And>e'. \<not> is_ignored_err ig e' \<Longrightarrow> count_errs errors e' \<le> n"
    | (ignored) "res = Some (DiskError_other ''nil'')" "n = 0" "nil_count errors = 0"
      "\<And>e. \<not> is_ignored_err ig e \<Longrightarrow> count_errs errors e = 0"
  using reduce_errs_outcomes [OF assms]
  by (elim disjE exE conjE) ((rule ok; simp), (rule err; simp), (rule ignored; simp))

text \<open>
  C30: The reduction over the drives, whatever order the map of counts is iterated in: without
  an error it reports success only if at least a quorum of drives succeeded, and always then
  when the quorum is at least half of the drives. For a quorum of more than half, an error that
  is not ignored and that a quorum of drives reports is the result, and if neither success nor
  any counted error reaches the quorum the result is the quorum error.
\<close>

theorem quorum_reduction:
  assumes ord: "iteration_order ord" and q: "0 < q"
  shows "(reduce_quorum_errs ord errors ig q qe = None \<longrightarrow> q \<le> nil_count errors)
    \<and> (length errors \<le> 2 * q \<longrightarrow> q \<le> nil_count errors \<longrightarrow> reduce_quorum_errs ord errors ig q qe = None)
    \<and> (length errors < 2 * q \<longrightarrow> \<not> is_ignored_err ig e \<longrightarrow> q \<le> count_errs errors e \<longrightarrow>
        (\<exists>e'. reduce_quorum_errs ord errors ig q qe = Some e' \<and> DiskError_eq e' e))
    \<and> (nil_count errors < q \<longrightarrow> (\<forall>e. \<not> is_ignored_err ig e \<longrightarrow> count_errs errors e < q) \<longrightarrow>
        reduce_quorum_errs ord errors ig q qe = Some qe)"
proof (intro conjI impI)
  obtain n res where r: "reduce_errs ord errors ig = (n, res)" by (cases "reduce_errs ord errors ig")
  have red: "reduce_quorum_errs ord errors ig q qe = (if q \<le> n then res else Some qe)"
    by (simp add: reduce_quorum_errs_def r)
  show "q \<le> nil_count errors" if "reduce_quorum_errs ord errors ig q qe = None"
    using ord r by (cases rule: reduce_errs_cases) (use that in \<open>simp_all add: red split: if_splits\<close>)
  show "reduce_quorum_errs ord errors ig q qe = None"
    if a: "length errors \<le> 2 * q" "q \<le> nil_count errors"
    using ord r
  proof (cases rule: reduce_errs_cases)
    case (err e)
    then show ?thesis using a nil_count_le [of errors e] by linarith
  qed (use a q red in auto)
  show "\<exists>e'. reduce_quorum_errs ord errors ig q qe = Some e' \<and> DiskError_eq e' e"
    if a: "length errors < 2 * q" "\<not> is_ignored_err ig e" "q \<le> count_errs errors e"
    using ord r
  proof (cases rule: reduce_errs_cases)
    case ok
    then show ?thesis using a ok(4) [OF a(2)] nil_count_le [of errors e] by linarith
  next
    case (err e0)
    then have "DiskError_eq e0 e"
      using a err(5) [OF a(2)] count_errs_disjoint [of e0 e errors] by linarith
    then show ?thesis using err(1) err(5) [OF a(2)] a(3) by (simp add: red)
  qed (use a q in auto)
  show "reduce_quorum_errs ord errors ig q qe = Some qe"
    if a: "nil_count errors < q" "\<forall>e. \<not> is_ignored_err ig e \<longrightarrow> count_errs errors e < q"
    using ord r by (cases rule: reduce_errs_cases) (use a q red in auto)
qed

theorem quorum_reduction_witness:
  "reduce_quorum_errs rev [None, Some FileNotFound, None, None] OBJECT_OP_IGNORED_ERRS 3 ErasureReadQuorum = None
   \<and> 3 \<le> nil_count [None, Some FileNotFound, None, None]"
proof -
  have "reduce_quorum_errs rev [None, Some FileNotFound, None, None] OBJECT_OP_IGNORED_ERRS 3 ErasureReadQuorum = None"
    using quorum_reduction [of rev 3 "[None, Some FileNotFound, None, None]"] by (simp add: nil_count_def)
  then show ?thesis by (simp add: nil_count_def)
qed

end
