(* ===== verification/Erasure.thy ===== *)
theory Erasure
  imports Quorum
begin

text \<open>
  Splitting a block into data and parity shards and putting it together again,
  crates/ecstore/src/erasure_coding/erasure.rs. The Reed-Solomon coder itself is the crate
  reed_solomon_simd: a record of its two operations is an argument of every definition, and
  \<^verbatim>\<open>rs_code\<close> states what its documentation promises. A result None is a panic; a panic by a
  division by zero (no data shards, block size zero) is written out where a result can carry it.
\<close>

subsection \<open>The coder\<close>

text \<open>
  Encoding takes the shard length and the original shards and gives the recovery shards;
  decoding takes the original and recovery shards at hand with their indices and gives the
  restored originals. Every failing step of the crate is reported with a text.
\<close>

record codec =
  rs_encode :: "nat \<Rightarrow> nat \<Rightarrow> nat \<Rightarrow> bytes list \<Rightarrow> string + bytes list"
  rs_decode :: "nat \<Rightarrow> nat \<Rightarrow> nat \<Rightarrow> (nat \<times> bytes) list \<Rightarrow> (nat \<times> bytes) list \<Rightarrow> string + (nat \<times> bytes) list"

type_synonym shards = "bytes option list"

definition equal_length :: "nat \<Rightarrow> bytes list \<Rightarrow> bool" where
  "equal_length len xs \<longleftrightarrow> (\<forall>x \<in> set xs. length x = len)"

text \<open>
  What the crate documents for d original and p recovery shards of even length: encoding
  gives p shards of that length, and any d of all the shards restore the missing originals.
\<close>

definition restores :: "codec \<Rightarrow> nat \<Rightarrow> nat \<Rightarrow> nat \<Rightarrow> bytes list \<Rightarrow> bytes list \<Rightarrow> bool" where
  "restores c d p len xs ys \<longleftrightarrow>
    (\<forall>P Q. d \<le> length (filter P [0..<d]) + length (filter Q [0..<p]) \<longrightarrow>
       (\<exists>res. rs_decode c d p len (map (\<lambda>i. (i, xs ! i)) (filter P [0..<d]))
                (map (\<lambda>j. (j, ys ! j)) (filter Q [0..<p])) = Inr res
            \<and> (\<forall>i < d. \<not> P i \<longrightarrow> map_of res i = Some (xs ! i))))"

definition rs_code :: "codec \<Rightarrow> nat \<Rightarrow> nat \<Rightarrow> bool" where
  "rs_code c d p \<longleftrightarrow>
    (\<forall>len xs. 0 < len \<and> even len \<and> length xs = d \<and> equal_length len xs \<longrightarrow>
       (\<exists>ys. rs_encode c d p len xs = Inr ys \<and> length ys = p \<and> equal_length len ys
           \<and> restores c d p len xs ys))"

subsection \<open>ReedSolomonEncoder\<close>

text \<open>
  The two cached coders are reset before they are used again and hold no other state, so they
  do not appear.
\<close>

record ReedSolomonEncoder =
  rs_data_shards :: nat
  rs_parity_shards :: nat

type_synonym 'a io_result = "io_error + 'a"

definition io_other :: "string \<Rightarrow> io_error" where
  "io_other s = IoError OtherKind (Plain s)"

text \<open>copy_from_slice panics when the lengths differ.\<close>

fun copy_recovery :: "nat \<Rightarrow> bytes list \<Rightarrow> bytes list \<Rightarrow> bytes list option" where
  "copy_recovery k [] shards_vec = Some shards_vec"
| "copy_recovery k (r # rs) shards_vec =
    (if k < length shards_vec then
       if length (shards_vec ! k) = length r then copy_recovery (k + 1) rs (shards_vec[k := r])
       else None
     else copy_recovery (k + 1) rs shards_vec)"

definition encode_with_simd ::
  "codec \<Rightarrow> ReedSolomonEncoder \<Rightarrow> bytes list \<Rightarrow> bytes list io_result option" where
  "encode_with_simd c self shards_vec =
    (case shards_vec of
       [] \<Rightarrow> None
     | s # _ \<Rightarrow>
         (case rs_encode c (rs_data_shards self) (rs_parity_shards self) (length s)
                 (take (rs_data_shards self) shards_vec) of
            Inl e \<Rightarrow> Some (Inl (io_other e))
          | Inr recovery \<Rightarrow> map_option Inr (copy_recovery (rs_data_shards self) recovery shards_vec)))"

definition RS_encode :: "codec \<Rightarrow> ReedSolomonEncoder \<Rightarrow> bytes list \<Rightarrow> bytes list io_result option" where
  "RS_encode c self shards =
    (if shards = [] then Some (Inr shards) else encode_with_simd c self shards)"

text \<open>The shards present with their index, as originals below the data shards, as recovery above.\<close>

definition present :: "shards \<Rightarrow> nat \<Rightarrow> bool" where
  "present shards i \<longleftrightarrow> i < length shards \<and> shards ! i \<noteq> None"

definition originals :: "nat \<Rightarrow> shards \<Rightarrow> (nat \<times> bytes) list" where
  "originals d shards =
    map (\<lambda>i. (i, the (shards ! i))) (filter (present shards) [0..<min d (length shards)])"

definition recoveries :: "nat \<Rightarrow> shards \<Rightarrow> (nat \<times> bytes) list" where
  "recoveries d shards =
    map (\<lambda>j. (j, the (shards ! (d + j)))) (filter (\<lambda>j. present shards (d + j)) [0..<length shards - d])"

definition fill_missing :: "nat \<Rightarrow> (nat \<times> bytes) list \<Rightarrow> shards \<Rightarrow> shards" where
  "fill_missing d restored shards =
    map (\<lambda>i. if shards ! i = None \<and> i < d then map_of restored i else shards ! i) [0..<length shards]"

definition reconstruct_with_simd :: "codec \<Rightarrow> ReedSolomonEncoder \<Rightarrow> shards \<Rightarrow> shards io_result" where
  "reconstruct_with_simd c self shards =
    (case find (\<lambda>s. s \<noteq> None) shards of
       None \<Rightarrow> Inl (io_other ''No valid shards found for reconstruction'')
     | Some s \<Rightarrow>
         (case rs_decode c (rs_data_shards self) (rs_parity_shards self) (length (the s))
                 (originals (rs_data_shards self) shards) (recoveries (rs_data_shards self) shards) of
            Inl e \<Rightarrow> Inl (io_other e)
          | Inr restored \<Rightarrow> Inr (fill_missing (rs_data_shards self) restored shards)))"

definition reconstruct :: "codec \<Rightarrow> ReedSolomonEncoder \<Rightarrow> shards \<Rightarrow> shards io_result" where
  "reconstruct c self shards = reconstruct_with_simd c self shards"

subsection \<open>Erasure\<close>

record Erasure =
  data_shards :: nat
  parity_shards :: nat
  encoder :: "ReedSolomonEncoder option"
  block_size :: nat

definition Erasure_new :: "nat \<Rightarrow> nat \<Rightarrow> nat \<Rightarrow> Erasure" where
  "Erasure_new d p bs =
    \<lparr>data_shards = d, parity_shards = p,
     encoder = (if p > 0 then Some \<lparr>rs_data_shards = d, rs_parity_shards = p\<rparr> else None),
     block_size = bs\<rparr>"

definition div_ceil :: "nat \<Rightarrow> nat \<Rightarrow> nat" where
  "div_ceil n d = n div d + (if n mod d > 0 then 1 else 0)"

text \<open>The mask of all bits but the lowest rounds down to an even number.\<close>

definition calc_shard_size :: "nat \<Rightarrow> nat \<Rightarrow> nat" where
  "calc_shard_size n d = (let m = div_ceil n d + 1 in m - m mod 2)"

definition total_shard_count :: "Erasure \<Rightarrow> nat" where
  "total_shard_count self = data_shards self + parity_shards self"

definition resize :: "nat \<Rightarrow> bytes \<Rightarrow> bytes" where
  "resize n xs = take n xs @ replicate (n - length xs) 0"

text \<open>slice::chunks_exact: whole chunks only; a chunk size of zero panics.\<close>

fun chunks_exact :: "nat \<Rightarrow> 'a list \<Rightarrow> 'a list list" where
  "chunks_exact n xs = (if n = 0 \<or> length xs < n then [] else take n xs # chunks_exact n (drop n xs))"

declare chunks_exact.simps [simp del]

fun split_off :: "nat \<Rightarrow> nat \<Rightarrow> bytes \<Rightarrow> bytes list" where
  "split_off 0 per buf = []"
| "split_off (Suc n) per buf = take per buf # split_off n per (drop per buf)"

definition encode_data :: "codec \<Rightarrow> Erasure \<Rightarrow> bytes \<Rightarrow> bytes list io_result option" where
  "encode_data c self data =
    (if data_shards self = 0 then None
     else
       (let per_shard_size = calc_shard_size (length data) (data_shards self);
            need_total_size = per_shard_size * total_shard_count self;
            data_buffer = resize need_total_size data
        in if per_shard_size = 0 then None
           else
             (let data_slices = chunks_exact per_shard_size data_buffer;
                  coded =
                    (if parity_shards self > 0 then
                       (case encoder self of
                          Some enc \<Rightarrow> RS_encode c enc data_slices
                        | None \<Rightarrow> Some (Inr data_slices))
                     else Some (Inr data_slices))
              in case coded of
                   None \<Rightarrow> None
                 | Some (Inl e) \<Rightarrow> Some (Inl e)
                 | Some (Inr slices) \<Rightarrow>
                     Some (Inr (split_off (total_shard_count self) per_shard_size (concat slices))))))"

definition decode_data :: "codec \<Rightarrow> Erasure \<Rightarrow> shards \<Rightarrow> shards io_result" where
  "decode_data c self shards =
    (if parity_shards self > 0 then
       (case encoder self of Some enc \<Rightarrow> reconstruct c enc shards | None \<Rightarrow> Inr shards)
     else Inr shards)"

definition shard_size :: "Erasure \<Rightarrow> nat" where
  "shard_size self = calc_shard_size (block_size self) (data_shards self)"

text \<open>The length is an i64: a negative one means that it is not known.\<close>

definition shard_file_size :: "Erasure \<Rightarrow> int \<Rightarrow> int" where
  "shard_file_size self total_length =
    (if total_length = 0 then 0
     else if total_length < 0 then total_length
     else
       (let total = nat total_length;
            num_shards = total div block_size self;
            last_block_size = total mod block_size self;
            last_shard_size = calc_shard_size last_block_size (data_shards self)
        in int (num_shards * shard_size self + last_shard_size)))"

definition shard_file_offset :: "Erasure \<Rightarrow> nat \<Rightarrow> nat \<Rightarrow> nat \<Rightarrow> nat" where
  "shard_file_offset self start_offset len total_length =
    (let ss = shard_size self;
         sfs = nat (shard_file_size self (int total_length));
         end_shard = (start_offset + len) div block_size self;
         till_offset = end_shard * ss + ss
     in if till_offset > sfs then sfs else till_offset)"

subsection \<open>Sizes\<close>

lemma div_ceil_bounds:
  assumes "0 < d"
  shows "n \<le> div_ceil n d * d" "div_ceil n d * d < n + d"
proof -
  have n: "n = n div d * d + n mod d" by simp
  have "n \<le> div_ceil n d * d \<and> div_ceil n d * d < n + d"
  proof (cases "n mod d = 0")
    case True
    then show ?thesis using assms n by (simp add: div_ceil_def)
  next
    case False
    then have "div_ceil n d * d = n div d * d + d" by (simp add: div_ceil_def)
    then show ?thesis using n False mod_less_divisor [OF assms, of n] by linarith
  qed
  then show "n \<le> div_ceil n d * d" "div_ceil n d * d < n + d" by blast+
qed

lemma calc_shard_size_even [simp]: "even (calc_shard_size n d)"
  by (simp add: calc_shard_size_def Let_def minus_mod_eq_div_mult)

lemma calc_shard_size_bounds: "div_ceil n d \<le> calc_shard_size n d" "calc_shard_size n d \<le> div_ceil n d + 1"
  by (auto simp: calc_shard_size_def Let_def)

lemma calc_shard_size_0 [simp]: "calc_shard_size 0 d = 0"
  by (simp add: calc_shard_size_def div_ceil_def Let_def)

text \<open>The shards of a block hold it, with less than two bytes of padding per data shard.\<close>

lemma calc_shard_size_covers: "0 < d \<Longrightarrow> n \<le> calc_shard_size n d * d"
  by (meson calc_shard_size_bounds(1) div_ceil_bounds(1) le_trans mult_le_mono1)

lemma calc_shard_size_tight: "0 < d \<Longrightarrow> calc_shard_size n d * d < n + 2 * d"
proof -
  assume d: "0 < d"
  have "calc_shard_size n d * d \<le> (div_ceil n d + 1) * d"
    using calc_shard_size_bounds(2) by (rule mult_le_mono1)
  then show ?thesis using div_ceil_bounds(2) [OF d, of n] by simp
qed

lemma calc_shard_size_pos: "0 < n \<Longrightarrow> 0 < d \<Longrightarrow> 0 < calc_shard_size n d"
  using calc_shard_size_covers [of d n] by (cases "calc_shard_size n d") auto

subsection \<open>Encoding a block\<close>

lemma equal_length_simps [simp]:
  "equal_length n []"
  "equal_length n (x # xs) \<longleftrightarrow> length x = n \<and> equal_length n xs"
  "equal_length n (xs @ ys) \<longleftrightarrow> equal_length n xs \<and> equal_length n ys"
  "equal_length n (replicate k x) \<longleftrightarrow> k = 0 \<or> length x = n"
  by (auto simp: equal_length_def)

lemma equal_length_nth: "equal_length n xs \<Longrightarrow> i < length xs \<Longrightarrow> length (xs ! i) = n"
  by (simp add: equal_length_def)

lemma chunks_exact_props:
  assumes "0 < n" "length xs = n * k"
  shows "length (chunks_exact n xs) = k" "concat (chunks_exact n xs) = xs"
    "equal_length n (chunks_exact n xs)"
proof -
  have "length (chunks_exact n xs) = k \<and> concat (chunks_exact n xs) = xs \<and> equal_length n (chunks_exact n xs)"
    using assms
  proof (induction k arbitrary: xs)
    case 0
    then show ?case by (simp add: chunks_exact.simps [of n "[]"])
  next
    case (Suc k)
    have l: "n \<le> length xs" "length (drop n xs) = n * k" using Suc.prems by simp_all
    have "chunks_exact n xs = take n xs # chunks_exact n (drop n xs)"
      using l Suc.prems(1) by (subst chunks_exact.simps) simp
    then show ?case using Suc.IH [OF Suc.prems(1) l(2)] l(1) by simp
  qed
  then show "length (chunks_exact n xs) = k" "concat (chunks_exact n xs) = xs"
    "equal_length n (chunks_exact n xs)" by blast+
qed

lemma chunks_exact_append:
  assumes "0 < n" "length xs = n * k"
  shows "chunks_exact n (xs @ ys) = chunks_exact n xs @ chunks_exact n ys"
  using assms
proof (induction k arbitrary: xs)
  case (Suc k)
  have l: "n \<le> length xs" "length (drop n xs) = n * k" using Suc.prems by simp_all
  have x: "chunks_exact n xs = take n xs # chunks_exact n (drop n xs)"
    using l Suc.prems(1) by (subst chunks_exact.simps) simp
  have "chunks_exact n (xs @ ys) = take n xs # chunks_exact n (drop n xs @ ys)"
    using l Suc.prems(1) by (subst chunks_exact.simps) simp
  also have "\<dots> = chunks_exact n xs @ chunks_exact n ys"
    by (simp only: Suc.IH [OF Suc.prems(1) l(2)] x append_Cons)
  finally show ?case .
qed (simp add: chunks_exact.simps [of n "[]"])

lemma split_off_concat: "equal_length n xs \<Longrightarrow> split_off (length xs) n (concat xs) = xs"
  by (induction xs) simp_all

lemma copy_recovery_ok:
  assumes "length xs = k" "equal_length n zs" "equal_length n rs" "length rs = length zs"
  shows "copy_recovery k rs (xs @ zs) = Some (xs @ rs)"
  using assms
proof (induction rs arbitrary: k xs zs)
  case (Cons r rs)
  then obtain z zs' where zs: "zs = z # zs'" by (cases zs) auto
  have "copy_recovery (k + 1) rs ((xs @ [r]) @ zs') = Some ((xs @ [r]) @ rs)"
    by (rule Cons.IH) (use Cons.prems zs in \<open>simp_all add:\<close>)
  then show ?case using Cons.prems zs by (simp add: nth_append list_update_append)
qed simp

text \<open>The data shards of a block.\<close>

definition data_slices :: "nat \<Rightarrow> bytes \<Rightarrow> bytes list" where
  "data_slices d data =
    (let per = calc_shard_size (length data) d in chunks_exact per (resize (per * d) data))"

lemma data_slices_props:
  assumes "0 < d" "data \<noteq> []"
  shows "length (data_slices d data) = d"
    "equal_length (calc_shard_size (length data) d) (data_slices d data)"
    "take (length data) (concat (data_slices d data)) = data"
proof -
  let ?per = "calc_shard_size (length data) d"
  have pos: "0 < ?per" using assms calc_shard_size_pos by simp
  have cov: "length data \<le> ?per * d" using calc_shard_size_covers assms(1) by blast
  then have len: "length (resize (?per * d) data) = ?per * d" by (simp add: resize_def)
  note ch = chunks_exact_props [OF pos len]
  show "length (data_slices d data) = d" "equal_length ?per (data_slices d data)"
    using ch by (simp_all add: data_slices_def Let_def)
  show "take (length data) (concat (data_slices d data)) = data"
    using ch cov by (simp add: data_slices_def Let_def resize_def)
qed

lemma buffer_slices:
  assumes "0 < d" "data \<noteq> []"
  shows "chunks_exact (calc_shard_size (length data) d)
           (resize (calc_shard_size (length data) d * (d + p)) data)
         = data_slices d data @ replicate p (replicate (calc_shard_size (length data) d) 0)"
proof -
  let ?per = "calc_shard_size (length data) d"
  have pos: "0 < ?per" using assms calc_shard_size_pos by simp
  have cov: "length data \<le> ?per * d" using calc_shard_size_covers assms(1) by blast
  then have len: "length (resize (?per * d) data) = ?per * d" by (simp add: resize_def)
  have buf: "resize (?per * (d + p)) data = resize (?per * d) data @ concat (replicate p (replicate ?per 0))"
  proof -
    have "?per * (d + p) - length data = (?per * d - length data) + ?per * p"
      using cov by (simp add: algebra_simps)
    moreover have "replicate (?per * p) (0 :: 8 word) = concat (replicate p (replicate ?per 0))"
      by (induction p) (simp_all add: replicate_add)
    moreover have "take (?per * (d + p)) data = data" "take (?per * d) data = data"
      using cov by (simp_all add: distrib_left trans_le_add1)
    ultimately show ?thesis by (simp only: resize_def replicate_add append_assoc)
  qed
  have zeros: "chunks_exact ?per (concat (replicate p (replicate ?per 0))) = replicate p (replicate ?per (0 :: 8 word))"
  proof (induction p)
    case (Suc p)
    have "chunks_exact ?per (replicate ?per 0 @ concat (replicate p (replicate ?per 0))) =
      replicate ?per (0 :: 8 word) # chunks_exact ?per (concat (replicate p (replicate ?per 0)))"
      using pos by (subst chunks_exact.simps) simp
    then show ?case using Suc by simp
  qed (simp add: chunks_exact.simps [of _ "[]"] pos)
  show ?thesis using chunks_exact_append [OF pos len] unfolding buf
    by (simp add: zeros data_slices_def Let_def)
qed

text \<open>
  What a coder for this number of shards promises; without parity shards none is used.
\<close>

definition Erasure_ok :: "codec \<Rightarrow> Erasure \<Rightarrow> bool" where
  "Erasure_ok c e \<longleftrightarrow>
    e = Erasure_new (data_shards e) (parity_shards e) (block_size e)
    \<and> 0 < data_shards e \<and> 0 < block_size e
    \<and> (0 < parity_shards e \<longrightarrow> rs_code c (data_shards e) (parity_shards e))"

lemma Erasure_ok_encoder:
  assumes "Erasure_ok c e"
  shows "encoder e =
    (if parity_shards e > 0 then Some \<lparr>rs_data_shards = data_shards e, rs_parity_shards = parity_shards e\<rparr>
     else None)"
proof -
  have "e = Erasure_new (data_shards e) (parity_shards e) (block_size e)"
    using assms unfolding Erasure_ok_def by blast
  then have "encoder e = encoder (Erasure_new (data_shards e) (parity_shards e) (block_size e))"
    by (rule arg_cong)
  then show ?thesis by (simp only: Erasure_new_def Erasure.select_convs)
qed

definition coded_shards :: "codec \<Rightarrow> Erasure \<Rightarrow> bytes \<Rightarrow> bytes list" where
  "coded_shards c e data = (case encode_data c e data of Some (Inr s) \<Rightarrow> s | _ \<Rightarrow> [])"

lemma encode_data_parity:
  assumes "0 < d" "data \<noteq> []" "0 < p" "rs_code c d p"
  obtains ys where "encode_data c (Erasure_new d p bs) data = Some (Inr (data_slices d data @ ys))"
    "length ys = p" "equal_length (calc_shard_size (length data) d) ys"
    "restores c d p (calc_shard_size (length data) d) (data_slices d data) ys"
proof -
  let ?per = "calc_shard_size (length data) d" and ?xs = "data_slices d data"
  note xs = data_slices_props [OF assms(1,2)]
  have pos: "0 < ?per" using assms calc_shard_size_pos by simp
  obtain ys where ys: "rs_encode c d p ?per ?xs = Inr ys" "length ys = p" "equal_length ?per ys"
    "restores c d p ?per ?xs ys"
    using assms(4) pos xs unfolding rs_code_def by (metis calc_shard_size_even)
  obtain x xs' where hd: "?xs = x # xs'" "length x = ?per"
    using xs(1,2) assms(1) by (cases ?xs) auto
  have "copy_recovery d ys (?xs @ replicate p (replicate ?per 0)) = Some (?xs @ ys)"
    by (rule copy_recovery_ok [where n = ?per]) (use xs ys in simp_all)
  moreover have "take d (?xs @ replicate p (replicate ?per 0)) = ?xs" using xs(1) by simp
  ultimately have "RS_encode c \<lparr>rs_data_shards = d, rs_parity_shards = p\<rparr>
      (?xs @ replicate p (replicate ?per 0)) = Some (Inr (?xs @ ys))"
    using hd ys(1) by (simp add: RS_encode_def encode_with_simd_def)
  moreover have "split_off (d + p) ?per (concat (?xs @ ys)) = ?xs @ ys"
    using split_off_concat [of ?per "?xs @ ys"] xs ys by simp
  ultimately have "encode_data c (Erasure_new d p bs) data = Some (Inr (?xs @ ys))"
    using assms pos buffer_slices [OF assms(1,2), of p]
    by (simp add: encode_data_def Erasure_new_def total_shard_count_def Let_def)
  then show thesis using ys that by blast
qed

lemma encode_data_plain:
  assumes "0 < d" "data \<noteq> []"
  shows "encode_data c (Erasure_new d 0 bs) data = Some (Inr (data_slices d data))"
proof -
  note xs = data_slices_props [OF assms]
  have "split_off d (calc_shard_size (length data) d) (concat (data_slices d data)) = data_slices d data"
    using split_off_concat [OF xs(2)] xs(1) by simp
  then show ?thesis using assms calc_shard_size_pos [of "length data" d] buffer_slices [OF assms, of 0]
    by (simp add: encode_data_def Erasure_new_def total_shard_count_def Let_def)
qed

lemma coded_shards:
  assumes ok: "Erasure_ok c e" and ne: "data \<noteq> []"
  defines "d \<equiv> data_shards e" and "p \<equiv> parity_shards e"
    and "per \<equiv> calc_shard_size (length data) (data_shards e)"
  shows "encode_data c e data = Some (Inr (coded_shards c e data))"
    "length (coded_shards c e data) = d + p"
    "equal_length per (coded_shards c e data)"
    "take d (coded_shards c e data) = data_slices d data"
    "0 < p \<Longrightarrow> restores c d p per (data_slices d data) (drop d (coded_shards c e data))"
proof -
  have d: "0 < d" using ok by (simp add: Erasure_ok_def d_def)
  have e: "e = Erasure_new d p (block_size e)" using ok by (simp add: Erasure_ok_def d_def p_def)
  note xs = data_slices_props [OF d ne]
  have "\<exists>ys. encode_data c e data = Some (Inr (data_slices d data @ ys)) \<and> length ys = p \<and> equal_length per ys
    \<and> (0 < p \<longrightarrow> restores c d p per (data_slices d data) ys)"
  proof (cases "p = 0")
    case True
    then show ?thesis using encode_data_plain [OF d ne, of c "block_size e"] e by simp
  next
    case False
    then have "rs_code c d p" "0 < p" using ok by (simp_all add: Erasure_ok_def d_def p_def)
    then show ?thesis using encode_data_parity [OF d ne, of p c "block_size e"] e per_def d_def by metis
  qed
  then obtain ys where ys: "encode_data c e data = Some (Inr (data_slices d data @ ys))" "length ys = p"
    "equal_length per ys" "0 < p \<Longrightarrow> restores c d p per (data_slices d data) ys" by blast
  then have cs: "coded_shards c e data = data_slices d data @ ys" by (simp add: coded_shards_def)
  show "encode_data c e data = Some (Inr (coded_shards c e data))" using ys(1) cs by simp
  show "length (coded_shards c e data) = d + p" "equal_length per (coded_shards c e data)"
    "take d (coded_shards c e data) = data_slices d data"
    "0 < p \<Longrightarrow> restores c d p per (data_slices d data) (drop d (coded_shards c e data))"
    using cs ys xs per_def d_def by simp_all
qed

subsection \<open>Decoding a block\<close>

text \<open>The shards that are left when only those with P can be read, and what decoding makes of them.\<close>

definition lose :: "(nat \<Rightarrow> bool) \<Rightarrow> bytes list \<Rightarrow> shards" where
  "lose P s = map (\<lambda>i. if P i then Some (s ! i) else None) [0..<length s]"

lemma length_lose [simp]: "length (lose P s) = length s"
  by (simp add: lose_def)

lemma nth_lose: "i < length s \<Longrightarrow> lose P s ! i = (if P i then Some (s ! i) else None)"
  by (simp add: lose_def)

lemma filter_upt_add: "length (filter P [0..<d + p]) = length (filter P [0..<d]) + length (filter (\<lambda>j. P (d + j)) [0..<p])"
  by (induction p) simp_all

lemma lose_originals:
  assumes "length s = d + p"
  shows "originals d (lose P s) = map (\<lambda>i. (i, take d s ! i)) (filter P [0..<d])"
    "recoveries d (lose P s) = map (\<lambda>j. (j, drop d s ! j)) (filter (\<lambda>j. P (d + j)) [0..<p])"
proof -
  have "filter (present (lose P s)) [0..<d] = filter P [0..<d]"
    by (rule filter_cong) (use assms in \<open>auto simp: present_def nth_lose\<close>)
  then show "originals d (lose P s) = map (\<lambda>i. (i, take d s ! i)) (filter P [0..<d])"
    using assms by (auto simp: originals_def nth_lose)
  have "filter (\<lambda>j. present (lose P s) (d + j)) [0..<p] = filter (\<lambda>j. P (d + j)) [0..<p]"
    by (rule filter_cong) (use assms in \<open>auto simp: present_def nth_lose\<close>)
  then show "recoveries d (lose P s) = map (\<lambda>j. (j, drop d s ! j)) (filter (\<lambda>j. P (d + j)) [0..<p])"
    using assms by (auto simp: recoveries_def nth_lose)
qed

lemma find_lose:
  assumes "equal_length n s" "0 < length (filter P [0..<length s])"
  obtains x where "find (\<lambda>x. x \<noteq> None) (lose P s) = Some (Some x)" "length x = n"
proof -
  obtain i where "i < length s" "P i"
    using assms(2) by (metis atLeastLessThan_iff filter_False length_greater_0_conv set_upt)
  then have "Some (s ! i) \<in> set (lose P s)" by (force simp: lose_def)
  then obtain y where y: "find (\<lambda>x. x \<noteq> None) (lose P s) = Some y"
    by (cases "find (\<lambda>x. x \<noteq> None) (lose P s)") (auto simp: find_None_iff)
  then obtain j where j: "j < length s" "y = lose P s ! j" "y \<noteq> None" by (auto simp: find_Some_iff)
  then obtain x where "y = Some x" "length x = n"
    using equal_length_nth [OF assms(1)] by (auto simp: nth_lose split: if_splits)
  then show thesis using y that by blast
qed

lemma decode_data_lose:
  assumes ok: "Erasure_ok c e" and ne: "data \<noteq> []"
    and enough: "data_shards e \<le> length (filter P [0..<total_shard_count e])"
  shows "decode_data c e (lose P (coded_shards c e data)) =
    Inr (lose (\<lambda>i. i < data_shards e \<or> P i) (coded_shards c e data))"
proof -
  let ?d = "data_shards e" and ?p = "parity_shards e" and ?s = "coded_shards c e data"
  let ?per = "calc_shard_size (length data) (data_shards e)"
  note s = coded_shards [OF ok ne]
  have d: "0 < ?d" using ok by (simp add: Erasure_ok_def)
  have tot: "total_shard_count e = ?d + ?p" by (simp add: total_shard_count_def)
  show ?thesis
  proof (cases "?p = 0")
    case True
    then have "length (filter P [0..<?d]) = length [0..<?d]"
      using enough tot length_filter_le [of P "[0..<?d]"] by simp
    then have "\<forall>i < ?d. P i" by (metis atLeastLessThan_iff length_filter_less nat_neq_iff set_upt zero_le)
    then have "lose P ?s = lose (\<lambda>i. i < ?d \<or> P i) ?s" using s(2) True by (auto simp: lose_def)
    then show ?thesis using True by (simp add: decode_data_def)
  next
    case False
    have pos: "0 < length (filter P [0..<length ?s])" using d enough unfolding s(2) tot by linarith
    obtain x where x: "find (\<lambda>x. x \<noteq> None) (lose P ?s) = Some (Some x)" "length x = ?per"
      using find_lose [OF s(3) pos] by blast
    have enc: "encoder e = Some \<lparr>rs_data_shards = ?d, rs_parity_shards = ?p\<rparr>"
      using Erasure_ok_encoder [OF ok] False by simp
    obtain res where res: "rs_decode c ?d ?p ?per (originals ?d (lose P ?s)) (recoveries ?d (lose P ?s)) = Inr res"
      "\<forall>i < ?d. \<not> P i \<longrightarrow> map_of res i = Some (take ?d ?s ! i)"
    proof -
      have "restores c ?d ?p ?per (take ?d ?s) (drop ?d ?s)" using s(4,5) False by simp
      moreover have "?d \<le> length (filter P [0..<?d]) + length (filter (\<lambda>j. P (?d + j)) [0..<?p])"
        using enough unfolding tot filter_upt_add .
      ultimately show thesis using that unfolding lose_originals [OF s(2)] restores_def by blast
    qed
    have "fill_missing ?d res (lose P ?s) = lose (\<lambda>i. i < ?d \<or> P i) ?s"
      using res(2) s(2) by (auto simp: fill_missing_def lose_def)
    then show ?thesis using False enc x res(1)
      by (simp add: decode_data_def reconstruct_def reconstruct_with_simd_def)
  qed
qed

subsection \<open>A coder of two data shards and one parity shard\<close>

definition xor_bytes :: "bytes \<Rightarrow> bytes \<Rightarrow> bytes" where
  "xor_bytes a b = map2 (\<lambda>x y. x XOR y) a b"

definition xor_codec :: codec where
  "xor_codec = \<lparr>
    rs_encode = (\<lambda>d p len xs. Inr [xor_bytes (xs ! 0) (xs ! 1)]),
    rs_decode = (\<lambda>d p len os rs.
      Inr (case (map_of os 0, map_of os 1, map_of rs 0) of
             (None, Some b, Some r) \<Rightarrow> [(0, xor_bytes b r)]
           | (Some a, None, Some r) \<Rightarrow> [(1, xor_bytes a r)]
           | _ \<Rightarrow> []))\<rparr>"

lemma xor_bytes_cancel:
  "length a = length b \<Longrightarrow> xor_bytes b (xor_bytes a b) = a"
  "length a = length b \<Longrightarrow> xor_bytes a (xor_bytes a b) = b"
  unfolding xor_bytes_def
  by (induction a b rule: list_induct2) (simp_all add: bit_eq_iff bit_xor_iff, blast+)

lemma xor_rs_code: "rs_code xor_codec 2 1"
  unfolding rs_code_def
proof (intro allI impI, elim conjE)
  fix len and xs :: "bytes list"
  assume len: "length xs = 2" "equal_length len xs"
  then obtain a b where xs: "xs = [a, b]" by (cases xs; cases "tl xs") auto
  then have ab: "length a = length b" "length a = len" using len by simp_all
  let ?ys = "[xor_bytes a b]"
  have "restores xor_codec 2 1 len xs ?ys"
    unfolding restores_def
  proof (intro allI impI)
    fix P Q :: "nat \<Rightarrow> bool"
    assume "2 \<le> length (filter P [0..<2]) + length (filter Q [0..<1])"
    then have two: "(P 0 \<and> P 1) \<or> (Q 0 \<and> (P 0 \<or> P 1))"
      by (cases "P 0"; cases "P 1"; cases "Q 0") (simp_all add: upt_rec numeral_2_eq_2)
    show "\<exists>res. rs_decode xor_codec 2 1 len (map (\<lambda>i. (i, xs ! i)) (filter P [0..<2]))
        (map (\<lambda>j. (j, ?ys ! j)) (filter Q [0..<1])) = Inr res
      \<and> (\<forall>i<2. \<not> P i \<longrightarrow> map_of res i = Some (xs ! i))"
      using two xs xor_bytes_cancel [OF ab(1)]
      by (cases "P 0"; cases "P 1"; cases "Q 0")
        (auto simp: xor_codec_def upt_rec numeral_2_eq_2 less_Suc_eq)
  qed
  then show "\<exists>ys. rs_encode xor_codec 2 1 len xs = Inr ys \<and> length ys = 1 \<and> equal_length len ys
      \<and> restores xor_codec 2 1 len xs ys"
    using xs ab by (auto simp: xor_codec_def xor_bytes_def)
qed

lemma xor_Erasure_ok: "0 < bs \<Longrightarrow> Erasure_ok xor_codec (Erasure_new 2 1 bs)"
  using xor_rs_code by (simp add: Erasure_ok_def Erasure_new_def)

subsection \<open>Properties\<close>

text \<open>
  C33: A block that is not empty is coded into as many shards as the drives hold, all of the
  same even length, which holds the block with less than two bytes of padding per data shard;
  an empty block panics.
\<close>

theorem encode_data_type:
  assumes "Erasure_ok c e"
  shows "(data \<noteq> [] \<longrightarrow> (\<exists>s. encode_data c e data = Some (Inr s) \<and> length s = total_shard_count e
        \<and> (\<forall>x \<in> set s. length x = calc_shard_size (length data) (data_shards e))))
    \<and> even (calc_shard_size n (data_shards e))
    \<and> n \<le> calc_shard_size n (data_shards e) * data_shards e
    \<and> calc_shard_size n (data_shards e) * data_shards e < n + 2 * data_shards e
    \<and> encode_data c e [] = None"
proof (intro conjI impI)
  have d: "0 < data_shards e" using assms by (simp add: Erasure_ok_def)
  show "\<exists>s. encode_data c e data = Some (Inr s) \<and> length s = total_shard_count e
      \<and> (\<forall>x \<in> set s. length x = calc_shard_size (length data) (data_shards e))" if "data \<noteq> []"
    using coded_shards [OF assms that] by (simp add: total_shard_count_def equal_length_def)
  show "even (calc_shard_size n (data_shards e))" by simp
  show "n \<le> calc_shard_size n (data_shards e) * data_shards e" by (rule calc_shard_size_covers [OF d])
  show "calc_shard_size n (data_shards e) * data_shards e < n + 2 * data_shards e"
    by (rule calc_shard_size_tight [OF d])
  show "encode_data c e [] = None" by (simp add: encode_data_def)
qed

theorem encode_data_type_witness:
  "(\<exists>s. encode_data xor_codec (Erasure_new 2 1 4) [1, 2, 3] = Some (Inr s) \<and> length s = 3)
   \<and> encode_data xor_codec (Erasure_new 2 1 4) [] = None"
proof -
  have ok: "Erasure_ok xor_codec (Erasure_new 2 1 4)" by (rule xor_Erasure_ok) simp
  have "total_shard_count (Erasure_new 2 1 4) = 3" by (simp add: total_shard_count_def Erasure_new_def)
  then show ?thesis using encode_data_type [OF ok, of "[1, 2, 3]"] by auto
qed

text \<open>
  C28: When at least as many shards of a block are left as there are data shards, decoding
  gives back every data shard, the data shards joined begin with the block, and a lost parity
  shard stays lost.
\<close>

theorem erasure_roundtrip:
  assumes "Erasure_ok c e" "data \<noteq> []" "encode_data c e data = Some (Inr s)"
    and "data_shards e \<le> length (filter P [0..<total_shard_count e])"
  shows "\<exists>s'. decode_data c e (lose P s) = Inr s'
      \<and> take (length data) (concat (map the (take (data_shards e) s'))) = data
      \<and> (\<forall>i < data_shards e. s' ! i = Some (s ! i))
      \<and> (\<forall>i. data_shards e \<le> i \<and> i < total_shard_count e \<longrightarrow> s' ! i = (if P i then Some (s ! i) else None))"
proof -
  let ?d = "data_shards e"
  have s: "s = coded_shards c e data" using coded_shards(1) [OF assms(1,2)] assms(3) by simp
  note cs = coded_shards(2,4) [OF assms(1,2), folded s]
  have d: "0 < ?d" using assms(1) by (simp add: Erasure_ok_def)
  have "map the (take ?d (lose (\<lambda>i. i < ?d \<or> P i) s)) = take ?d s"
    using cs(1) by (intro nth_equalityI) (simp_all add: nth_lose)
  then have "take (length data) (concat (map the (take ?d (lose (\<lambda>i. i < ?d \<or> P i) s)))) = data"
    using data_slices_props(3) [OF d assms(2)] cs(2) by simp
  then show ?thesis
    using decode_data_lose [OF assms(1,2,4), folded s] cs(1)
    by (intro exI [of _ "lose (\<lambda>i. i < ?d \<or> P i) s"]) (simp add: nth_lose total_shard_count_def)
qed

theorem erasure_roundtrip_witness:
  "\<exists>s s'. encode_data xor_codec (Erasure_new 2 1 4) [1, 2, 3] = Some (Inr s)
     \<and> decode_data xor_codec (Erasure_new 2 1 4) (lose (\<lambda>i. i \<noteq> 0) s) = Inr s'
     \<and> take 3 (concat (map the (take 2 s'))) = [1, 2, 3]"
proof -
  let ?e = "Erasure_new 2 1 4"
  have ok: "Erasure_ok xor_codec ?e" by (rule xor_Erasure_ok) simp
  have n: "data_shards ?e = 2" "total_shard_count ?e = 3"
    by (simp_all add: total_shard_count_def Erasure_new_def)
  let ?s = "coded_shards xor_codec ?e [1, 2, 3]"
  have enc: "encode_data xor_codec ?e [1, 2, 3] = Some (Inr ?s)" by (rule coded_shards(1) [OF ok]) simp
  have enough: "data_shards ?e \<le> length (filter (\<lambda>i. i \<noteq> 0) [0..<total_shard_count ?e])"
    unfolding n by (simp add: upt_rec)
  obtain s' where "decode_data xor_codec ?e (lose (\<lambda>i. i \<noteq> 0) ?s) = Inr s'"
    "take (length [1, 2, 3 :: 8 word]) (concat (map the (take (data_shards ?e) s'))) = [1, 2, 3]"
    using erasure_roundtrip [OF ok _ enc enough] by blast
  then show ?thesis using enc unfolding n by (intro exI [of _ ?s] exI [of _ s']) (simp add: numeral_3_eq_3)
qed

end
