(* ===== verification/Bitrot.thy ===== *)
theory Bitrot
  imports Erasure
begin

text \<open>
  Shard files with checksums, crates/ecstore/src/erasure_coding/bitrot.rs and the hash
  algorithms of crates/utils/src/hash.rs: a shard file is a sequence of (hash, data) frames, all
  full but the last. The digest functions (md5, sha2, highway, blake3) are third-party and are a
  record argument; \<^verbatim>\<open>digests_ok\<close> states their output lengths. Uuids and log output are left out.
\<close>

subsection \<open>Hash algorithms\<close>

datatype HashAlgorithm = SHA256 | HighwayHash256 | HighwayHash256S | BLAKE2b512 | Md5 | NoHash

record digests =
  md5_digest :: "bytes \<Rightarrow> bytes"
  sha256_digest :: "bytes \<Rightarrow> bytes"
  highway_finalize256 :: "u64 list \<Rightarrow> bytes \<Rightarrow> u64 list"
  blake3_hash :: "bytes \<Rightarrow> bytes"

definition digests_ok :: "digests \<Rightarrow> bool" where
  "digests_ok g \<longleftrightarrow>
    (\<forall>x. length (md5_digest g x) = 16 \<and> length (sha256_digest g x) = 32
       \<and> length (blake3_hash g x) = 32) \<and> (\<forall>k x. length (highway_finalize256 g k x) = 4)"

definition HIGHWAY_HASH256_KEY :: "u64 list" where
  "HIGHWAY_HASH256_KEY = [3, 4, 2, 1]"

definition to_le_bytes :: "u64 \<Rightarrow> bytes" where
  "to_le_bytes n = map (\<lambda>i. ucast (drop_bit (8 * i) n)) [0..<8]"

definition u8x32_from_u64x4 :: "u64 list \<Rightarrow> bytes" where
  "u8x32_from_u64x4 input = concat (map to_le_bytes input)"

definition hash_encode :: "digests \<Rightarrow> HashAlgorithm \<Rightarrow> bytes \<Rightarrow> bytes" where
  "hash_encode g self data =
    (case self of
       Md5 \<Rightarrow> md5_digest g data
     | HighwayHash256 \<Rightarrow> u8x32_from_u64x4 (highway_finalize256 g HIGHWAY_HASH256_KEY data)
     | SHA256 \<Rightarrow> sha256_digest g data
     | HighwayHash256S \<Rightarrow> u8x32_from_u64x4 (highway_finalize256 g HIGHWAY_HASH256_KEY data)
     | BLAKE2b512 \<Rightarrow> blake3_hash g data
     | NoHash \<Rightarrow> [])"

definition hash_size :: "HashAlgorithm \<Rightarrow> nat" where
  "hash_size self =
    (case self of
       SHA256 \<Rightarrow> 32 | HighwayHash256 \<Rightarrow> 32 | HighwayHash256S \<Rightarrow> 32 | BLAKE2b512 \<Rightarrow> 32
     | Md5 \<Rightarrow> 16 | NoHash \<Rightarrow> 0)"

subsection \<open>Byte sources\<close>

text \<open>
  An AsyncRead is the bytes it still delivers and what comes after them: the end of the file,
  or an error. How the bytes are cut into single reads has no influence on the loops below.
\<close>

record source =
  content :: bytes
  stop :: "io_error option"

definition early_eof :: io_error where
  "early_eof = IoError UnexpectedEof (Plain ''early eof'')"

definition read_exact :: "nat \<Rightarrow> source \<Rightarrow> bytes io_result \<times> source" where
  "read_exact n s =
    (if n \<le> length (content s) then (Inr (take n (content s)), s\<lparr>content := drop n (content s)\<rparr>)
     else (Inl (case stop s of None \<Rightarrow> early_eof | Some e \<Rightarrow> e), s\<lparr>content := []\<rparr>))"

text \<open>Reading until the buffer of n bytes is full or the file ends.\<close>

definition read_until_full :: "nat \<Rightarrow> source \<Rightarrow> bytes io_result \<times> source" where
  "read_until_full n s =
    (if n \<le> length (content s) then (Inr (take n (content s)), s\<lparr>content := drop n (content s)\<rparr>)
     else (case stop s of None \<Rightarrow> Inr (content s) | Some e \<Rightarrow> Inl e, s\<lparr>content := []\<rparr>))"

subsection \<open>BitrotReader\<close>

record BitrotReader =
  br_inner :: source
  br_hash_algo :: HashAlgorithm
  br_shard_size :: nat

definition BitrotReader_new :: "source \<Rightarrow> nat \<Rightarrow> HashAlgorithm \<Rightarrow> BitrotReader" where
  "BitrotReader_new inner sz algo = \<lparr>br_inner = inner, br_hash_algo = algo, br_shard_size = sz\<rparr>"

definition size_exceeds :: "nat \<Rightarrow> nat \<Rightarrow> io_error" where
  "size_exceeds n sz =
    IoError InvalidInput (Plain (''data size '' @ show_nat n @ '' exceeds shard size '' @ show_nat sz))"

definition hash_mismatch :: io_error where
  "hash_mismatch = IoError InvalidData (Plain ''bitrot hash mismatch'')"

text \<open>The part of the buffer that was filled is the result.\<close>

definition BitrotReader_read :: "digests \<Rightarrow> nat \<Rightarrow> BitrotReader \<Rightarrow> bytes io_result \<times> BitrotReader" where
  "BitrotReader_read g out_len self =
    (if out_len > br_shard_size self then (Inl (size_exceeds out_len (br_shard_size self)), self)
     else
       (let algo = br_hash_algo self in
        case (if hash_size algo > 0 then read_exact (hash_size algo) (br_inner self)
              else (Inr [], br_inner self)) of
          (Inl e, s) \<Rightarrow> (Inl e, self\<lparr>br_inner := s\<rparr>)
        | (Inr hash_buf, s) \<Rightarrow>
            (case read_until_full out_len s of
               (Inl e, s') \<Rightarrow> (Inl e, self\<lparr>br_inner := s'\<rparr>)
             | (Inr out, s') \<Rightarrow>
                 (if hash_size algo > 0 \<and> hash_encode g algo out \<noteq> hash_buf then Inl hash_mismatch
                  else Inr out, self\<lparr>br_inner := s'\<rparr>))))"

subsection \<open>BitrotWriter\<close>

text \<open>
  A drive file takes bytes until it has no room left and then fails for good; room None never
  fails. CustomWriter is such a file or a buffer in memory.
\<close>

record drive_file =
  written :: bytes
  room :: "nat option"
  fault :: io_error

datatype CustomWriter = InlineBuffer bytes | OtherWriter drive_file

definition new_inline_buffer :: CustomWriter where
  "new_inline_buffer = InlineBuffer []"

definition get_inline_data :: "CustomWriter \<Rightarrow> bytes option" where
  "get_inline_data self = (case self of InlineBuffer data \<Rightarrow> Some data | OtherWriter _ \<Rightarrow> None)"

definition file_write_all :: "bytes \<Rightarrow> drive_file \<Rightarrow> unit io_result \<times> drive_file" where
  "file_write_all buf f =
    (case room f of
       None \<Rightarrow> (Inr (), f\<lparr>written := written f @ buf\<rparr>)
     | Some n \<Rightarrow>
         if length buf \<le> n then (Inr (), f\<lparr>written := written f @ buf, room := Some (n - length buf)\<rparr>)
         else (Inl (fault f), f\<lparr>written := written f @ take n buf, room := Some 0\<rparr>))"

definition write_all :: "bytes \<Rightarrow> CustomWriter \<Rightarrow> unit io_result \<times> CustomWriter" where
  "write_all buf self =
    (case self of
       InlineBuffer data \<Rightarrow> (Inr (), InlineBuffer (data @ buf))
     | OtherWriter f \<Rightarrow> (case file_write_all buf f of (r, f') \<Rightarrow> (r, OtherWriter f')))"

record BitrotWriter =
  bw_inner :: CustomWriter
  bw_hash_algo :: HashAlgorithm
  bw_shard_size :: nat
  finished :: bool

definition BitrotWriter_new :: "CustomWriter \<Rightarrow> nat \<Rightarrow> HashAlgorithm \<Rightarrow> BitrotWriter" where
  "BitrotWriter_new inner sz algo =
    \<lparr>bw_inner = inner, bw_hash_algo = algo, bw_shard_size = sz, finished = False\<rparr>"

definition write_data :: "bytes \<Rightarrow> BitrotWriter \<Rightarrow> nat io_result \<times> BitrotWriter" where
  "write_data buf w =
    (case write_all buf (bw_inner w) of
       (Inl e, i) \<Rightarrow> (Inl e, w\<lparr>bw_inner := i\<rparr>)
     | (Inr _, i) \<Rightarrow> (Inr (length buf), w\<lparr>bw_inner := i\<rparr>))"

definition BitrotWriter_write :: "digests \<Rightarrow> bytes \<Rightarrow> BitrotWriter \<Rightarrow> nat io_result \<times> BitrotWriter" where
  "BitrotWriter_write g buf self =
    (if buf = [] then (Inr 0, self)
     else if finished self then (Inl (IoError InvalidInput (Plain ''bitrot writer already finished'')), self)
     else if length buf > bw_shard_size self then (Inl (size_exceeds (length buf) (bw_shard_size self)), self)
     else
       (let w = (if length buf < bw_shard_size self then self\<lparr>finished := True\<rparr> else self);
            algo = bw_hash_algo self in
        if hash_size algo > 0 then
          (let hash = hash_encode g algo buf in
           if hash = [] then (Inl (IoError InvalidInput (Plain ''hash is empty'')), w)
           else
             (case write_all hash (bw_inner w) of
                (Inl e, i) \<Rightarrow> (Inl e, w\<lparr>bw_inner := i\<rparr>)
              | (Inr _, i) \<Rightarrow> write_data buf (w\<lparr>bw_inner := i\<rparr>)))
        else write_data buf w))"

text \<open>BitrotWriterWrapper remembers which kind of writer it was given.\<close>

datatype WriterType = InlineBufferType | OtherType

record BitrotWriterWrapper =
  bitrot_writer :: BitrotWriter
  writer_type :: WriterType

definition BitrotWriterWrapper_new :: "CustomWriter \<Rightarrow> nat \<Rightarrow> HashAlgorithm \<Rightarrow> BitrotWriterWrapper" where
  "BitrotWriterWrapper_new w sz checksum_algo =
    \<lparr>bitrot_writer = BitrotWriter_new w sz checksum_algo,
     writer_type = (case w of InlineBuffer _ \<Rightarrow> InlineBufferType | OtherWriter _ \<Rightarrow> OtherType)\<rparr>"

definition wrapper_write :: "digests \<Rightarrow> bytes \<Rightarrow> BitrotWriterWrapper \<Rightarrow> nat io_result \<times> BitrotWriterWrapper" where
  "wrapper_write g buf self =
    (case BitrotWriter_write g buf (bitrot_writer self) of (r, w) \<Rightarrow> (r, self\<lparr>bitrot_writer := w\<rparr>))"

definition into_inline_data :: "BitrotWriterWrapper \<Rightarrow> bytes option" where
  "into_inline_data self =
    (case writer_type self of
       InlineBufferType \<Rightarrow> get_inline_data (bw_inner (bitrot_writer self))
     | OtherType \<Rightarrow> None)"

subsection \<open>Sizes and verification\<close>

definition bitrot_shard_file_size :: "nat \<Rightarrow> nat \<Rightarrow> HashAlgorithm \<Rightarrow> nat" where
  "bitrot_shard_file_size sz shard algo =
    (if algo \<noteq> HighwayHash256S then sz else div_ceil sz shard * hash_size algo + sz)"

text \<open>
  The loop of bitrot_verify. None is a panic, when the count of bytes left falls below zero, or
  a loop that reads nothing and so never ends.
\<close>

function bitrot_verify_loop ::
  "digests \<Rightarrow> HashAlgorithm \<Rightarrow> nat \<Rightarrow> nat \<Rightarrow> source \<Rightarrow> unit io_result option" where
  "bitrot_verify_loop g algo left shard r =
    (if left = 0 then Some (Inr ())
     else
       (case read_exact (hash_size algo) r of
          (Inl e, _) \<Rightarrow> Some (Inl e)
        | (Inr hash_buf, r1) \<Rightarrow>
            if left < hash_size algo then None
            else
              (let left1 = left - hash_size algo;
                   shard1 = (if left1 < shard then left1 else shard) in
               case read_exact shard1 r1 of
                 (Inl e, _) \<Rightarrow> Some (Inl e)
               | (Inr buf, r2) \<Rightarrow>
                   if hash_encode g algo buf \<noteq> hash_buf
                   then Some (Inl (io_other ''bitrot hash mismatch''))
                   else if hash_size algo = 0 \<and> shard1 = 0 then None
                   else bitrot_verify_loop g algo (left1 - shard1) shard1 r2)))"
  by pat_completeness auto
termination
  by (relation "measure (\<lambda>(_, _, left, _, _). left)") (auto split: if_splits)

declare bitrot_verify_loop.simps [simp del]

definition bitrot_verify ::
  "digests \<Rightarrow> source \<Rightarrow> nat \<Rightarrow> nat \<Rightarrow> HashAlgorithm \<Rightarrow> bytes \<Rightarrow> nat \<Rightarrow> unit io_result option" where
  "bitrot_verify g r want_size part_size algo want shard =
    (if want_size \<noteq> bitrot_shard_file_size part_size shard algo
     then Some (Inl (io_other ''bitrot shard file size mismatch''))
     else bitrot_verify_loop g algo want_size shard r)"

subsection \<open>Frames\<close>

lemma hash_encode_length [simp]: "digests_ok g \<Longrightarrow> length (hash_encode g a x) = hash_size a"
proof -
  assume g: "digests_ok g"
  have "length (u8x32_from_u64x4 k) = 8 * length k" for k
    unfolding u8x32_from_u64x4_def by (induction k) (simp_all add: to_le_bytes_def)
  then show ?thesis using g by (cases a) (simp_all add: hash_encode_def hash_size_def digests_ok_def)
qed

definition frame :: "digests \<Rightarrow> HashAlgorithm \<Rightarrow> bytes \<Rightarrow> bytes" where
  "frame g a x = hash_encode g a x @ x"

definition frames :: "digests \<Rightarrow> HashAlgorithm \<Rightarrow> bytes list \<Rightarrow> bytes" where
  "frames g a bs = concat (map (frame g a) bs)"

lemma frames_simps [simp]:
  "frames g a [] = []"
  "frames g a (x # bs) = frame g a x @ frames g a bs"
  "frames g a (bs @ cs) = frames g a bs @ frames g a cs"
  by (simp_all add: frames_def)

text \<open>Blocks of size n, the last one possibly shorter, none empty.\<close>

fun shaped :: "nat \<Rightarrow> bytes list \<Rightarrow> bool" where
  "shaped n [] = True"
| "shaped n [x] = (0 < length x \<and> length x \<le> n)"
| "shaped n (x # y # ys) = (0 < n \<and> length x = n \<and> shaped n (y # ys))"

lemma shaped_Cons:
  "shaped n (x # bs) \<longleftrightarrow> 0 < length x \<and> length x \<le> n \<and> (bs = [] \<or> length x = n) \<and> shaped n bs"
  by (cases bs) auto

lemma shaped_count: "0 < n \<Longrightarrow> shaped n bs \<Longrightarrow> length bs = div_ceil (length (concat bs)) n"
proof (induction n bs rule: shaped.induct)
  case (2 n x)
  then show ?case by (cases "length x = n") (simp_all add: div_ceil_def)
next
  case (3 n x y ys)
  then have "length (y # ys) = div_ceil (length (concat (y # ys))) n" by simp
  moreover have "div_ceil (n + k) n = Suc (div_ceil k n)" for k
    using 3(2) by (simp add: div_ceil_def div_add_self1)
  ultimately show ?case using 3 by simp
qed (simp add: div_ceil_def)

lemma frames_length: "digests_ok g \<Longrightarrow> length (frames g a bs) = length bs * hash_size a + length (concat bs)"
  by (induction bs) (simp_all add: frame_def)

text \<open>The size of a file of frames is the one computed in advance.\<close>

lemma frames_file_size:
  "digests_ok g \<Longrightarrow> 0 < n \<Longrightarrow> shaped n bs \<Longrightarrow>
    length (frames g HighwayHash256S bs) = bitrot_shard_file_size (length (concat bs)) n HighwayHash256S"
  by (simp add: frames_length bitrot_shard_file_size_def shaped_count)

subsection \<open>Writing frames\<close>

text \<open>Writing one shard after the other, up to the first error.\<close>

fun write_seq :: "digests \<Rightarrow> bytes list \<Rightarrow> BitrotWriter \<Rightarrow> nat io_result list \<times> BitrotWriter" where
  "write_seq g [] w = ([], w)"
| "write_seq g (b # bs) w =
    (case BitrotWriter_write g b w of
       (r, w1) \<Rightarrow> (case write_seq g bs w1 of (rs, w2) \<Rightarrow> (r # rs, w2)))"

lemma BitrotWriter_write_inline:
  assumes "digests_ok g" "bw_inner w = InlineBuffer buf" "\<not> finished w" "0 < length b" "length b \<le> bw_shard_size w"
  shows "BitrotWriter_write g b w =
    (Inr (length b), w\<lparr>bw_inner := InlineBuffer (buf @ frame g (bw_hash_algo w) b),
                      finished := length b < bw_shard_size w\<rparr>)"
proof -
  have "hash_encode g (bw_hash_algo w) b = [] \<longleftrightarrow> hash_size (bw_hash_algo w) = 0"
    using hash_encode_length [OF assms(1), of "bw_hash_algo w" b] by (metis length_0_conv)
  then show ?thesis using assms
    by (auto simp: BitrotWriter_write_def write_data_def write_all_def frame_def Let_def)
qed

lemma write_seq_inline:
  assumes "digests_ok g" "bw_inner w = InlineBuffer buf" "\<not> finished w" "shaped (bw_shard_size w) bs"
  shows "fst (write_seq g bs w) = map (Inr \<circ> length) bs
    \<and> bw_inner (snd (write_seq g bs w)) = InlineBuffer (buf @ frames g (bw_hash_algo w) bs)"
  using assms(2-)
proof (induction bs arbitrary: w buf)
  case (Cons b bs)
  then have b: "0 < length b" "length b \<le> bw_shard_size w" "bs = [] \<or> length b = bw_shard_size w"
    "shaped (bw_shard_size w) bs" by (simp_all add: shaped_Cons)
  note wr = BitrotWriter_write_inline [OF assms(1) Cons.prems(1,2) b(1,2)]
  show ?case
  proof (cases "bs = []")
    case True
    then show ?thesis using wr by simp
  next
    case False
    then have "length b = bw_shard_size w" using b(3) by simp
    then show ?thesis
      using wr b(4) Cons.IH [of "snd (BitrotWriter_write g b w)" "buf @ frame g (bw_hash_algo w) b"]
      by (simp add: case_prod_beta)
  qed
qed simp

subsection \<open>Reading frames\<close>

lemma BitrotReader_read_frame:
  assumes "digests_ok g" "n \<le> br_shard_size r"
    and "content (br_inner r) = frame g (br_hash_algo r) x @ rest"
    and "length x = n \<or> length x \<le> n \<and> rest = [] \<and> stop (br_inner r) = None"
  shows "BitrotReader_read g n r = (Inr x, r\<lparr>br_inner := (br_inner r)\<lparr>content := rest\<rparr>\<rparr>)"
proof -
  have "read_until_full n ((br_inner r)\<lparr>content := x @ rest\<rparr>) = (Inr x, (br_inner r)\<lparr>content := rest\<rparr>)"
    using assms(4) by (auto simp: read_until_full_def)
  moreover have "read_exact (hash_size (br_hash_algo r)) (br_inner r) =
      (Inr (hash_encode g (br_hash_algo r) x), (br_inner r)\<lparr>content := x @ rest\<rparr>)"
    using assms(1,3) by (simp add: read_exact_def frame_def)
  moreover have "(br_inner r)\<lparr>content := x @ rest\<rparr> = br_inner r" if "hash_size (br_hash_algo r) = 0"
  proof -
    have "hash_encode g (br_hash_algo r) x = []"
      using that hash_encode_length [OF assms(1), of "br_hash_algo r" x] by simp
    then have "content (br_inner r) = x @ rest" using assms(3) by (simp add: frame_def)
    then show ?thesis by (cases "br_inner r") simp
  qed
  ultimately show ?thesis using assms(1,2)
    by (cases "hash_size (br_hash_algo r) = 0") (simp_all add: BitrotReader_read_def Let_def)
qed

lemma take_take_drop: "take k c @ take n (drop k c) @ drop (n + k) c = c"
  by (metis append_take_drop_id drop_drop)

text \<open>
  A frame is only accepted when the stored hash is the hash of the data returned: a damaged
  frame that is read without an error has data with the same digest.
\<close>

lemma BitrotReader_read_sound:
  assumes "BitrotReader_read g n r = (Inr x, r')" "hash_size (br_hash_algo r) > 0"
  shows "content (br_inner r) = hash_encode g (br_hash_algo r) x @ x @ content (br_inner r')"
    "length x \<le> n"
  using assms take_take_drop [of "hash_size (br_hash_algo r)" "content (br_inner r)" n]
  by (auto simp: BitrotReader_read_def Let_def read_exact_def read_until_full_def
      split: if_splits option.splits)

subsection \<open>What a reader delivers\<close>

fun take_blocks ::
  "(nat \<Rightarrow> 'r \<Rightarrow> bytes io_result \<times> 'r) \<Rightarrow> nat \<Rightarrow> nat \<Rightarrow> 'r \<Rightarrow> bytes io_result list \<times> 'r" where
  "take_blocks nxt 0 n r = ([], r)"
| "take_blocks nxt (Suc k) n r =
    (case nxt n r of (b, r1) \<Rightarrow> (case take_blocks nxt k n r1 of (bs, r2) \<Rightarrow> (b # bs, r2)))"

text \<open>
  The interface between the readers of one drive each and their parallel use: asked for blocks
  of n bytes, a reader hands out its blocks one by one.
\<close>

locale shard_source =
  fixes nxt :: "nat \<Rightarrow> 'r \<Rightarrow> bytes io_result \<times> 'r"
    and delivers :: "nat \<Rightarrow> 'r \<Rightarrow> bytes list \<Rightarrow> bool"
  assumes next_block: "delivers n r (b # bs) \<Longrightarrow> \<exists>r'. nxt n r = (Inr b, r') \<and> delivers n r' bs"
begin

lemma take_blocks_delivers:
  "delivers n r bs \<Longrightarrow> fst (take_blocks nxt (length bs) n r) = map Inr bs"
proof (induction bs arbitrary: r)
  case (Cons b bs)
  obtain r' where "nxt n r = (Inr b, r')" "delivers n r' bs" using next_block [OF Cons.prems] by blast
  then show ?case using Cons.IH [of r'] by (simp add: case_prod_beta)
qed simp

end

definition bitrot_delivers :: "digests \<Rightarrow> nat \<Rightarrow> BitrotReader \<Rightarrow> bytes list \<Rightarrow> bool" where
  "bitrot_delivers g n r bs \<longleftrightarrow>
    digests_ok g \<and> n \<le> br_shard_size r \<and> stop (br_inner r) = None \<and> shaped n bs
    \<and> content (br_inner r) = frames g (br_hash_algo r) bs"

interpretation bitrot_source: shard_source "BitrotReader_read g" "bitrot_delivers g" for g
proof
  fix n r b bs
  assume a: "bitrot_delivers g n r (b # bs)"
  then have b: "length b \<le> n" "bs = [] \<or> length b = n" "shaped n bs"
    by (simp_all add: bitrot_delivers_def shaped_Cons)
  have "BitrotReader_read g n r =
      (Inr b, r\<lparr>br_inner := (br_inner r)\<lparr>content := frames g (br_hash_algo r) bs\<rparr>\<rparr>)"
    by (rule BitrotReader_read_frame) (use a b in \<open>auto simp: bitrot_delivers_def\<close>)
  then show "\<exists>r'. BitrotReader_read g n r = (Inr b, r') \<and> bitrot_delivers g n r' bs"
    using a b(3) by (simp add: bitrot_delivers_def)
qed

subsection \<open>Verification\<close>

text \<open>Files of frames whose hashes may be wrong.\<close>

definition raw_frames :: "(bytes \<times> bytes) list \<Rightarrow> bytes" where
  "raw_frames fs = concat (map (\<lambda>(h, x). h @ x) fs)"

lemma raw_frames_frames: "raw_frames (map (\<lambda>x. (hash_encode g a x, x)) bs) = frames g a bs"
  by (simp add: raw_frames_def frames_def frame_def [abs_def] o_def)

lemma bitrot_verify_loop_frames:
  assumes "0 < n" "shaped n (map snd fs)" "0 < hash_size a" "\<forall>(h, x) \<in> set fs. length h = hash_size a"
  shows "bitrot_verify_loop g a (length (raw_frames fs)) n \<lparr>content = raw_frames fs @ tl_bytes, stop = st\<rparr> =
    Some (if \<forall>(h, x) \<in> set fs. h = hash_encode g a x then Inr () else Inl (io_other ''bitrot hash mismatch''))"
  using assms(2,4)
proof (induction fs)
  case Nil
  then show ?case by (simp add: raw_frames_def bitrot_verify_loop.simps)
next
  case (Cons f fs)
  obtain h x where f: "f = (h, x)" by (cases f)
  have h: "length h = hash_size a" using Cons.prems(2) f by simp
  have x: "0 < length x" "length x \<le> n" "fs = [] \<or> length x = n" "shaped n (map snd fs)"
    using Cons.prems(1) f by (simp_all add: shaped_Cons)
  have raw: "raw_frames (f # fs) = h @ x @ raw_frames fs" using f by (simp add: raw_frames_def)
  have IH: "bitrot_verify_loop g a (length (raw_frames fs)) n \<lparr>content = raw_frames fs @ tl_bytes, stop = st\<rparr> =
    Some (if \<forall>(h, x) \<in> set fs. h = hash_encode g a x then Inr () else Inl (io_other ''bitrot hash mismatch''))"
    using Cons.IH x(4) Cons.prems(2) by simp
  have shard1: "(if length x + length (raw_frames fs) < n then length x + length (raw_frames fs) else n) = length x"
    using x by (auto simp: raw_frames_def)
  have last: "bitrot_verify_loop g a (length (raw_frames fs)) (length x) s =
      bitrot_verify_loop g a (length (raw_frames fs)) n s" for s
    using x(3) by (auto simp: raw_frames_def bitrot_verify_loop.simps [of _ _ 0])
  show ?case
    unfolding raw
    by (subst bitrot_verify_loop.simps)
      (use assms(3) h shard1 last IH f in \<open>auto simp: read_exact_def Let_def\<close>)
qed

subsection \<open>Properties\<close>

text \<open>A sum as a digest, to evaluate on.\<close>

definition sum_digests :: digests where
  "sum_digests = \<lparr>
    md5_digest = (\<lambda>x. replicate 16 (sum_list x)), sha256_digest = (\<lambda>x. replicate 32 (sum_list x)),
    highway_finalize256 = (\<lambda>k x. [ucast (sum_list x), 0, 0, 0]),
    blake3_hash = (\<lambda>x. replicate 32 (sum_list x))\<rparr>"

lemma sum_digests_ok: "digests_ok sum_digests"
  by (simp add: sum_digests_def digests_ok_def)



text \<open>
  Verifying a shard file of frames, all full but the last, whose size is the expected one
  reads it to the end and accepts exactly when every stored hash is the hash of its data.
\<close>

theorem bitrot_verify_decides:
  assumes "0 < n" "shaped n (map snd fs)" "\<forall>(h, x) \<in> set fs. length h = 32"
  shows "bitrot_verify g \<lparr>content = raw_frames fs, stop = st\<rparr> (length (raw_frames fs))
      (length (concat (map snd fs))) HighwayHash256S want n =
    Some (if \<forall>(h, x) \<in> set fs. h = hash_encode g HighwayHash256S x then Inr ()
          else Inl (io_other ''bitrot hash mismatch''))"
proof -
  have "length (raw_frames fs) = length fs * 32 + length (concat (map snd fs))"
    using assms(3) unfolding raw_frames_def by (induction fs) auto
  moreover have "length fs = div_ceil (length (concat (map snd fs))) n"
    using shaped_count [OF assms(1,2)] by simp
  ultimately have "length (raw_frames fs) =
      bitrot_shard_file_size (length (concat (map snd fs))) n HighwayHash256S"
    by (simp add: bitrot_shard_file_size_def hash_size_def)
  moreover have "0 < hash_size HighwayHash256S" "\<forall>(h, x) \<in> set fs. length h = hash_size HighwayHash256S"
    using assms(3) by (simp_all add: hash_size_def)
  ultimately show ?thesis
    using bitrot_verify_loop_frames [OF assms(1,2), of HighwayHash256S g "[]" st]
    by (simp add: bitrot_verify_def)
qed

theorem bitrot_verify_decides_witness:
  "bitrot_verify sum_digests
     \<lparr>content = hash_encode sum_digests HighwayHash256S [1, 2] @ [1, 3], stop = None\<rparr> 34 2 HighwayHash256S [] 2
   = Some (Inl (io_other ''bitrot hash mismatch''))"
proof -
  let ?h = "hash_encode sum_digests HighwayHash256S"
  have "length (?h x) = 32" for x
    using hash_encode_length [OF sum_digests_ok, of HighwayHash256S x] by (simp add: hash_size_def)
  moreover have "hd (?h [1, 2]) = 3" "hd (?h [1, 3]) = 4"
    by (simp_all add: hash_encode_def sum_digests_def u8x32_from_u64x4_def to_le_bytes_def upt_rec)
  then have "?h [1, 2] \<noteq> ?h [1, 3]" by auto
  ultimately show ?thesis
    using bitrot_verify_decides [of 2 "[(?h [1, 2], [1, 3])]" sum_digests None "[]"]
    by (simp add: raw_frames_def numeral_2_eq_2)
qed

end
