(* ===== verification/ErasureWrite.thy ===== *)
theory ErasureWrite
  imports Bitrot
begin

text \<open>
  Writing an object: the block loop Erasure::encode and the writers of all drives,
  crates/ecstore/src/erasure_coding/encode.rs, with the opening of the writers
  (crates/ecstore/src/bitrot.rs) and read_full (crates/utils/src/io.rs). The reading task and
  the writing loop are joined by a channel that keeps the order of the blocks, so that a failed
  write ends the call with its error and otherwise the result of the task is returned: the
  model runs them in step. The writes of one block to the drives touch different writers and so
  commute; they run in the order of the drives. A result None is a panic.
\<close>

subsection \<open>Opening a writer\<close>

text \<open>A drive opens a file for a volume, a path and an expected length (DiskAPI::create_file).\<close>

type_synonym create_call = "string \<Rightarrow> string \<Rightarrow> int \<Rightarrow> DiskError + drive_file"

definition create_bitrot_writer ::
  "bool \<Rightarrow> create_call option \<Rightarrow> string \<Rightarrow> string \<Rightarrow> int \<Rightarrow> nat \<Rightarrow> HashAlgorithm \<Rightarrow> DiskError + BitrotWriterWrapper" where
  "create_bitrot_writer is_inline_buffer disk volume path len sz checksum_algo =
    (if is_inline_buffer then Inr (BitrotWriterWrapper_new new_inline_buffer sz checksum_algo)
     else
       (case disk of
          Some create_file \<Rightarrow>
            (let len1 = (if len > 0 then int (div_ceil (nat len) sz * hash_size checksum_algo) + len else 0) in
             case create_file volume path len1 of
               Inl e \<Rightarrow> Inl e
             | Inr file \<Rightarrow> Inr (BitrotWriterWrapper_new (OtherWriter file) sz checksum_algo))
        | None \<Rightarrow> Inl DiskNotFound))"

subsection \<open>read_full\<close>

definition read_full :: "nat \<Rightarrow> source \<Rightarrow> bytes io_result \<times> source" where
  "read_full n s =
    (if n \<le> length (content s) then (Inr (take n (content s)), s\<lparr>content := drop n (content s)\<rparr>)
     else
       (let total = length (content s) in
        (case stop s of
           Some e \<Rightarrow>
             if total = 0 then Inl e
             else if kind e = InvalidData then Inl e
             else Inl (IoError UnexpectedEof
                    (Plain (''read '' @ show_nat total @ '' bytes, error: '' @ io_to_string e)))
         | None \<Rightarrow>
             if total > 0 then Inr (content s)
             else Inl (IoError UnexpectedEof (Plain ''early EOF'')),
         s\<lparr>content := []\<rparr>)))"

subsection \<open>MultiWriter\<close>

record MultiWriter =
  writers :: "BitrotWriterWrapper option list"
  write_quorum :: nat
  errs :: "DiskError option list"

definition MultiWriter_new :: "BitrotWriterWrapper option list \<Rightarrow> nat \<Rightarrow> MultiWriter" where
  "MultiWriter_new ws quorum = \<lparr>writers = ws, write_quorum = quorum, errs = replicate (length ws) None\<rparr>"

definition write_shard ::
  "digests \<Rightarrow> BitrotWriterWrapper option \<Rightarrow> DiskError option \<Rightarrow> bytes
    \<Rightarrow> BitrotWriterWrapper option \<times> DiskError option" where
  "write_shard g writer_opt err shard =
    (case writer_opt of
       Some w \<Rightarrow>
         (case wrapper_write g shard w of
            (Inr n, w') \<Rightarrow> if n < length shard then (None, Some ShortWrite) else (Some w', None)
          | (Inl e, w') \<Rightarrow> (Some w', Some (disk_from_io e)))
     | None \<Rightarrow> (None, Some DiskNotFound))"

text \<open>A writer that has failed before is skipped.\<close>

fun write_shards ::
  "digests \<Rightarrow> BitrotWriterWrapper option list \<Rightarrow> DiskError option list \<Rightarrow> bytes list
    \<Rightarrow> (BitrotWriterWrapper option \<times> DiskError option) list" where
  "write_shards g (w # ws) (e # es) (s # ss) =
    (if e \<noteq> None then (w, e) else write_shard g w e s) # write_shards g ws es ss"
| "write_shards g _ _ _ = []"

definition offline_disks :: "DiskError option list \<Rightarrow> nat \<Rightarrow> string" where
  "offline_disks es n = ''(offline-disks='' @ show_nat (count_errs es DiskNotFound) @ ''/'' @ show_nat n @ '')''"

fun join_strings :: "string \<Rightarrow> string list \<Rightarrow> string" where
  "join_strings sep [] = []"
| "join_strings sep [x] = x"
| "join_strings sep (x # y # ys) = x @ sep @ join_strings sep (y # ys)"

definition MultiWriter_write ::
  "digests \<Rightarrow> (DiskError counts \<Rightarrow> DiskError counts) \<Rightarrow> bytes list \<Rightarrow> MultiWriter
    \<Rightarrow> (unit io_result \<times> MultiWriter) option" where
  "MultiWriter_write g ord data self =
    (if length data \<noteq> length (writers self) then None
     else
       (let done = write_shards g (writers self) (errs self) data;
            mw = self\<lparr>writers := map fst done, errs := map snd done\<rparr>;
            n = length (writers mw) in
        Some
         (if nil_count (errs mw) \<ge> write_quorum self then Inr ()
          else
            (case reduce_write_quorum_errs ord (errs mw) OBJECT_OP_IGNORED_ERRS (write_quorum self) of
               Some write_err \<Rightarrow>
                 Inl (io_other (''Failed to write data: '' @ DiskError_to_string write_err @ '' ''
                        @ offline_disks (errs mw) n))
             | None \<Rightarrow>
                 Inl (io_other (''Failed to write data:  '' @ offline_disks (errs mw) n @ '': ''
                        @ join_strings '', ''
                            (map (\<lambda>e. case e of None \<Rightarrow> ''<nil>'' | Some e \<Rightarrow> DiskError_to_string e)
                              (errs mw))))),
          mw)))"

subsection \<open>Erasure::encode\<close>

text \<open>The error of a task that panicked.\<close>

definition task_panicked :: io_error where
  "task_panicked = io_other ''task panicked''"

definition is_checksum_mismatch :: "io_error \<Rightarrow> bool" where
  "is_checksum_mismatch e = (case e of IoError _ (ChecksumMismatch _ _) \<Rightarrow> True | _ \<Rightarrow> False)"

function encode_loop ::
  "codec \<Rightarrow> digests \<Rightarrow> (DiskError counts \<Rightarrow> DiskError counts) \<Rightarrow> Erasure \<Rightarrow> source \<Rightarrow> nat \<Rightarrow> MultiWriter
    \<Rightarrow> ((source \<times> nat) io_result \<times> MultiWriter) option" where
  "encode_loop c g ord self s tot mw =
    (case read_full (block_size self) s of
       (Inr block, s') \<Rightarrow>
         if block = [] then Some (Inr (s', tot), mw)
         else
           (case encode_data c self block of
              None \<Rightarrow> Some (Inl task_panicked, mw)
            | Some (Inl e) \<Rightarrow> Some (Inl e, mw)
            | Some (Inr shards) \<Rightarrow>
                (case MultiWriter_write g ord shards mw of
                   None \<Rightarrow> None
                 | Some (Inl e, mw') \<Rightarrow> Some (Inl e, mw')
                 | Some (Inr _, mw') \<Rightarrow> encode_loop c g ord self s' (tot + length block) mw'))
     | (Inl e, s') \<Rightarrow>
         if kind e = UnexpectedEof then
           if is_checksum_mismatch e then Some (Inl (IoError InvalidData (Plain (io_to_string e))), mw)
           else Some (Inr (s', tot), mw)
         else Some (Inl e, mw))"
  by pat_completeness auto
termination
  by (relation "measure (\<lambda>(_, _, _, _, s, _, _). length (content s))")
    (auto simp: read_full_def Let_def split: if_splits option.splits)

declare encode_loop.simps [simp del]

definition Erasure_encode ::
  "codec \<Rightarrow> digests \<Rightarrow> (DiskError counts \<Rightarrow> DiskError counts) \<Rightarrow> Erasure \<Rightarrow> source
    \<Rightarrow> BitrotWriterWrapper option list \<Rightarrow> nat \<Rightarrow> ((source \<times> nat) io_result \<times> MultiWriter) option" where
  "Erasure_encode c g ord self reader ws quorum =
    encode_loop c g ord self reader 0 (MultiWriter_new ws quorum)"

subsection \<open>What a writer has stored\<close>

fun bytes_of :: "CustomWriter \<Rightarrow> bytes" where
  "bytes_of (InlineBuffer data) = data"
| "bytes_of (OtherWriter f) = written f"

text \<open>A writer that cannot fail.\<close>

fun healthy :: "CustomWriter \<Rightarrow> bool" where
  "healthy (InlineBuffer data) = True"
| "healthy (OtherWriter f) = (room f = None)"

lemma write_all_ok:
  "write_all buf w = (Inr u, w') \<Longrightarrow> bytes_of w' = bytes_of w @ buf"
  by (cases w) (auto simp: write_all_def file_write_all_def split: option.splits if_splits)

lemma write_all_healthy:
  "healthy w \<Longrightarrow> \<exists>w'. write_all buf w = (Inr (), w') \<and> healthy w'"
  by (cases w) (auto simp: write_all_def file_write_all_def)

text \<open>A write that succeeds appends a frame, whatever the writer.\<close>

lemma BitrotWriter_write_ok:
  assumes "digests_ok g" "b \<noteq> []" "BitrotWriter_write g b w = (Inr k, w')"
  shows "k = length b \<and> bytes_of (bw_inner w') = bytes_of (bw_inner w) @ frame g (bw_hash_algo w) b
    \<and> bw_hash_algo w' = bw_hash_algo w"
proof (cases "hash_size (bw_hash_algo w) = 0")
  case True
  then have "hash_encode g (bw_hash_algo w) b = []"
    using hash_encode_length [OF assms(1), of "bw_hash_algo w" b] by simp
  then show ?thesis using assms True
    by (auto simp: BitrotWriter_write_def write_data_def frame_def Let_def
        split: if_splits prod.splits sum.splits dest!: write_all_ok)
next
  case False
  then show ?thesis using assms
    by (auto simp: BitrotWriter_write_def write_data_def frame_def Let_def
        split: if_splits prod.splits sum.splits dest!: write_all_ok)
qed

lemma BitrotWriter_write_healthy:
  assumes g: "digests_ok g" and "b \<noteq> []" "healthy (bw_inner w)" "\<not> finished w" "length b \<le> bw_shard_size w"
  obtains w' where "BitrotWriter_write g b w = (Inr (length b), w')" "healthy (bw_inner w')"
    "finished w' \<longleftrightarrow> length b < bw_shard_size w" "bw_shard_size w' = bw_shard_size w"
proof -
  have h: "hash_encode g (bw_hash_algo w) b = [] \<longleftrightarrow> hash_size (bw_hash_algo w) = 0"
    using hash_encode_length [OF g, of "bw_hash_algo w" b] by (metis length_0_conv)
  obtain i where i: "write_all (hash_encode g (bw_hash_algo w) b) (bw_inner w) = (Inr (), i)" "healthy i"
    using write_all_healthy [OF assms(3)] by blast
  obtain j where j: "write_all b i = (Inr (), j)" "healthy j" using write_all_healthy [OF i(2)] by blast
  obtain l where l: "write_all b (bw_inner w) = (Inr (), l)" "healthy l"
    using write_all_healthy [OF assms(3)] by blast
  show thesis
    by (rule that [of "snd (BitrotWriter_write g b w)"])
      (use assms h i j l in \<open>auto simp: BitrotWriter_write_def write_data_def Let_def\<close>)
qed

subsection \<open>Blocks\<close>

text \<open>The blocks of an object: full ones and a last one that may be shorter.\<close>

fun blocks :: "nat \<Rightarrow> 'a list \<Rightarrow> 'a list list" where
  "blocks n xs = (if n = 0 \<or> xs = [] then [] else take n xs # blocks n (drop n xs))"

declare blocks.simps [simp del]

lemma blocks_Nil [simp]: "blocks n [] = []"
  by (simp add: blocks.simps)

lemma blocks_step: "0 < n \<Longrightarrow> xs \<noteq> [] \<Longrightarrow> blocks n xs = take n xs # blocks n (drop n xs)"
  by (simp add: blocks.simps [of n xs])

lemma blocks_not_Nil [simp]: "0 < n \<Longrightarrow> blocks n xs = [] \<longleftrightarrow> xs = []"
  by (cases "xs = []") (simp_all add: blocks_step)

lemma blocks_member: "b \<in> set (blocks n xs) \<Longrightarrow> b \<noteq> []"
  by (induction n xs rule: blocks.induct) (subst (asm) (2) blocks.simps, auto split: if_splits)

lemma concat_blocks: "0 < n \<Longrightarrow> concat (blocks n xs) = xs"
proof (induction n xs rule: blocks.induct)
  case (1 n xs)
  then show ?case by (cases "xs = []") (simp_all add: blocks_step)
qed

text \<open>Writing the shards of blocks one after the other, up to the first failure.\<close>

fun write_blocks ::
  "codec \<Rightarrow> digests \<Rightarrow> (DiskError counts \<Rightarrow> DiskError counts) \<Rightarrow> Erasure \<Rightarrow> bytes list \<Rightarrow> MultiWriter
    \<Rightarrow> (unit io_result \<times> MultiWriter) option" where
  "write_blocks c g ord e [] mw = Some (Inr (), mw)"
| "write_blocks c g ord e (b # bs) mw =
    (case MultiWriter_write g ord (coded_shards c e b) mw of
       None \<Rightarrow> None
     | Some (Inl err, mw') \<Rightarrow> Some (Inl err, mw')
     | Some (Inr _, mw') \<Rightarrow> write_blocks c g ord e bs mw')"

definition finish :: "source \<Rightarrow> nat \<Rightarrow> (unit io_result \<times> MultiWriter) option
    \<Rightarrow> ((source \<times> nat) io_result \<times> MultiWriter) option" where
  "finish s t r =
    map_option (\<lambda>(r, mw). (case r of Inl e \<Rightarrow> Inl e | Inr _ \<Rightarrow> Inr (s\<lparr>content := []\<rparr>, t), mw)) r"

lemma finish_content [simp]: "finish (s\<lparr>content := xs\<rparr>) t r = finish s t r"
proof -
  have "s\<lparr>content := xs, content := []\<rparr> = s\<lparr>content := []\<rparr>" by simp
  then show ?thesis unfolding finish_def by (rule ssubst) (rule refl)
qed

lemma finish_Some:
  "finish s t r = Some (Inr (s', t'), mw) \<longleftrightarrow> r = Some (Inr (), mw) \<and> s' = s\<lparr>content := []\<rparr> \<and> t' = t"
proof (cases r)
  case (Some p)
  obtain x m where "p = (x, m)" by (cases p)
  then show ?thesis using Some by (cases x) (auto simp: finish_def)
qed (simp add: finish_def)

lemma Erasure_okD: "Erasure_ok c e \<Longrightarrow> 0 < block_size e" "Erasure_ok c e \<Longrightarrow> 0 < data_shards e"
  by (simp_all add: Erasure_ok_def)

text \<open>The loop writes the blocks of its input; at the end of the input it has read all of it.\<close>

lemma encode_loop_blocks:
  assumes ok: "Erasure_ok c e" and "stop s = None"
  shows "encode_loop c g ord e s t mw =
    finish s (t + length (content s)) (write_blocks c g ord e (blocks (block_size e) (content s)) mw)"
  using assms(2)
proof (induction "length (content s)" arbitrary: s t mw rule: less_induct)
  case less
  let ?n = "block_size e" and ?xs = "content s"
  note n = Erasure_okD(1) [OF ok]
  show ?case
  proof (cases "?xs = []")
    case True
    then show ?thesis using less.prems n
      by (subst encode_loop.simps)
        (simp add: read_full_def finish_def is_checksum_mismatch_def)
  next
    case False
    have rd: "read_full ?n s = (Inr (take ?n ?xs), s\<lparr>content := drop ?n ?xs\<rparr>)"
      using False less.prems by (auto simp: read_full_def Let_def)
    have ne: "take ?n ?xs \<noteq> []" using False n by simp
    have rest: "encode_loop c g ord e (s\<lparr>content := drop ?n ?xs\<rparr>) (t + length (take ?n ?xs)) mw' =
        finish s (t + length ?xs) (write_blocks c g ord e (blocks ?n (drop ?n ?xs)) mw')" for mw'
    proof -
      have l: "t + length (take ?n ?xs) + length (drop ?n ?xs) = t + length ?xs" by simp
      have "length (content (s\<lparr>content := drop ?n ?xs\<rparr>)) < length ?xs"
        "stop (s\<lparr>content := drop ?n ?xs\<rparr>) = None"
        using False n less.prems by simp_all
      from less.hyps [OF this, of "t + length (take ?n ?xs)" mw'] l show ?thesis by (simp add: add.assoc)
    qed
    show ?thesis
      using coded_shards(1) [OF ok ne] ne rest
      by (subst encode_loop.simps)
        (simp add: rd blocks_step [OF n False] finish_def split: option.split prod.split sum.split)
  qed
qed

subsection \<open>What has been stored after some blocks\<close>

abbreviation inner_of :: "BitrotWriterWrapper \<Rightarrow> CustomWriter" where
  "inner_of v \<equiv> bw_inner (bitrot_writer v)"

abbreviation algo_of :: "BitrotWriterWrapper \<Rightarrow> HashAlgorithm" where
  "algo_of v \<equiv> bw_hash_algo (bitrot_writer v)"

definition wrote :: "digests \<Rightarrow> BitrotWriterWrapper option \<Rightarrow> bytes list \<Rightarrow> BitrotWriterWrapper option \<Rightarrow> bool" where
  "wrote g w0 bs w =
    (case w0 of
       None \<Rightarrow> w = None \<and> bs = []
     | Some v0 \<Rightarrow> \<exists>v. w = Some v \<and> algo_of v = algo_of v0
         \<and> bytes_of (inner_of v) = bytes_of (inner_of v0) @ frames g (algo_of v0) bs)"

lemma wrote_Nil [simp]: "wrote g w [] w"
  by (simp add: wrote_def split: option.split)

lemma write_shard_wrote:
  assumes "digests_ok g" "s \<noteq> []" "wrote g w0 bs w" "write_shard g w e s = (w', None)"
  shows "wrote g w0 (bs @ [s]) w'"
proof -
  obtain v v' n where v: "w = Some v" "w' = Some (v\<lparr>bitrot_writer := v'\<rparr>)"
    "BitrotWriter_write g s (bitrot_writer v) = (Inr n, v')"
    using assms(4)
    by (auto simp: write_shard_def wrapper_write_def split: option.splits prod.splits sum.splits if_splits)
  then show ?thesis
    using assms(3) BitrotWriter_write_ok [OF assms(1,2) v(3)]
    by (auto simp: wrote_def split: option.splits)
qed

lemma length_write_shards:
  "length ws = length ss \<Longrightarrow> length es = length ss \<Longrightarrow> length (write_shards g ws es ss) = length ss"
proof (induction ss arbitrary: ws es)
  case (Cons s ss)
  then show ?case by (cases ws; cases es) simp_all
qed simp

lemma nth_write_shards:
  "length ws = length ss \<Longrightarrow> length es = length ss \<Longrightarrow> i < length ss \<Longrightarrow>
    write_shards g ws es ss ! i = (if es ! i \<noteq> None then (ws ! i, es ! i) else write_shard g (ws ! i) (es ! i) (ss ! i))"
proof (induction ss arbitrary: ws es i)
  case (Cons s ss)
  then show ?case by (cases ws; cases es; cases i) simp_all
qed simp

text \<open>
  Every writer without an error has stored its shard of every block; the shards of the blocks
  are listed per block.
\<close>

definition stored_ok ::
  "digests \<Rightarrow> BitrotWriterWrapper option list \<Rightarrow> bytes list list \<Rightarrow> MultiWriter \<Rightarrow> bool" where
  "stored_ok g ws sss mw \<longleftrightarrow>
    length (writers mw) = length ws \<and> length (errs mw) = length ws
    \<and> (\<forall>i < length ws. errs mw ! i = None \<longrightarrow> wrote g (ws ! i) (map (\<lambda>ss. ss ! i) sss) (writers mw ! i))"

lemma stored_ok_new: "stored_ok g ws [] (MultiWriter_new ws q)"
  by (simp add: stored_ok_def MultiWriter_new_def)

lemma MultiWriter_write_eqs:
  assumes "MultiWriter_write g ord ss mw = Some (r, mw')"
  shows "length ss = length (writers mw)"
    "writers mw' = map fst (write_shards g (writers mw) (errs mw) ss)"
    "errs mw' = map snd (write_shards g (writers mw) (errs mw) ss)"
    "write_quorum mw' = write_quorum mw"
    "r = Inr u \<longleftrightarrow> write_quorum mw \<le> nil_count (errs mw')"
  using assms by (auto simp: MultiWriter_write_def Let_def split: if_splits option.splits)

lemma MultiWriter_write_stored:
  assumes g: "digests_ok g" and st: "stored_ok g ws sss mw" and ne: "[] \<notin> set ss"
    and w: "MultiWriter_write g ord ss mw = Some (r, mw')"
  shows "stored_ok g ws (sss @ [ss]) mw'"
proof -
  note eqs = MultiWriter_write_eqs [OF w]
  have len: "length (writers mw) = length ws" "length (errs mw) = length ws" "length ss = length ws"
    using st eqs(1) by (simp_all add: stored_ok_def)
  have "wrote g (ws ! i) (map (\<lambda>ss. ss ! i) (sss @ [ss])) (writers mw' ! i)"
    if i: "i < length ws" "errs mw' ! i = None" for i
  proof -
    have step: "(writers mw' ! i, None) =
        (if errs mw ! i \<noteq> None then (writers mw ! i, errs mw ! i)
         else write_shard g (writers mw ! i) (errs mw ! i) (ss ! i))"
      using nth_write_shards [of "writers mw" ss "errs mw" i g] i len eqs(2,3)
        length_write_shards [of "writers mw" ss "errs mw" g] by (auto simp: prod_eq_iff)
    then have none: "errs mw ! i = None" by (auto split: if_splits)
    have w': "write_shard g (writers mw ! i) (errs mw ! i) (ss ! i) = (writers mw' ! i, None)"
      using step none by simp
    have "ss ! i \<noteq> []" using ne i len by (metis nth_mem)
    moreover have "wrote g (ws ! i) (map (\<lambda>ss. ss ! i) sss) (writers mw ! i)"
      using st i(1) none by (simp add: stored_ok_def)
    ultimately show ?thesis using write_shard_wrote [OF g _ _ w'] by simp
  qed
  then show ?thesis
    using len eqs(2,3) length_write_shards [of "writers mw" ss "errs mw" g] by (simp add: stored_ok_def)
qed

lemma write_blocks_stored:
  assumes g: "digests_ok g" and ok: "Erasure_ok c e" and ne: "[] \<notin> set bs"
    and "stored_ok g ws sss mw" "write_blocks c g ord e bs mw = Some (Inr u, mw')"
  shows "stored_ok g ws (sss @ map (coded_shards c e) bs) mw'
    \<and> write_quorum mw' = write_quorum mw \<and> (bs \<noteq> [] \<longrightarrow> write_quorum mw \<le> nil_count (errs mw'))"
  using ne assms(4,5)
proof (induction bs arbitrary: sss mw)
  case (Cons b bs)
  obtain mw1 where w: "MultiWriter_write g ord (coded_shards c e b) mw = Some (Inr (), mw1)"
    and rest: "write_blocks c g ord e bs mw1 = Some (Inr u, mw')"
    using Cons.prems(3) by (auto split: option.splits prod.splits sum.splits)
  have b: "b \<noteq> []" using Cons.prems(1) by auto
  note cs = coded_shards(3) [OF ok b]
  have "[] \<notin> set (coded_shards c e b)"
    using cs calc_shard_size_pos [of "length b" "data_shards e"] b Erasure_okD(2) [OF ok]
    by (auto simp: equal_length_def)
  then have st: "stored_ok g ws (sss @ [coded_shards c e b]) mw1"
    using MultiWriter_write_stored [OF g Cons.prems(2) _ w] by blast
  have IH: "stored_ok g ws ((sss @ [coded_shards c e b]) @ map (coded_shards c e) bs) mw'
      \<and> write_quorum mw' = write_quorum mw1 \<and> (bs \<noteq> [] \<longrightarrow> write_quorum mw1 \<le> nil_count (errs mw'))"
    by (rule Cons.IH [OF _ st rest]) (use Cons.prems(1) in auto)
  moreover have "bs = [] \<Longrightarrow> mw' = mw1" using rest by simp
  ultimately show ?case using MultiWriter_write_eqs(4,5) [OF w] by auto
qed simp

subsection \<open>When writing succeeds\<close>

lemma div_ceil_mono:
  assumes "0 < d" "n \<le> m"
  shows "div_ceil n d \<le> div_ceil m d"
proof -
  have "div_ceil n d * d < (div_ceil m d + 1) * d"
    using div_ceil_bounds(2) [OF assms(1), of n] div_ceil_bounds(1) [OF assms(1), of m] assms(2) by simp
  then show ?thesis using assms(1) by (simp only: mult_less_cancel2) simp
qed

lemma calc_shard_size_mono: "0 < d \<Longrightarrow> n \<le> m \<Longrightarrow> calc_shard_size n d \<le> calc_shard_size m d"
  unfolding calc_shard_size_def Let_def minus_mod_eq_mult_div
  by (intro mult_le_mono2 div_le_mono add_le_mono1) (rule div_ceil_mono)

lemma shaped_blocks: "0 < n \<Longrightarrow> shaped n (blocks n xs)"
proof (induction n xs rule: blocks.induct)
  case (1 n xs)
  then show ?case
    by (cases "xs = []") (auto simp: blocks_step shaped_Cons min_def)
qed

lemma shaped_shards:
  assumes ok: "Erasure_ok c e" and "shaped (block_size e) bs" "i < total_shard_count e"
  shows "shaped (shard_size e) (map (\<lambda>b. coded_shards c e b ! i) bs)"
  using assms(2)
proof (induction bs)
  case (Cons b bs)
  have b: "0 < length b" "length b \<le> block_size e" "bs = [] \<or> length b = block_size e"
    using Cons.prems by (simp_all add: shaped_Cons)
  note d = Erasure_okD(2) [OF ok]
  have "length (coded_shards c e b ! i) = calc_shard_size (length b) (data_shards e)"
    using equal_length_nth [OF coded_shards(3) [OF ok]] coded_shards(2) [OF ok] b(1) assms(3)
    by (simp add: total_shard_count_def)
  then show ?case using Cons b calc_shard_size_pos [OF b(1) d] calc_shard_size_mono [OF d b(2)]
    by (auto simp: shaped_Cons shard_size_def)
qed simp

text \<open>A fresh writer that cannot fail.\<close>

definition able :: "Erasure \<Rightarrow> BitrotWriterWrapper option \<Rightarrow> bool" where
  "able e w =
    (case w of
       None \<Rightarrow> False
     | Some v \<Rightarrow> healthy (inner_of v) \<and> bw_shard_size (bitrot_writer v) = shard_size e
         \<and> \<not> finished (bitrot_writer v))"

lemma write_shard_able:
  assumes "digests_ok g" "able e w" "s \<noteq> []" "length s \<le> shard_size e"
  shows "\<exists>v. write_shard g w None s = (Some v, None) \<and> (length s = shard_size e \<longrightarrow> able e (Some v))"
proof -
  obtain v where v: "w = Some v" "healthy (inner_of v)" "bw_shard_size (bitrot_writer v) = shard_size e"
    "\<not> finished (bitrot_writer v)" using assms(2) by (auto simp: able_def split: option.splits)
  obtain v' where "BitrotWriter_write g s (bitrot_writer v) = (Inr (length s), v')" "healthy (bw_inner v')"
    "finished v' \<longleftrightarrow> length s < shard_size e" "bw_shard_size v' = shard_size e"
    using BitrotWriter_write_healthy [OF assms(1,3) v(2,4)] v(3) assms(4) by metis
  then show ?thesis using v by (simp add: write_shard_def wrapper_write_def able_def)
qed

lemma nil_count_card: "nil_count es = card {i. i < length es \<and> es ! i = None}"
  by (simp add: nil_count_def length_filter_conv_card Option.is_none_def)

lemma MultiWriter_write_live:
  assumes g: "digests_ok g" and len: "length (writers mw) = length ss" "length (errs mw) = length ss"
    and I: "I \<subseteq> {..<length ss}" "write_quorum mw \<le> card I" "\<forall>i \<in> I. errs mw ! i = None \<and> able e (writers mw ! i)"
    and ss: "[] \<notin> set ss" "\<forall>s \<in> set ss. length s \<le> shard_size e"
  shows "\<exists>mw'. MultiWriter_write g ord ss mw = Some (Inr (), mw') \<and> write_quorum mw' = write_quorum mw
    \<and> length (writers mw') = length ss \<and> length (errs mw') = length ss
    \<and> (equal_length (shard_size e) ss \<longrightarrow> (\<forall>i \<in> I. errs mw' ! i = None \<and> able e (writers mw' ! i)))"
proof -
  obtain r mw' where w: "MultiWriter_write g ord ss mw = Some (r, mw')"
    using len by (simp add: MultiWriter_write_def Let_def)
  note eqs = MultiWriter_write_eqs [OF w] and lw = length_write_shards [OF len, of g]
  have live: "\<exists>v. write_shards g (writers mw) (errs mw) ss ! i = (Some v, None)
      \<and> (length (ss ! i) = shard_size e \<longrightarrow> able e (Some v))" if "i \<in> I" for i
  proof -
    have i: "i < length ss" "errs mw ! i = None" "able e (writers mw ! i)" using I that by auto
    then have "ss ! i \<in> set ss" by simp
    then have "ss ! i \<noteq> []" "length (ss ! i) \<le> shard_size e" using ss by auto
    then show ?thesis using write_shard_able [OF g i(3)] nth_write_shards [OF len i(1), of g] i(2) by simp
  qed
  have none: "errs mw' ! i = None" if "i \<in> I" for i
    using live [OF that] that I(1) eqs(3) lw by auto
  have "I \<subseteq> {i. i < length (errs mw') \<and> errs mw' ! i = None}"
    using none I(1) eqs(3) lw by auto
  then have "card I \<le> nil_count (errs mw')"
    unfolding nil_count_card by (intro card_mono) simp_all
  then have "r = Inr ()" using I(2) eqs(5) by simp
  moreover have "able e (writers mw' ! i)" if "i \<in> I" "equal_length (shard_size e) ss" for i
    using live [OF that(1)] that I(1) eqs(2) lw equal_length_nth [OF that(2), of i] by auto
  ultimately show ?thesis using w eqs lw none by simp
qed

lemma write_blocks_live:
  assumes g: "digests_ok g" and ok: "Erasure_ok c e" and I: "I \<subseteq> {..<total_shard_count e}"
    and "shaped (block_size e) bs"
    and "length (writers mw) = total_shard_count e" "length (errs mw) = total_shard_count e"
    and "write_quorum mw \<le> card I"
    and "bs \<noteq> [] \<longrightarrow> (\<forall>i \<in> I. errs mw ! i = None \<and> able e (writers mw ! i))"
  shows "\<exists>mw'. write_blocks c g ord e bs mw = Some (Inr (), mw')"
  using assms(4-)
proof (induction bs arbitrary: mw)
  case (Cons b bs)
  let ?ss = "coded_shards c e b"
  have b: "0 < length b" "length b \<le> block_size e" "bs = [] \<or> length b = block_size e" "shaped (block_size e) bs"
    using Cons.prems(1) by (simp_all add: shaped_Cons)
  note d = Erasure_okD(2) [OF ok]
  have ne: "b \<noteq> []" using b(1) by auto
  have len: "length ?ss = total_shard_count e"
    using coded_shards(2) [OF ok ne] by (simp add: total_shard_count_def)
  have eql: "equal_length (calc_shard_size (length b) (data_shards e)) ?ss" by (rule coded_shards(3) [OF ok ne])
  have "[] \<notin> set ?ss" "\<forall>s \<in> set ?ss. length s \<le> shard_size e"
    using eql calc_shard_size_pos [OF b(1) d] calc_shard_size_mono [OF d b(2)]
    by (auto simp: equal_length_def shard_size_def)
  then obtain mw1 where mw1: "MultiWriter_write g ord ?ss mw = Some (Inr (), mw1)"
    "write_quorum mw1 = write_quorum mw" "length (writers mw1) = length ?ss" "length (errs mw1) = length ?ss"
    "equal_length (shard_size e) ?ss \<longrightarrow> (\<forall>i \<in> I. errs mw1 ! i = None \<and> able e (writers mw1 ! i))"
    using MultiWriter_write_live [OF g, of mw ?ss I e ord] Cons.prems I len by auto
  have "bs \<noteq> [] \<longrightarrow> (\<forall>i \<in> I. errs mw1 ! i = None \<and> able e (writers mw1 ! i))"
    using mw1(5) eql b(3) by (auto simp: shard_size_def)
  then show ?case using Cons.IH [OF b(4), of mw1] mw1(1-4) len Cons.prems(4) by simp
qed simp

subsection \<open>A stream that breaks off\<close>

text \<open>
  An error of the stream inside a block, other than one of kind InvalidData, is taken for the
  end of the object: the bytes of that block are dropped and the call succeeds with the length
  of the blocks before it.
\<close>

lemma chunks_exact_step: "0 < n \<Longrightarrow> n \<le> length xs \<Longrightarrow> chunks_exact n xs = take n xs # chunks_exact n (drop n xs)"
  by (simp add: chunks_exact.simps [of n xs])

lemma encode_loop_truncates:
  assumes ok: "Erasure_ok c e" and "stop s = Some er" "kind er \<noteq> InvalidData"
    "length (content s) mod block_size e \<noteq> 0"
  shows "encode_loop c g ord e s t mw =
    finish s (t + length (content s) div block_size e * block_size e)
      (write_blocks c g ord e (chunks_exact (block_size e) (content s)) mw)"
  using assms(2,4)
proof (induction "length (content s)" arbitrary: s t mw rule: less_induct)
  case less
  let ?n = "block_size e" and ?xs = "content s"
  note n = Erasure_okD(1) [OF ok]
  show ?case
  proof (cases "length ?xs < ?n")
    case True
    then have "0 < length ?xs" using less.prems(2) by auto
    then show ?thesis using True less.prems assms(3)
      by (subst encode_loop.simps)
        (simp add: read_full_def finish_def is_checksum_mismatch_def Let_def chunks_exact.simps [of _ ?xs])
  next
    case False
    have rd: "read_full ?n s = (Inr (take ?n ?xs), s\<lparr>content := drop ?n ?xs\<rparr>)"
      using False by (auto simp: read_full_def)
    have ne: "take ?n ?xs \<noteq> []" using False n by auto
    have l: "length (take ?n ?xs) = ?n" using False by simp
    have div: "length ?xs div ?n * ?n = ?n + (length ?xs - ?n) div ?n * ?n"
      using False n by (simp add: le_div_geq)
    have rest: "encode_loop c g ord e (s\<lparr>content := drop ?n ?xs\<rparr>) (t + ?n) mw' =
        finish s (t + length ?xs div ?n * ?n) (write_blocks c g ord e (chunks_exact ?n (drop ?n ?xs)) mw')" for mw'
    proof -
      have "length (content (s\<lparr>content := drop ?n ?xs\<rparr>)) < length ?xs"
        "stop (s\<lparr>content := drop ?n ?xs\<rparr>) = Some er"
        "length (content (s\<lparr>content := drop ?n ?xs\<rparr>)) mod ?n \<noteq> 0"
        using False n less.prems by (simp_all add: le_mod_geq)
      from less.hyps [OF this, of "t + ?n" mw'] div show ?thesis by (simp add: add.assoc)
    qed
    show ?thesis
      using coded_shards(1) [OF ok ne] ne rest l False n
      by (subst encode_loop.simps)
        (simp add: rd chunks_exact_step [of ?n ?xs] finish_def split: option.split prod.split sum.split)
  qed
qed

subsection \<open>Properties\<close>

lemma encode_is_write_blocks:
  assumes "Erasure_ok c e"
  shows "Erasure_encode c g ord e \<lparr>content = data, stop = None\<rparr> ws q =
    finish \<lparr>content = data, stop = None\<rparr> (length data)
      (write_blocks c g ord e (blocks (block_size e) data) (MultiWriter_new ws q))"
  using encode_loop_blocks [OF assms, of "\<lparr>content = data, stop = None\<rparr>" g ord 0 "MultiWriter_new ws q"]
  by (simp add: Erasure_encode_def)

lemma encode_stores:
  assumes ok: "Erasure_ok c e" and g: "digests_ok g" and ne: "data \<noteq> []"
    and enc: "Erasure_encode c g ord e \<lparr>content = data, stop = None\<rparr> ws q = Some (Inr (s', t), mw)"
  shows "t = length data" "content s' = []" "q \<le> nil_count (errs mw)" "length (errs mw) = length ws"
    "\<And>i. i < length ws \<Longrightarrow> errs mw ! i = None \<Longrightarrow>
      \<exists>v0 v. ws ! i = Some v0 \<and> writers mw ! i = Some v \<and> bytes_of (inner_of v) =
        bytes_of (inner_of v0)
        @ frames g (algo_of v0) (map (\<lambda>b. coded_shards c e b ! i) (blocks (block_size e) data))"
proof -
  let ?bs = "blocks (block_size e) data"
  note n = Erasure_okD(1) [OF ok]
  have w: "write_blocks c g ord e ?bs (MultiWriter_new ws q) = Some (Inr (), mw)"
    and ts: "t = length data" "content s' = []"
    using enc unfolding encode_is_write_blocks [OF ok] by (simp_all add: finish_Some)
  then show "t = length data" "content s' = []" by simp_all
  have "[] \<notin> set ?bs" using blocks_member by auto
  then have st: "stored_ok g ws (map (coded_shards c e) ?bs) mw" "q \<le> nil_count (errs mw)"
    using write_blocks_stored [OF g ok _ stored_ok_new w] n ne by (simp_all add: MultiWriter_new_def)
  then show "q \<le> nil_count (errs mw)" "length (errs mw) = length ws" by (simp_all add: stored_ok_def)
  fix i assume i: "i < length ws" "errs mw ! i = None"
  have "wrote g (ws ! i) (map (\<lambda>ss. ss ! i) (map (coded_shards c e) ?bs)) (writers mw ! i)"
    using st(1) i by (simp add: stored_ok_def)
  then show "\<exists>v0 v. ws ! i = Some v0 \<and> writers mw ! i = Some v \<and> bytes_of (inner_of v) =
      bytes_of (inner_of v0) @ frames g (algo_of v0) (map (\<lambda>b. coded_shards c e b ! i) ?bs)"
    using n ne by (cases "ws ! i") (auto simp: wrote_def o_def)
qed

lemma encode_succeeds:
  assumes ok: "Erasure_ok c e" and g: "digests_ok g"
    and len: "length ws = total_shard_count e" and q: "q \<le> card {i. i < length ws \<and> able e (ws ! i)}"
  shows "\<exists>s' mw. Erasure_encode c g ord e \<lparr>content = data, stop = None\<rparr> ws q = Some (Inr (s', length data), mw)"
proof -
  have "\<exists>mw. write_blocks c g ord e (blocks (block_size e) data) (MultiWriter_new ws q) = Some (Inr (), mw)"
    by (rule write_blocks_live [OF g ok _ shaped_blocks [OF Erasure_okD(1) [OF ok]],
          where I = "{i. i < length ws \<and> able e (ws ! i)}"])
      (use len q in \<open>auto simp: MultiWriter_new_def\<close>)
  then show ?thesis unfolding encode_is_write_blocks [OF ok] by (simp add: finish_Some)
qed

text \<open>
  C5: If writing an object succeeds, the whole of it was read, at least a write quorum of
  writers has no error, and every writer without an error, whatever the drives did, stores the
  frames of its shard of every block, in order. It does succeed when a write quorum of the
  writers is able to write.
\<close>

theorem encode_durable:
  assumes ok: "Erasure_ok c e" and g: "digests_ok g" and ne: "data \<noteq> []"
  shows "(Erasure_encode c g ord e \<lparr>content = data, stop = None\<rparr> ws q = Some (Inr (s', t), mw) \<longrightarrow>
      t = length data \<and> content s' = [] \<and> q \<le> nil_count (errs mw)
      \<and> (\<forall>i < length ws. errs mw ! i = None \<longrightarrow>
           (\<exists>v0 v. ws ! i = Some v0 \<and> writers mw ! i = Some v \<and> bytes_of (inner_of v) =
              bytes_of (inner_of v0)
              @ frames g (algo_of v0) (map (\<lambda>b. coded_shards c e b ! i) (blocks (block_size e) data)))))
    \<and> (length ws = total_shard_count e \<longrightarrow> q \<le> card {i. i < length ws \<and> able e (ws ! i)} \<longrightarrow>
      (\<exists>s' mw. Erasure_encode c g ord e \<lparr>content = data, stop = None\<rparr> ws q = Some (Inr (s', length data), mw)))"
    (is "(?put \<longrightarrow> ?stored) \<and> (?len \<longrightarrow> ?quorum \<longrightarrow> ?ok)")
proof -
  have "?stored" if ?put using encode_stores [OF ok g ne that] by blast
  moreover have ?ok if ?len ?quorum by (rule encode_succeeds [OF ok g that])
  ultimately show ?thesis by blast
qed

theorem encode_durable_witness:
  "\<exists>s' mw. Erasure_encode xor_codec sum_digests rev (Erasure_new 2 1 4)
      \<lparr>content = [1, 2, 3, 4, 5], stop = None\<rparr>
      [Some (BitrotWriterWrapper_new new_inline_buffer 2 HighwayHash256), None,
       Some (BitrotWriterWrapper_new new_inline_buffer 2 HighwayHash256)] 2 = Some (Inr (s', 5), mw)
    \<and> 2 \<le> nil_count (errs mw)"
proof -
  let ?e = "Erasure_new 2 1 4" and ?v = "Some (BitrotWriterWrapper_new new_inline_buffer 2 HighwayHash256)"
  let ?ws = "[?v, None, ?v]" and ?data = "[1, 2, 3, 4, 5] :: bytes"
  have ok: "Erasure_ok xor_codec ?e" by (rule xor_Erasure_ok) simp
  have able: "able ?e ?v" "\<not> able ?e None"
    by (simp_all add: able_def BitrotWriterWrapper_new_def BitrotWriter_new_def new_inline_buffer_def
        shard_size_def calc_shard_size_def div_ceil_def Erasure_new_def)
  have "{i. i < length ?ws \<and> able ?e (?ws ! i)} = {0, 2}"
    using able by (auto simp: less_Suc_eq numeral_3_eq_3 numeral_2_eq_2)
  then have q: "2 \<le> card {i. i < length ?ws \<and> able ?e (?ws ! i)}" by simp
  have len: "length ?ws = total_shard_count ?e" by (simp add: total_shard_count_def Erasure_new_def)
  obtain s' mw where "Erasure_encode xor_codec sum_digests rev ?e \<lparr>content = ?data, stop = None\<rparr> ?ws 2 =
      Some (Inr (s', length ?data), mw)"
    using encode_durable [OF ok sum_digests_ok, of ?data rev ?ws 2, THEN conjunct2, rule_format, OF _ len q] by blast
  then show ?thesis
    using encode_durable [OF ok sum_digests_ok, of ?data rev ?ws 2 s' "length ?data" mw] by auto
qed

end
