(* ===== verification/ErasureRead.thy ===== *)
theory ErasureRead
  imports ErasureWrite
begin

text \<open>
  Reading an object: the parallel reader over all drives and the block loop Erasure::decode,
  crates/ecstore/src/erasure_coding/decode.rs, with the opening of the readers
  (crates/ecstore/src/bitrot.rs). The order in which the reads of several drives complete is
  not fixed: an argument \<^verbatim>\<open>sch\<close> picks, at every step, one of the pending reads. A result None
  is a panic.
\<close>

subsection \<open>Opening a reader\<close>

text \<open>A drive opens a file at an offset for a number of bytes (DiskAPI::read_file_stream).\<close>

type_synonym stream_call = "string \<Rightarrow> string \<Rightarrow> nat \<Rightarrow> nat \<Rightarrow> DiskError + source"

definition create_bitrot_reader ::
  "bytes option \<Rightarrow> stream_call option \<Rightarrow> string \<Rightarrow> string \<Rightarrow> nat \<Rightarrow> nat \<Rightarrow> nat \<Rightarrow> HashAlgorithm
    \<Rightarrow> (DiskError + BitrotReader option) option" where
  "create_bitrot_reader inline_data disk bucket path offset len sz checksum_algo =
    (let len1 = div_ceil len sz * hash_size checksum_algo + len;
         offset1 = div_ceil offset sz * hash_size checksum_algo + offset in
     case inline_data of
       Some data \<Rightarrow>
         Some (Inr (Some (BitrotReader_new \<lparr>content = drop offset1 data, stop = None\<rparr> sz checksum_algo)))
     | None \<Rightarrow>
         (case disk of
            Some read_file_stream \<Rightarrow>
              if len1 < offset1 then None
              else
                (case read_file_stream bucket path offset1 (len1 - offset1) of
                   Inr rd \<Rightarrow> Some (Inr (Some (BitrotReader_new rd sz checksum_algo)))
                 | Inl e \<Rightarrow> Some (Inl e))
          | None \<Rightarrow> Some (Inr None)))"

subsection \<open>ParallelReader\<close>

record ParallelReader =
  readers :: "BitrotReader option list"
  pr_offset :: nat
  pr_shard_size :: nat
  pr_shard_file_size :: nat
  pr_data_shards :: nat
  pr_total_shards :: nat

definition ParallelReader_new :: "BitrotReader option list \<Rightarrow> Erasure \<Rightarrow> nat \<Rightarrow> nat \<Rightarrow> ParallelReader" where
  "ParallelReader_new rs e offset total_length =
    \<lparr>readers = rs,
     pr_offset = offset div block_size e * shard_size e,
     pr_shard_size = shard_size e,
     pr_shard_file_size = nat (shard_file_size e (int total_length)),
     pr_data_shards = data_shards e,
     pr_total_shards = data_shards e + parity_shards e\<rparr>"

text \<open>The future of one reader; nothing happens to a reader whose future is not polled.\<close>

definition poll :: "digests \<Rightarrow> nat \<Rightarrow> BitrotReader option \<Rightarrow> (DiskError + bytes) \<times> BitrotReader option" where
  "poll g n reader =
    (case reader of
       Some r \<Rightarrow>
         (case BitrotReader_read g n r of
            (Inr buf, r') \<Rightarrow> (Inr buf, Some r')
          | (Inl e, r') \<Rightarrow> (Inl (disk_from_io e), Some r'))
     | None \<Rightarrow> (Inl FileNotFound, None))"

definition without :: "nat \<Rightarrow> 'a list \<Rightarrow> 'a list" where
  "without j xs = take j xs @ drop (Suc j) xs"

lemma length_without [simp]: "j < length xs \<Longrightarrow> length (without j xs) = length xs - 1"
  by (simp add: without_def)

record gather =
  g_readers :: "BitrotReader option list"
  g_shards :: shards
  g_errs :: "DiskError option list"

text \<open>
  The loop over FuturesUnordered: the pending reads, the index of the next future, what has been
  gathered, and the number of successes.
\<close>

function collect ::
  "(nat \<Rightarrow> BitrotReader option \<Rightarrow> (DiskError + bytes) \<times> BitrotReader option) \<Rightarrow> nat \<Rightarrow> nat \<Rightarrow> (nat \<Rightarrow> nat)
    \<Rightarrow> nat \<Rightarrow> nat list \<Rightarrow> nat \<Rightarrow> gather \<Rightarrow> nat \<Rightarrow> gather" where
  "collect pl n d sch step pending fut st success =
    (if pending = [] then st
     else
       (let j = sch step mod length pending; i = pending ! j;
            pending1 = without j pending in
        case pl n (g_readers st ! i) of
          (Inr v, r') \<Rightarrow>
            (let st1 = st\<lparr>g_readers := (g_readers st)[i := r'], g_shards := (g_shards st)[i := Some v]\<rparr> in
             if success + 1 \<ge> d then st1
             else collect pl n d sch (step + 1) pending1 fut st1 (success + 1))
        | (Inl e, r') \<Rightarrow>
            (let st1 = st\<lparr>g_readers := (g_readers st)[i := r'], g_errs := (g_errs st)[i := Some e]\<rparr>;
                 more = fut < length (g_readers st) in
             if success \<ge> d then st1
             else collect pl n d sch (step + 1) (if more then pending1 @ [fut] else pending1)
                    (if more then fut + 1 else fut) st1 success)))"
  by pat_completeness auto
termination
proof (relation "measure (\<lambda>(_, _, _, _, _, pending, fut, st, _). 2 * (length (g_readers st) - fut) + length pending)",
    goal_cases)
  case (2 pl n d sch step pending fut st success)
  then have "sch step mod length pending < length pending" by simp
  then show ?case using 2 by (cases "fut < length (g_readers st)") auto
next
  case (3 pl n d sch step pending fut st success)
  then have "sch step mod length pending < length pending" by simp
  then show ?case using 3 by (cases "fut < length (g_readers st)") auto
qed simp

declare collect.simps [simp del]

definition ParallelReader_read ::
  "digests \<Rightarrow> (nat \<Rightarrow> nat) \<Rightarrow> ParallelReader \<Rightarrow> (shards \<times> DiskError option list \<times> ParallelReader) option" where
  "ParallelReader_read g sch self =
    (let num_readers = length (readers self); none = replicate num_readers None in
     if pr_offset self + pr_shard_size self > pr_shard_file_size self
        \<and> pr_shard_file_size self < pr_offset self then None
     else
       (let n = (if pr_offset self + pr_shard_size self > pr_shard_file_size self
                 then pr_shard_file_size self - pr_offset self else pr_shard_size self) in
        if n = 0 then Some (none, replicate num_readers None, self)
        else if num_readers \<ge> pr_data_shards self then
          (let st = collect (poll g) n (pr_data_shards self) sch 0 [0..<pr_data_shards self] (pr_data_shards self)
                      \<lparr>g_readers = readers self, g_shards = none, g_errs = replicate num_readers None\<rparr> 0 in
           Some (g_shards st, g_errs st, self\<lparr>readers := g_readers st\<rparr>))
        else Some (none, replicate num_readers None, self)))"

definition can_decode :: "ParallelReader \<Rightarrow> shards \<Rightarrow> bool" where
  "can_decode self shards \<longleftrightarrow> length (filter (\<lambda>s. s \<noteq> None) shards) \<ge> pr_data_shards self"

subsection \<open>Writing the data blocks\<close>

definition get_data_block_len :: "shards \<Rightarrow> nat \<Rightarrow> nat" where
  "get_data_block_len shards data_blocks =
    sum_list (map (\<lambda>s. case s of None \<Rightarrow> 0 | Some b \<Rightarrow> length b) (take data_blocks shards))"

text \<open>The target of an object is written like a drive file: it may fail after some bytes.\<close>

fun write_blocks_loop :: "shards \<Rightarrow> nat \<Rightarrow> nat \<Rightarrow> nat \<Rightarrow> drive_file \<Rightarrow> nat io_result \<times> drive_file" where
  "write_blocks_loop [] offset write_left total_written w = (Inr total_written, w)"
| "write_blocks_loop (None # bs) offset write_left total_written w =
    (Inl (IoError UnexpectedEof (Plain ''Missing data block'')), w)"
| "write_blocks_loop (Some block # bs) offset write_left total_written w =
    (if offset \<ge> length block then write_blocks_loop bs (offset - length block) write_left total_written w
     else
       (let block_slice = drop offset block in
        if write_left < length block_slice then
          (case file_write_all (take write_left block_slice) w of
             (Inl e, w') \<Rightarrow> (Inl e, w')
           | (Inr _, w') \<Rightarrow> (Inr (total_written + write_left), w'))
        else
          (case file_write_all block_slice w of
             (Inl e, w') \<Rightarrow> (Inl e, w')
           | (Inr _, w') \<Rightarrow>
               write_blocks_loop bs 0 (write_left - length block_slice)
                 (total_written + length block_slice) w')))"

definition write_data_blocks :: "shards \<Rightarrow> nat \<Rightarrow> nat \<Rightarrow> nat \<Rightarrow> drive_file \<Rightarrow> nat io_result \<times> drive_file" where
  "write_data_blocks en_blocks data_blocks offset len w =
    (if get_data_block_len en_blocks data_blocks < len
     then (Inl (IoError UnexpectedEof (Plain ''Not enough data blocks to write'')), w)
     else write_blocks_loop (take data_blocks en_blocks) offset len 0 w)"

subsection \<open>Erasure::decode\<close>

definition block_bounds :: "nat \<Rightarrow> nat \<Rightarrow> nat \<Rightarrow> nat \<Rightarrow> nat \<times> nat" where
  "block_bounds bs offset len i =
    (let start = offset div bs; last_block = (offset + len) div bs in
     if start = last_block then (offset mod bs, len)
     else if i = start then (offset mod bs, bs - offset mod bs)
     else if i = last_block then (0, (offset + len) mod bs)
     else (0, bs))"

record decoding =
  d_reader :: ParallelReader
  d_written :: nat
  d_err :: "io_error option"
  d_out :: drive_file

definition note_err :: "(DiskError counts \<Rightarrow> DiskError counts) \<Rightarrow> DiskError option list \<Rightarrow> io_error option \<Rightarrow> io_error option" where
  "note_err ord es ret_err =
    (if ret_err = None then
       (case reduce_errs ord es [] of
          (_, Some err) \<Rightarrow>
            if DiskError_eq err FileNotFound \<or> DiskError_eq err FileCorrupt then Some (io_from_disk err) else None
        | (_, None) \<Rightarrow> None)
     else ret_err)"

fun decode_loop ::
  "codec \<Rightarrow> digests \<Rightarrow> (DiskError counts \<Rightarrow> DiskError counts) \<Rightarrow> (nat \<Rightarrow> nat \<Rightarrow> nat) \<Rightarrow> Erasure \<Rightarrow> nat \<Rightarrow> nat
    \<Rightarrow> nat list \<Rightarrow> decoding \<Rightarrow> decoding option" where
  "decode_loop c g ord sch self offset len [] st = Some st"
| "decode_loop c g ord sch self offset len (i # is) st =
    (case block_bounds (block_size self) offset len i of
       (block_offset, block_length) \<Rightarrow>
         if block_length = 0 then Some st
         else
           (case ParallelReader_read g (sch i) (d_reader st) of
              None \<Rightarrow> None
            | Some (shards, es, reader) \<Rightarrow>
                (let st1 = st\<lparr>d_reader := reader, d_err := note_err ord es (d_err st)\<rparr> in
                 if \<not> can_decode reader shards then Some (st1\<lparr>d_err := Some (io_from_disk ErasureReadQuorum)\<rparr>)
                 else
                   (case decode_data c self shards of
                      Inl e \<Rightarrow> Some (st1\<lparr>d_err := Some e\<rparr>)
                    | Inr shards1 \<Rightarrow>
                        (case write_data_blocks shards1 (data_shards self) block_offset block_length (d_out st1) of
                           (Inl e, w) \<Rightarrow> Some (st1\<lparr>d_err := Some e, d_out := w\<rparr>)
                         | (Inr n, w) \<Rightarrow>
                             decode_loop c g ord sch self offset len is
                               (st1\<lparr>d_written := d_written st + n, d_out := w\<rparr>))))))"

definition Erasure_decode ::
  "codec \<Rightarrow> digests \<Rightarrow> (DiskError counts \<Rightarrow> DiskError counts) \<Rightarrow> (nat \<Rightarrow> nat \<Rightarrow> nat) \<Rightarrow> Erasure \<Rightarrow> drive_file
    \<Rightarrow> BitrotReader option list \<Rightarrow> nat \<Rightarrow> nat \<Rightarrow> nat \<Rightarrow> (nat \<times> io_error option \<times> drive_file) option" where
  "Erasure_decode c g ord sch self w rs offset len total_length =
    (if length rs \<noteq> data_shards self + parity_shards self
     then Some (0, Some (IoError InvalidInput (Plain ''Invalid number of readers'')), w)
     else if offset + len > total_length
     then Some (0, Some (IoError InvalidInput (Plain ''offset + length exceeds total length'')), w)
     else if len = 0 then Some (0, None, w)
     else
       (let start = offset div block_size self; last_block = (offset + len) div block_size self in
        case decode_loop c g ord sch self offset len [start..<last_block + 1]
               \<lparr>d_reader = ParallelReader_new rs self offset total_length, d_written = 0, d_err = None, d_out = w\<rparr> of
          None \<Rightarrow> None
        | Some st \<Rightarrow>
            Some (d_written st,
                  (if d_err st \<noteq> None then d_err st
                   else if d_written st < len then Some (io_from_disk LessData) else None),
                  d_out st)))"

subsection \<open>The order in which reads complete does not matter\<close>

text \<open>What has been gathered when the reads of a set C of drives have completed.\<close>

definition gathered ::
  "(nat \<Rightarrow> BitrotReader option \<Rightarrow> (DiskError + bytes) \<times> BitrotReader option) \<Rightarrow> nat
    \<Rightarrow> BitrotReader option list \<Rightarrow> nat set \<Rightarrow> gather" where
  "gathered pl n rs C = \<lparr>
    g_readers = map (\<lambda>i. if i \<in> C then snd (pl n (rs ! i)) else rs ! i) [0..<length rs],
    g_shards = map (\<lambda>i. if i \<in> C then (case fst (pl n (rs ! i)) of Inr v \<Rightarrow> Some v | Inl _ \<Rightarrow> None) else None)
      [0..<length rs],
    g_errs = map (\<lambda>i. if i \<in> C then (case fst (pl n (rs ! i)) of Inr _ \<Rightarrow> None | Inl e \<Rightarrow> Some e) else None)
      [0..<length rs]\<rparr>"

text \<open>The number of drives below m whose read succeeds.\<close>

definition successes ::
  "(nat \<Rightarrow> BitrotReader option \<Rightarrow> (DiskError + bytes) \<times> BitrotReader option) \<Rightarrow> nat
    \<Rightarrow> BitrotReader option list \<Rightarrow> nat \<Rightarrow> nat" where
  "successes pl n rs m = card {i. i < m \<and> \<not> isl (fst (pl n (rs ! i)))}"

text \<open>
  The first m drives suffice: they have exactly d successful reads and no fewer drives have,
  or there are not enough and all drives are read.
\<close>

definition suffices ::
  "(nat \<Rightarrow> BitrotReader option \<Rightarrow> (DiskError + bytes) \<times> BitrotReader option) \<Rightarrow> nat
    \<Rightarrow> BitrotReader option list \<Rightarrow> nat \<Rightarrow> nat \<Rightarrow> bool" where
  "suffices pl n rs d m \<longleftrightarrow> d \<le> m \<and> m \<le> length rs
    \<and> (successes pl n rs m = d \<and> (d < m \<longrightarrow> successes pl n rs (m - 1) < d)
       \<or> m = length rs \<and> successes pl n rs m < d)"

lemma gathered_sel [simp]:
  "length (g_readers (gathered pl n rs C)) = length rs"
  "i < length rs \<Longrightarrow> i \<notin> C \<Longrightarrow> g_readers (gathered pl n rs C) ! i = rs ! i"
  by (simp_all add: gathered_def)

lemma gathered_insert:
  assumes "i < length rs" "i \<notin> C"
  shows "pl n (rs ! i) = (Inr v, r') \<Longrightarrow>
      (gathered pl n rs C)\<lparr>g_readers := (g_readers (gathered pl n rs C))[i := r'],
        g_shards := (g_shards (gathered pl n rs C))[i := Some v]\<rparr> = gathered pl n rs (insert i C)"
    and "pl n (rs ! i) = (Inl e, r') \<Longrightarrow>
      (gathered pl n rs C)\<lparr>g_readers := (g_readers (gathered pl n rs C))[i := r'],
        g_errs := (g_errs (gathered pl n rs C))[i := Some e]\<rparr> = gathered pl n rs (insert i C)"
  using assms unfolding gathered_def
  by (auto intro!: nth_equalityI simp: nth_list_update split: sum.split)

lemma set_without:
  assumes "distinct xs" "j < length xs"
  shows "set (without j xs) = set xs - {xs ! j}" "distinct (without j xs)"
proof -
  have "xs = take j xs @ xs ! j # drop (Suc j) xs" using assms(2) by (rule id_take_nth_drop)
  then have "distinct (take j xs @ xs ! j # drop (Suc j) xs)"
    "set xs = set (take j xs @ xs ! j # drop (Suc j) xs)" using assms(1) by metis+
  then show "set (without j xs) = set xs - {xs ! j}" "distinct (without j xs)"
    unfolding without_def by auto
qed

text \<open>The invariant of the loop, for the set C of drives whose reads have completed.\<close>

abbreviation good ::
  "(nat \<Rightarrow> BitrotReader option \<Rightarrow> (DiskError + bytes) \<times> BitrotReader option) \<Rightarrow> nat
    \<Rightarrow> BitrotReader option list \<Rightarrow> nat set \<Rightarrow> nat set" where
  "good pl n rs C \<equiv> {i \<in> C. \<not> isl (fst (pl n (rs ! i)))}"

abbreviation bad ::
  "(nat \<Rightarrow> BitrotReader option \<Rightarrow> (DiskError + bytes) \<times> BitrotReader option) \<Rightarrow> nat
    \<Rightarrow> BitrotReader option list \<Rightarrow> nat set \<Rightarrow> nat set" where
  "bad pl n rs C \<equiv> {i \<in> C. isl (fst (pl n (rs ! i)))}"

definition collecting ::
  "(nat \<Rightarrow> BitrotReader option \<Rightarrow> (DiskError + bytes) \<times> BitrotReader option) \<Rightarrow> nat
    \<Rightarrow> BitrotReader option list \<Rightarrow> nat \<Rightarrow> nat list \<Rightarrow> nat \<Rightarrow> nat set \<Rightarrow> nat \<Rightarrow> bool" where
  "collecting pl n rs d pending fut C success \<longleftrightarrow>
    distinct pending \<and> set pending \<inter> C = {} \<and> set pending \<union> C = {..<fut}
    \<and> d \<le> length rs \<and> success < d \<and> success = card (good pl n rs C)
    \<and> fut = min (length rs) (d + card (bad pl n rs C))
    \<and> (d < fut \<longrightarrow> successes pl n rs (fut - 1) < d)"

lemma good_bad_card:
  "finite C \<Longrightarrow> card (good pl n rs C) + card (bad pl n rs C) = card C"
  by (subst card_Un_disjoint [symmetric]) (auto intro!: arg_cong [where f = card])

lemma collectingD:
  assumes "collecting pl n rs d pending fut C success"
  shows "distinct pending" "set pending \<inter> C = {}" "set pending \<union> C = {..<fut}" "d \<le> length rs" "success < d"
    "success = card (good pl n rs C)" "fut = min (length rs) (d + card (bad pl n rs C))"
    "d < fut \<Longrightarrow> successes pl n rs (fut - 1) < d"
  using assms unfolding collecting_def by blast+

lemma collecting_count:
  assumes "collecting pl n rs d pending fut C success"
  shows "finite C" "length pending + success + card (bad pl n rs C) = fut"
    "length pending + success \<le> d" "d \<le> fut" "fut \<le> length rs"
proof -
  note inv = collectingD [OF assms]
  show fin: "finite C" using inv(3) by (metis finite_Un finite_lessThan)
  have "card (set pending \<union> C) = length pending + card C"
    using inv(1,2) fin by (simp add: card_Un_disjoint distinct_card)
  moreover have "card (set pending \<union> C) = fut" by (simp only: inv(3) card_lessThan)
  ultimately show n: "length pending + success + card (bad pl n rs C) = fut"
    using good_bad_card [OF fin, of pl n rs] inv(6) by linarith
  show "length pending + success \<le> d" "d \<le> fut" "fut \<le> length rs" using n inv(4,7) by linarith+
qed

lemma insert_good_bad:
  assumes "finite C" "i \<notin> C"
  shows "\<not> isl (fst (pl n (rs ! i))) \<Longrightarrow> card (good pl n rs (insert i C)) = Suc (card (good pl n rs C))
      \<and> bad pl n rs (insert i C) = bad pl n rs C"
    and "isl (fst (pl n (rs ! i))) \<Longrightarrow> card (bad pl n rs (insert i C)) = Suc (card (bad pl n rs C))
      \<and> good pl n rs (insert i C) = good pl n rs C"
proof -
  assume "\<not> isl (fst (pl n (rs ! i)))"
  then have "good pl n rs (insert i C) = insert i (good pl n rs C)" "bad pl n rs (insert i C) = bad pl n rs C"
    by auto
  then show "card (good pl n rs (insert i C)) = Suc (card (good pl n rs C)) \<and> bad pl n rs (insert i C) = bad pl n rs C"
    using assms by simp
next
  assume "isl (fst (pl n (rs ! i)))"
  then have "bad pl n rs (insert i C) = insert i (bad pl n rs C)" "good pl n rs (insert i C) = good pl n rs C"
    by auto
  then show "card (bad pl n rs (insert i C)) = Suc (card (bad pl n rs C)) \<and> good pl n rs (insert i C) = good pl n rs C"
    using assms by simp
qed

lemma collecting_success:
  assumes inv: "collecting pl n rs d pending fut C success" and j: "j < length pending"
    and ok: "\<not> isl (fst (pl n (rs ! (pending ! j))))"
  shows "success + 1 < d \<Longrightarrow> collecting pl n rs d (without j pending) fut (insert (pending ! j) C) (success + 1)"
    and "d \<le> success + 1 \<Longrightarrow> insert (pending ! j) C = {..<fut} \<and> suffices pl n rs d fut"
proof -
  let ?i = "pending ! j"
  note i = collectingD [OF inv] and cnt = collecting_count [OF inv]
  have i_in: "?i \<in> set pending" using j by simp
  then have i_out: "?i \<notin> C" using i(2) by blast
  note ins = insert_good_bad(1) [of C ?i pl n rs, OF cnt(1) i_out ok]
  show "collecting pl n rs d (without j pending) fut (insert ?i C) (success + 1)" if "success + 1 < d"
    unfolding collecting_def
  proof (intro conjI)
    show "set (without j pending) \<inter> insert ?i C = {}" "set (without j pending) \<union> insert ?i C = {..<fut}"
      using set_without(1) [OF i(1) j] i(2,3) i_in by blast+
    show "success + 1 = card (good pl n rs (insert ?i C))"
      "fut = min (length rs) (d + card (bad pl n rs (insert ?i C)))" using ins i(6,7) by simp_all
  qed (use set_without(2) [OF i(1) j] i that in blast)+
  show "insert ?i C = {..<fut} \<and> suffices pl n rs d fut" if "d \<le> success + 1"
  proof -
    have "length pending = 1" using cnt(3) i(5) that j by linarith
    then have "set pending = {?i}" using i_in by (cases pending) auto
    then have all: "insert ?i C = {..<fut}" using i(3) by blast
    have "successes pl n rs fut = card (good pl n rs (insert ?i C))"
      unfolding all by (simp add: successes_def)
    then have "successes pl n rs fut = d" using ins i(5,6) that by linarith
    then show ?thesis using all cnt(4,5) i(8) by (simp add: suffices_def)
  qed
qed

lemma collecting_failure:
  assumes inv: "collecting pl n rs d pending fut C success" and j: "j < length pending"
    and fails: "isl (fst (pl n (rs ! (pending ! j))))"
  shows "fut < length rs \<Longrightarrow>
      collecting pl n rs d (without j pending @ [fut]) (fut + 1) (insert (pending ! j) C) success"
    and "\<not> fut < length rs \<Longrightarrow>
      collecting pl n rs d (without j pending) fut (insert (pending ! j) C) success"
proof -
  let ?i = "pending ! j"
  note i = collectingD [OF inv] and cnt = collecting_count [OF inv]
  have i_in: "?i \<in> set pending" using j by simp
  then have i_out: "?i \<notin> C" using i(2) by blast
  note ins = insert_good_bad(2) [of C ?i pl n rs, OF cnt(1) i_out fails]
  note wo = set_without [OF i(1) j]
  have sets: "set (without j pending) \<inter> insert ?i C = {}" "set (without j pending) \<union> insert ?i C = {..<fut}"
    using wo(1) i(2,3) i_in by blast+
  show "collecting pl n rs d (without j pending @ [fut]) (fut + 1) (insert ?i C) success" if more: "fut < length rs"
  proof -
    have new: "fut \<notin> set (without j pending)" "fut \<notin> insert ?i C" using sets(2) by auto
    have "insert ?i C \<subseteq> {..<fut}" using sets(2) by blast
    then have "card (bad pl n rs (insert ?i C)) \<le> card (bad pl n rs {..<fut})"
      by (intro card_mono) auto
    moreover have "card (good pl n rs {..<fut}) + card (bad pl n rs {..<fut}) = fut"
      using good_bad_card [of "{..<fut}" pl n rs] by simp
    ultimately have low: "successes pl n rs fut < d"
      using ins i(7) more i(5) by (simp add: successes_def)
    show ?thesis
      unfolding collecting_def
    proof (intro conjI)
      show "set (without j pending @ [fut]) \<inter> insert ?i C = {}" using sets(1) new by auto
      have "{..<fut + 1} = insert fut {..<fut}" by auto
      then show "set (without j pending @ [fut]) \<union> insert ?i C = {..<fut + 1}"
        unfolding sets(2) [symmetric] by auto
      show "distinct (without j pending @ [fut])" using wo(2) new by simp
      show "success = card (good pl n rs (insert ?i C))"
        "fut + 1 = min (length rs) (d + card (bad pl n rs (insert ?i C)))" using ins i(6,7) more by simp_all
      show "d < fut + 1 \<longrightarrow> successes pl n rs (fut + 1 - 1) < d" using low by simp
    qed (use i in blast)+
  qed
  show "collecting pl n rs d (without j pending) fut (insert ?i C) success" if "\<not> fut < length rs"
    unfolding collecting_def
  proof (intro conjI)
    show "success = card (good pl n rs (insert ?i C))"
      "fut = min (length rs) (d + card (bad pl n rs (insert ?i C)))" using ins i(6,7) that by simp_all
  qed (use sets wo(2) i in blast)+
qed

lemma collecting_done:
  assumes inv: "collecting pl n rs d [] fut C success"
  shows "C = {..<fut} \<and> suffices pl n rs d fut"
proof -
  note i = collectingD [OF inv] and cnt = collecting_count [OF inv]
  have C: "C = {..<fut}" using i(3) by simp
  have "fut = length rs" using cnt(2) i(5,7) by simp
  moreover have "successes pl n rs fut = success" using C i(6) by (simp add: successes_def)
  ultimately show ?thesis using C i(4,5) by (simp add: suffices_def)
qed

text \<open>One step of the loop.\<close>

lemma collect_step:
  assumes "pending \<noteq> []" "j = sch step mod length pending" "i = pending ! j" and i: "i < length rs" "i \<notin> C"
  shows "pl n (rs ! i) = (Inr v, r') \<Longrightarrow>
      collect pl n d sch step pending fut (gathered pl n rs C) success =
        (if success + 1 \<ge> d then gathered pl n rs (insert i C)
         else collect pl n d sch (step + 1) (without j pending) fut (gathered pl n rs (insert i C)) (success + 1))"
    and "pl n (rs ! i) = (Inl e, r') \<Longrightarrow> success < d \<Longrightarrow>
      collect pl n d sch step pending fut (gathered pl n rs C) success =
        (if fut < length rs
         then collect pl n d sch (step + 1) (without j pending @ [fut]) (fut + 1) (gathered pl n rs (insert i C)) success
         else collect pl n d sch (step + 1) (without j pending) fut (gathered pl n rs (insert i C)) success)"
  using assms(1) i gathered_insert [OF i, of pl n]
  by (subst collect.simps, simp add: assms(2,3) [symmetric])+

lemma collect_gathers:
  assumes "collecting pl n rs d pending fut C success"
  shows "\<exists>m. collect pl n d sch step pending fut (gathered pl n rs C) success = gathered pl n rs {..<m}
    \<and> suffices pl n rs d m"
  using assms
proof (induction "2 * (length rs - fut) + length pending" arbitrary: step pending fut C success rule: less_induct)
  case less
  show ?case
  proof (cases "pending = []")
    case True
    then have "C = {..<fut} \<and> suffices pl n rs d fut" using collecting_done less.prems by simp
    then show ?thesis using True by (subst collect.simps) auto
  next
    case False
    define j where "j = sch step mod length pending"
    define i where "i = pending ! j"
    have j: "j < length pending" using False by (simp add: j_def)
    have "i \<in> set pending" using j by (simp add: i_def)
    then have "i \<in> {..<fut}" "i \<notin> C" using collectingD(2,3) [OF less.prems] by blast+
    then have i: "i < length rs" "i \<notin> C" using collecting_count(5) [OF less.prems] by simp_all
    obtain x r' where x: "pl n (rs ! i) = (x, r')" by (cases "pl n (rs ! i)")
    show ?thesis
    proof (cases x)
      case (Inr v)
      have ok: "\<not> isl (fst (pl n (rs ! (pending ! j))))" using x Inr i_def by simp
      note step = collect_step(1) [where pl = pl and n = n and rs = rs and sch = sch and step = step, OF False j_def i_def i x [unfolded Inr]]
      show ?thesis
      proof (cases "success + 1 \<ge> d")
        case True
        then have "insert i C = {..<fut} \<and> suffices pl n rs d fut"
          using collecting_success(2) [OF less.prems j ok] by (simp only: i_def)
        then show ?thesis using step True by auto
      next
        case low: False
        have "2 * (length rs - fut) + length (without j pending) < 2 * (length rs - fut) + length pending"
          using j by simp
        moreover have "collecting pl n rs d (without j pending) fut (insert i C) (success + 1)"
          using collecting_success(1) [OF less.prems j ok] low by (simp add: i_def)
        ultimately show ?thesis unfolding step if_not_P [OF low] by (rule less.hyps)
      qed
    next
      case (Inl e)
      have fails: "isl (fst (pl n (rs ! (pending ! j))))" using x Inl i_def by simp
      have lt: "success < d" by (rule collectingD(5) [OF less.prems])
      note step = collect_step(2) [where pl = pl and n = n and rs = rs and sch = sch and step = step, OF False j_def i_def i x [unfolded Inl] lt]
      show ?thesis
      proof (cases "fut < length rs")
        case True
        have "2 * (length rs - (fut + 1)) + length (without j pending @ [fut]) < 2 * (length rs - fut) + length pending"
          using j True by simp
        moreover have "collecting pl n rs d (without j pending @ [fut]) (fut + 1) (insert i C) success"
          using collecting_failure(1) [OF less.prems j fails True] by (simp add: i_def)
        ultimately show ?thesis unfolding step if_P [OF True] by (rule less.hyps)
      next
        case no: False
        have "2 * (length rs - fut) + length (without j pending) < 2 * (length rs - fut) + length pending"
          using j by simp
        moreover have "collecting pl n rs d (without j pending) fut (insert i C) success"
          using collecting_failure(2) [OF less.prems j fails no] by (simp add: i_def)
        ultimately show ?thesis unfolding step if_not_P [OF no] by (rule less.hyps)
      qed
    qed
  qed
qed

lemma successes_mono: "m \<le> k \<Longrightarrow> successes pl n rs m \<le> successes pl n rs k"
  unfolding successes_def by (intro card_mono) auto

lemma suffices_unique:
  assumes "suffices pl n rs d m" "suffices pl n rs d k"
  shows "m = k"
proof -
  have False if "suffices pl n rs d m" "suffices pl n rs d k" "m < k" for m k
  proof (cases "successes pl n rs k = d")
    case True
    then have "successes pl n rs (k - 1) < d" using that by (auto simp: suffices_def)
    moreover have "successes pl n rs m \<le> successes pl n rs (k - 1)" using that(3) by (intro successes_mono) simp
    ultimately show False using that by (auto simp: suffices_def)
  next
    case False
    then have "successes pl n rs k < d" using that(2) by (auto simp: suffices_def)
    moreover have "successes pl n rs m \<le> successes pl n rs k" using that(3) by (intro successes_mono) simp
    ultimately show False using that by (auto simp: suffices_def)
  qed
  then show ?thesis using assms by (meson linorder_neqE_nat)
qed

lemma gathered_start:
  "gathered pl n rs {} = \<lparr>g_readers = rs, g_shards = replicate (length rs) None, g_errs = replicate (length rs) None\<rparr>"
  by (simp add: gathered_def map_nth map_replicate_const)

lemma collecting_start: "0 < d \<Longrightarrow> d \<le> length rs \<Longrightarrow> collecting pl n rs d [0..<d] d {} 0"
  by (auto simp: collecting_def)

text \<open>The number of bytes asked of every drive.\<close>

definition read_size :: "ParallelReader \<Rightarrow> nat" where
  "read_size pr =
    (if pr_offset pr + pr_shard_size pr > pr_shard_file_size pr
     then pr_shard_file_size pr - pr_offset pr else pr_shard_size pr)"

text \<open>One parallel read, by the number of drives that suffice, in whatever order reads complete.\<close>

lemma ParallelReader_read_suffices:
  assumes d: "0 < pr_data_shards pr" "pr_data_shards pr \<le> length (readers pr)"
    and off: "pr_offset pr < pr_shard_file_size pr" "0 < pr_shard_size pr"
    and m: "suffices (poll g) (read_size pr) (readers pr) (pr_data_shards pr) m"
  shows "ParallelReader_read g sch pr =
    (let st = gathered (poll g) (read_size pr) (readers pr) {..<m} in
     Some (g_shards st, g_errs st, pr\<lparr>readers := g_readers st\<rparr>))"
proof -
  have n: "0 < read_size pr" using off by (auto simp: read_size_def)
  obtain k where k: "collect (poll g) (read_size pr) (pr_data_shards pr) sch 0 [0..<pr_data_shards pr]
      (pr_data_shards pr) (gathered (poll g) (read_size pr) (readers pr) {}) 0
      = gathered (poll g) (read_size pr) (readers pr) {..<k}"
    "suffices (poll g) (read_size pr) (readers pr) (pr_data_shards pr) k"
    using collect_gathers [OF collecting_start [OF d, of "poll g" "read_size pr"], of sch 0] by blast
  have "k = m" using suffices_unique k(2) m by blast
  then show ?thesis using k(1) n off d
    unfolding ParallelReader_read_def read_size_def [symmetric] gathered_start by (simp add: Let_def)
qed

end
