(* ===== verification/ErasureReadSpec.thy ===== *)
theory ErasureReadSpec
  imports ErasureRead
begin

text \<open>
  Correctness of reading an object: with enough drives that deliver their shards from the
  first block on, and the others failing from the first block on, the decoder writes exactly
  the requested range, whatever the order in which the reads complete. A drive that fails later
  is replaced by one that has not been read so far and is therefore at an earlier block.
\<close>

subsection \<open>Readers that serve and readers that fail\<close>

definition failing :: "digests \<Rightarrow> nat \<Rightarrow> BitrotReader option \<Rightarrow> bool" where
  "failing g n r \<longleftrightarrow> (\<forall>k. isl (fst (poll g n (((\<lambda>r. snd (poll g n r)) ^^ k) r))))"

definition serving :: "digests \<Rightarrow> nat \<Rightarrow> BitrotReader option \<Rightarrow> bytes list \<Rightarrow> bool" where
  "serving g n r bs \<longleftrightarrow> (\<exists>r0 rest. r = Some r0 \<and> bitrot_delivers g n r0 (bs @ rest))"

lemma failing_None [simp]: "failing g n None"
proof -
  have "((\<lambda>r. snd (poll g n r)) ^^ k) None = None" for k
    by (induction k) (simp_all add: poll_def)
  then show ?thesis by (simp add: failing_def poll_def)
qed

lemma failing_step: "failing g n r \<Longrightarrow> isl (fst (poll g n r)) \<and> failing g n (snd (poll g n r))"
proof -
  assume a: "failing g n r"
  have "isl (fst (poll g n (((\<lambda>r. snd (poll g n r)) ^^ 0) r)))" using a unfolding failing_def by blast
  moreover have "isl (fst (poll g n (((\<lambda>r. snd (poll g n r)) ^^ k) (snd (poll g n r)))))" for k
    using a unfolding failing_def by (metis comp_apply funpow_Suc_right)
  ultimately show ?thesis by (simp add: failing_def)
qed

lemma serving_step:
  assumes "serving g n r (b # bs)"
  shows "fst (poll g n r) = Inr b \<and> serving g n (snd (poll g n r)) bs"
proof -
  obtain r0 rest where r: "r = Some r0" "bitrot_delivers g n r0 (b # bs @ rest)"
    using assms by (auto simp: serving_def)
  obtain r1 where "BitrotReader_read g n r0 = (Inr b, r1)" "bitrot_delivers g n r1 (bs @ rest)"
    using bitrot_source.next_block [OF r(2)] by blast
  then show ?thesis using r(1) by (auto simp: poll_def serving_def)
qed

text \<open>A reader at the end of its file fails for good.\<close>

lemma failing_empty:
  assumes "content (br_inner r) = []" "0 < hash_size (br_hash_algo r)" "n \<le> br_shard_size r"
  shows "failing g n (Some r)"
proof -
  have step: "isl (fst (poll g n (Some r))) \<and> snd (poll g n (Some r)) = Some r"
    if "content (br_inner r) = []" "0 < hash_size (br_hash_algo r)" for r
    using that by (cases "br_inner r"; cases r) (auto simp: poll_def BitrotReader_read_def read_exact_def Let_def)
  have "((\<lambda>r. snd (poll g n r)) ^^ k) (Some r) = Some r" for k
    by (induction k) (use step [OF assms(1,2)] in simp_all)
  then show ?thesis using step [OF assms(1,2)] by (simp add: failing_def)
qed

subsection \<open>Reading one block\<close>

text \<open>The first m drives hold exactly d of the drives in G.\<close>

definition enough :: "nat \<Rightarrow> nat \<Rightarrow> nat set \<Rightarrow> nat \<Rightarrow> bool" where
  "enough d N G m \<longleftrightarrow> d \<le> m \<and> m \<le> N \<and> card (G \<inter> {..<m}) = d \<and> (d < m \<longrightarrow> card (G \<inter> {..<m - 1}) < d)"

lemma card_Int_step: "card (G \<inter> {..<Suc m}) = card (G \<inter> {..<m}) + (if m \<in> G then 1 else 0)"
  by (simp add: lessThan_Suc Int_insert_right)

lemma enough_exists:
  assumes "0 < d" "d \<le> card (G \<inter> {..<N})"
  obtains m where "enough d N G m"
proof -
  define m where "m = (LEAST m. d \<le> card (G \<inter> {..<m}))"
  have m: "d \<le> card (G \<inter> {..<m})" unfolding m_def by (rule LeastI) (rule assms(2))
  have least: "m \<le> k" if "d \<le> card (G \<inter> {..<k})" for k unfolding m_def by (rule Least_le) (rule that)
  have "m \<noteq> 0" using m assms(1) by (intro notI) simp
  then obtain k where k: "m = Suc k" by (cases m) simp_all
  then have "card (G \<inter> {..<k}) < d" using least [of k] by (meson not_less_eq_eq le_refl linorder_not_less)
  moreover from this have "card (G \<inter> {..<m}) = d" using m card_Int_step [of G k] k by (simp split: if_splits)
  moreover have "card (G \<inter> {..<m}) \<le> m" by (metis card_lessThan card_mono finite_lessThan inf_le2)
  ultimately show thesis using that [of m] least [OF assms(2)] k by (simp add: enough_def)
qed

definition reads_block :: "digests \<Rightarrow> nat \<Rightarrow> nat set \<Rightarrow> nat \<Rightarrow> (nat \<Rightarrow> bytes list) \<Rightarrow> BitrotReader option list \<Rightarrow> bool" where
  "reads_block g n G m shs rs \<longleftrightarrow>
    (\<forall>i < m. if i \<in> G then serving g n (rs ! i) (shs i) else failing g n (rs ! i))"

lemma reads_block_suffices:
  assumes "reads_block g n G m (\<lambda>i. x i # xs i) rs" "enough d (length rs) G m"
  shows "suffices (poll g) n rs d m"
proof -
  have "isl (fst (poll g n (rs ! i))) \<longleftrightarrow> i \<notin> G" if "i < m" for i
    using assms(1) that failing_step serving_step unfolding reads_block_def by (metis sum.disc(2))
  then have "{i. i < k \<and> \<not> isl (fst (poll g n (rs ! i)))} = G \<inter> {..<k}" if "k \<le> m" for k
    using that by auto
  then have "successes (poll g) n rs k = card (G \<inter> {..<k})" if "k \<le> m" for k
    using that by (simp add: successes_def)
  then show ?thesis using assms(2) by (simp add: suffices_def enough_def)
qed

lemma reads_block_gathered:
  assumes rb: "reads_block g n G m (\<lambda>i. s ! i # xs i) rs" and len: "length s = length rs" "m \<le> length rs"
  shows "g_shards (gathered (poll g) n rs {..<m}) = lose (\<lambda>i. i < m \<and> i \<in> G) s"
    "reads_block g n G m xs (g_readers (gathered (poll g) n rs {..<m}))"
    "length (g_errs (gathered (poll g) n rs {..<m})) = length rs"
    "\<And>i. i < length rs \<Longrightarrow> g_errs (gathered (poll g) n rs {..<m}) ! i \<noteq> None \<longleftrightarrow> i < m \<and> i \<notin> G"
proof -
  have ok: "fst (poll g n (rs ! i)) = Inr (s ! i) \<and> serving g n (snd (poll g n (rs ! i))) (xs i)"
    if "i < m" "i \<in> G" for i
    using rb that serving_step unfolding reads_block_def by metis
  have no: "isl (fst (poll g n (rs ! i))) \<and> failing g n (snd (poll g n (rs ! i)))" if "i < m" "i \<notin> G" for i
    using rb that failing_step unfolding reads_block_def by metis
  show "g_shards (gathered (poll g) n rs {..<m}) = lose (\<lambda>i. i < m \<and> i \<in> G) s"
    using ok no len by (auto simp: gathered_def lose_def split: sum.split) (metis sum.disc(2))+
  show "reads_block g n G m xs (g_readers (gathered (poll g) n rs {..<m}))"
    using ok no len(2) unfolding reads_block_def gathered_def by auto
  show "length (g_errs (gathered (poll g) n rs {..<m})) = length rs" by (simp add: gathered_def)
  show "g_errs (gathered (poll g) n rs {..<m}) ! i \<noteq> None \<longleftrightarrow> i < m \<and> i \<notin> G" if "i < length rs" for i
    using ok [of i] no [of i] that by (cases "i \<in> G") (auto simp: gathered_def split: sum.split)
qed

lemma can_decode_lose:
  assumes "enough d (length s) G m" "pr_data_shards pr = d"
  shows "can_decode pr (lose (\<lambda>i. i < m \<and> i \<in> G) s)"
    "d \<le> length (filter (\<lambda>i. i < m \<and> i \<in> G) [0..<length s])"
proof -
  have "{i. i < length s \<and> i < m \<and> i \<in> G} = G \<inter> {..<m}" using assms(1) by (auto simp: enough_def)
  then have c: "card {i. i < length s \<and> i < m \<and> i \<in> G} = d" using assms(1) by (simp add: enough_def)
  have "{i. i < length (lose (\<lambda>i. i < m \<and> i \<in> G) s) \<and> lose (\<lambda>i. i < m \<and> i \<in> G) s ! i \<noteq> None}
      = {i. i < length s \<and> i < m \<and> i \<in> G}" by (auto simp: nth_lose split: if_splits)
  then have "length (filter (\<lambda>x. x \<noteq> None) (lose (\<lambda>i. i < m \<and> i \<in> G) s)) = d"
    unfolding length_filter_conv_card using c by simp
  then show "can_decode pr (lose (\<lambda>i. i < m \<and> i \<in> G) s)" using assms(2) by (simp add: can_decode_def)
  have "{i. i < length [0..<length s] \<and> [0..<length s] ! i < m \<and> [0..<length s] ! i \<in> G}
      = {i. i < length s \<and> i < m \<and> i \<in> G}" by auto
  then show "d \<le> length (filter (\<lambda>i. i < m \<and> i \<in> G) [0..<length s])"
    unfolding length_filter_conv_card using c by simp
qed

subsection \<open>Writing the range of one block\<close>

lemma write_blocks_loop_range:
  "room w = None \<Longrightarrow> write_blocks_loop (map Some ss) off left t w =
    (Inr (t + length (take left (drop off (concat ss)))),
     w\<lparr>written := written w @ take left (drop off (concat ss))\<rparr>)"
proof (induction ss arbitrary: off left t w)
  case (Cons s ss)
  show ?case
  proof (cases "off \<ge> length s")
    case True
    then show ?thesis using Cons by simp
  next
    case False
    then have d: "drop off (concat (s # ss)) = drop off s @ concat ss" by simp
    show ?thesis
    proof (cases "left < length (drop off s)")
      case True
      then show ?thesis using False Cons.prems unfolding d by (simp add: file_write_all_def)
    next
      case no: False
      let ?w = "w\<lparr>written := written w @ drop off s\<rparr>"
      have "write_blocks_loop (map Some ss) 0 (left - length (drop off s)) (t + length (drop off s)) ?w =
          (Inr (t + length (drop off s) + length (take (left - length (drop off s)) (drop 0 (concat ss)))),
           ?w\<lparr>written := written ?w @ take (left - length (drop off s)) (drop 0 (concat ss))\<rparr>)"
        by (rule Cons.IH) (use Cons.prems in simp)
      then show ?thesis using no False Cons.prems unfolding d by (simp add: file_write_all_def)
    qed
  qed
qed (cases w, simp)

lemma write_data_blocks_range:
  assumes ok: "Erasure_ok c e" and ne: "b \<noteq> []" and "room w = None" "off + len \<le> length b"
  shows "write_data_blocks (lose (\<lambda>i. i < data_shards e \<or> P i) (coded_shards c e b)) (data_shards e) off len w =
    (Inr len, w\<lparr>written := written w @ take len (drop off b)\<rparr>)"
proof -
  let ?d = "data_shards e" and ?s = "coded_shards c e b"
  let ?l = "lose (\<lambda>i. i < data_shards e \<or> P i) (coded_shards c e b)"
  note s = coded_shards [OF ok ne] and d = Erasure_okD(2) [OF ok]
  have l: "take ?d ?l = map Some (data_slices ?d b)"
    unfolding s(4) [symmetric] using s(2) by (intro nth_equalityI) (simp_all add: nth_lose)
  let ?c = "concat (data_slices ?d b)"
  have tk: "take (length b) ?c = b" by (rule data_slices_props(3) [OF d ne])
  then have lc: "length b \<le> length ?c" by (metis length_take min.cobounded1)
  have "get_data_block_len ?l ?d = length ?c"
    unfolding get_data_block_len_def l by (simp add: length_concat o_def)
  moreover have "take len (drop off ?c) = take len (drop off b)"
  proof -
    have "take len (drop off (take (length b) ?c)) = take len (drop off ?c)"
      using assms(4) by (simp add: take_drop min_def)
    then show ?thesis using tk by simp
  qed
  moreover have "length (take len (drop off b)) = len" using assms(4) by simp
  ultimately show ?thesis
    using lc assms(3,4) write_blocks_loop_range [OF assms(3), of "data_slices ?d b" off len 0]
    by (simp add: write_data_blocks_def l)
qed

subsection \<open>The ranges of the blocks\<close>

text \<open>The position up to which the range is written when block j is reached.\<close>

definition position :: "nat \<Rightarrow> nat \<Rightarrow> nat \<Rightarrow> nat \<Rightarrow> nat" where
  "position bs off len j = min (off + len) (max off (j * bs))"

lemma block_bounds_position:
  assumes "0 < bs" "off div bs \<le> i" "i \<le> (off + len) div bs"
  shows "block_bounds bs off len i = (position bs off len i - i * bs, position bs off len (Suc i) - position bs off len i)"
    "i * bs \<le> position bs off len i" "position bs off len (Suc i) \<le> Suc i * bs" "position bs off len i \<le> position bs off len (Suc i)"
proof -
  define st en where "st = off div bs" and "en = (off + len) div bs"
  have o: "st * bs \<le> off" "off < Suc st * bs" "off mod bs = off - st * bs"
    using assms(1) by (simp_all add: st_def div_times_less_eq_dividend dividend_less_div_times minus_div_mult_eq_mod)
  have e: "en * bs \<le> off + len" "off + len < Suc en * bs" "(off + len) mod bs = off + len - en * bs"
    using assms(1) dividend_less_div_times [of bs "off + len"]
    by (simp_all add: en_def div_times_less_eq_dividend minus_div_mult_eq_mod)
  have i: "st \<le> i" "i \<le> en" using assms(2,3) by (simp_all add: st_def en_def)
  have ibs: "st * bs \<le> i * bs" "i * bs \<le> en * bs" using i by (intro mult_le_mono1; simp)+
  have P: "position bs off len i = max off (i * bs)"
    unfolding position_def by (rule min_absorb2, rule max.boundedI) (use ibs e(1) in linarith)+
  have Q: "position bs off len (Suc i) = min (off + len) (Suc i * bs)"
  proof -
    have "off \<le> Suc i * bs" using ibs(1) o(2) unfolding mult_Suc by linarith
    then show ?thesis by (simp only: position_def max_absorb2)
  qed
  show "i * bs \<le> position bs off len i" "position bs off len (Suc i) \<le> Suc i * bs" using P Q by simp_all
  show "position bs off len i \<le> position bs off len (Suc i)" unfolding position_def by auto
  have lo: "Suc st * bs \<le> i * bs" if "st \<noteq> i" using that i by (intro mult_le_mono1) simp
  have hi: "Suc i * bs \<le> en * bs" if "i \<noteq> en" using that i by (intro mult_le_mono1) simp
  have "block_bounds bs off len i = (max off (i * bs) - i * bs, min (off + len) (Suc i * bs) - max off (i * bs))"
    using o e i lo hi unfolding block_bounds_def Let_def st_def [symmetric] en_def [symmetric]
    by (cases "st = i"; cases "i = en") (auto simp: min_def max_def)
  then show "block_bounds bs off len i = (position bs off len i - i * bs, position bs off len (Suc i) - position bs off len i)"
    by (simp only: P Q)
qed

lemma nth_blocks:
  "0 < n \<Longrightarrow> i * n < length xs \<Longrightarrow> i < length (blocks n xs) \<and> blocks n xs ! i = take n (drop (i * n) xs)"
proof (induction i arbitrary: xs)
  case 0
  then show ?case by (auto simp: blocks_step)
next
  case (Suc i)
  then have "blocks n xs = take n xs # blocks n (drop n xs)" by (intro blocks_step) auto
  moreover have "i * n < length (drop n xs)" using Suc.prems by simp
  ultimately show ?case using Suc.IH [of "drop n xs"] Suc.prems(1) by (simp add: add.commute)
qed

text \<open>A range of a block is a range of the object.\<close>

lemma block_range:
  assumes "i * n \<le> p" "q \<le> Suc i * n" "p \<le> q"
  shows "take (q - p) (drop (p - i * n) (take n (drop (i * n) xs))) = take (q - p) (drop p xs)"
proof -
  have "take (q - p) (drop (p - i * n) (take n (drop (i * n) xs)))
      = take (q - p) (take (n - (p - i * n)) (drop (p - i * n) (drop (i * n) xs)))"
    by (simp only: drop_take)
  also have "drop (p - i * n) (drop (i * n) xs) = drop p xs" using assms(1) by simp
  also have "take (q - p) (take (n - (p - i * n)) (drop p xs)) = take (q - p) (drop p xs)"
    using assms by (simp add: min_def)
  finally show ?thesis .
qed

lemma extend_range:
  assumes "off \<le> p" "p \<le> q"
  shows "take (p - off) (drop off xs) @ take (q - p) (drop p xs) = take (q - off) (drop off xs)"
proof -
  have "drop p xs = drop (p - off) (drop off xs)" using assms by simp
  then show ?thesis using assms take_add [of "p - off" "q - p" "drop off xs"] by simp
qed

subsection \<open>The error a degraded read reports\<close>

definition heal_hint :: "io_error option \<Rightarrow> bool" where
  "heal_hint err \<longleftrightarrow> err = None \<or> err = Some (io_from_disk FileNotFound) \<or> err = Some (io_from_disk FileCorrupt)"

lemma note_err_hint: "heal_hint err \<Longrightarrow> heal_hint (note_err ord es err)"
  by (auto simp: note_err_def heal_hint_def DiskError_eq_plain is_Io_def split: prod.split option.split)

lemma note_err_majority:
  assumes ord: "iteration_order ord" and "length es = N" "0 < N" "2 * card {i. i < N \<and> es ! i \<noteq> None} \<le> N"
  shows "note_err ord es None = None"
proof -
  have "nil_count es = card ({..<N} - {i. i < N \<and> es ! i \<noteq> None})"
    unfolding nil_count_card assms(2) by (rule arg_cong [where f = card]) auto
  also have "\<dots> = N - card {i. i < N \<and> es ! i \<noteq> None}" by (subst card_Diff_subset) auto
  finally have nil: "nil_count es = N - card {i. i < N \<and> es ! i \<noteq> None}" .
  obtain k res where r: "reduce_errs ord es [] = (k, res)" by (cases "reduce_errs ord es []")
  show ?thesis
    using ord r
  proof (cases rule: reduce_errs_cases)
    case ok
    then show ?thesis using r by (simp add: note_err_def)
  next
    case (err e)
    then show ?thesis using nil nil_count_le [of es e] assms(2-4) by linarith
  next
    case ignored
    then show ?thesis using nil assms(3,4) by linarith
  qed
qed

subsection \<open>The block loop\<close>

lemma less_div_ceil: "0 < d \<Longrightarrow> i < div_ceil n d \<longleftrightarrow> i * d < n"
proof -
  assume d: "0 < d"
  have "i < div_ceil n d" if "i * d < n"
  proof -
    have "i * d < div_ceil n d * d" using div_ceil_bounds(1) [OF d, of n] that by linarith
    then show ?thesis by simp
  qed
  moreover have "i * d < n" if "i < div_ceil n d"
  proof -
    have "Suc i * d \<le> div_ceil n d * d" using that by (intro mult_le_mono1) simp
    then show ?thesis using div_ceil_bounds(2) [OF d, of n] by simp
  qed
  ultimately show ?thesis by blast
qed

text \<open>The blocks that a range of an object needs, from block i on, as drive k holds them.\<close>

definition needed :: "codec \<Rightarrow> Erasure \<Rightarrow> bytes \<Rightarrow> nat \<Rightarrow> nat \<Rightarrow> nat \<Rightarrow> bytes list" where
  "needed c e data till i k =
    map (\<lambda>j. coded_shards c e (blocks (block_size e) data ! j) ! k) [i..<div_ceil till (block_size e)]"

lemma needed_step:
  "i < div_ceil till (block_size e) \<Longrightarrow>
    needed c e data till i k = coded_shards c e (blocks (block_size e) data ! i) ! k # needed c e data till (Suc i) k"
  by (simp add: needed_def upt_conv_Cons)

text \<open>The reader at block i, and the state of the decoder there.\<close>

definition reader_at ::
  "codec \<Rightarrow> digests \<Rightarrow> Erasure \<Rightarrow> bytes \<Rightarrow> nat \<Rightarrow> nat \<Rightarrow> nat set \<Rightarrow> nat \<Rightarrow> nat \<Rightarrow> ParallelReader \<Rightarrow> bool" where
  "reader_at c g e data till n G m i pr \<longleftrightarrow>
    pr_data_shards pr = data_shards e \<and> read_size pr = n
    \<and> pr_offset pr < pr_shard_file_size pr \<and> 0 < pr_shard_size pr
    \<and> length (readers pr) = total_shard_count e
    \<and> reads_block g n G m (needed c e data till i) (readers pr)"

definition reading ::
  "codec \<Rightarrow> digests \<Rightarrow> Erasure \<Rightarrow> bytes \<Rightarrow> nat \<Rightarrow> nat \<Rightarrow> nat \<Rightarrow> nat set \<Rightarrow> nat \<Rightarrow> drive_file \<Rightarrow> nat \<Rightarrow> decoding \<Rightarrow> bool" where
  "reading c g e data off len n G m w0 i st \<longleftrightarrow>
    reader_at c g e data (off + len) n G m i (d_reader st)
    \<and> d_written st = position (block_size e) off len i - off
    \<and> d_out st = w0\<lparr>written := written w0 @ take (position (block_size e) off len i - off) (drop off data)\<rparr>
    \<and> heal_hint (d_err st) \<and> (2 * card ({..<m} - G) \<le> total_shard_count e \<longrightarrow> d_err st = None)"

lemma reader_at_start:
  assumes "length rs = total_shard_count e" "m \<le> total_shard_count e" "0 < shard_size e"
    and "n = read_size (ParallelReader_new rs e off total_length)"
    and "off div block_size e * shard_size e < nat (shard_file_size e (int total_length))"
    and "\<And>i. i < total_shard_count e \<Longrightarrow> i \<in> G \<Longrightarrow> serving g n (rs ! i) (needed c e data till (off div block_size e) i)"
    and "\<And>i. i < total_shard_count e \<Longrightarrow> i \<notin> G \<Longrightarrow> failing g n (rs ! i)"
  shows "reader_at c g e data till n G m (off div block_size e) (ParallelReader_new rs e off total_length)"
  using assms by (auto simp: reader_at_def reads_block_def ParallelReader_new_def)

lemma position_less:
  assumes "0 < bs" "off div bs \<le> i" "i * bs < off + len" "0 < len"
  shows "position bs off len i < position bs off len (Suc i)" "i \<le> (off + len) div bs"
proof -
  have "off div bs * bs \<le> i * bs" by (rule mult_le_mono1 [OF assms(2)])
  then have "off < Suc i * bs"
    using dividend_less_div_times [OF assms(1), of off] unfolding mult_Suc by linarith
  then show "position bs off len i < position bs off len (Suc i)"
    using assms(1,3,4) unfolding position_def by auto
  show "i \<le> (off + len) div bs" using assms(1,3) by (simp add: less_eq_div_iff_mult_less_eq)
qed

text \<open>Reading and decoding one block, and the state after it.\<close>

lemma read_block:
  assumes ok: "Erasure_ok c e" and en: "enough (data_shards e) (total_shard_count e) G m"
    and i: "i * block_size e < till" and ne: "blocks (block_size e) data ! i \<noteq> []"
    and st: "reader_at c g e data till n G m i pr"
  obtains sh es pr' where "ParallelReader_read g sc pr = Some (sh, es, pr')"
    "can_decode pr' sh"
    "decode_data c e sh =
      Inr (lose (\<lambda>k. k < data_shards e \<or> k < m \<and> k \<in> G) (coded_shards c e (blocks (block_size e) data ! i)))"
    "reader_at c g e data till n G m (Suc i) pr'"
    "sh = lose (\<lambda>k. k < m \<and> k \<in> G) (coded_shards c e (blocks (block_size e) data ! i))"
    "length es = total_shard_count e"
    "\<And>k. k < total_shard_count e \<Longrightarrow> es ! k \<noteq> None \<longleftrightarrow> k < m \<and> k \<notin> G"
proof -
  let ?d = "data_shards e" and ?N = "total_shard_count e"
  let ?s = "coded_shards c e (blocks (block_size e) data ! i)"
  note st' = st [unfolded reader_at_def]
  have ls: "length ?s = ?N" using coded_shards(2) [OF ok ne] by (simp add: total_shard_count_def)
  have len: "length ?s = length (readers pr)" using ls st' by simp
  have m: "m \<le> length (readers pr)" using en st' by (simp add: enough_def)
  have rb: "reads_block g n G m (\<lambda>k. ?s ! k # needed c e data till (Suc i) k) (readers pr)"
  proof -
    have "i < div_ceil till (block_size e)" using less_div_ceil [OF Erasure_okD(1) [OF ok]] i by simp
    then have "needed c e data till i = (\<lambda>k. ?s ! k # needed c e data till (Suc i) k)"
      using needed_step by blast
    then show ?thesis using st' by simp
  qed
  define st1 where "st1 = gathered (poll g) n (readers pr) {..<m}"
  note gat = reads_block_gathered [OF rb len m, folded st1_def]
  show thesis
  proof (rule that)
    show "ParallelReader_read g sc pr = Some (g_shards st1, g_errs st1, pr\<lparr>readers := g_readers st1\<rparr>)"
      using ParallelReader_read_suffices [of pr g m sc] reads_block_suffices [OF rb, of ?d] en st'
        Erasure_okD(2) [OF ok] by (simp add: st1_def Let_def total_shard_count_def)
    show "can_decode (pr\<lparr>readers := g_readers st1\<rparr>) (g_shards st1)"
      unfolding gat(1) by (rule can_decode_lose(1) [of ?d]) (use en ls st' in simp_all)
    have "?d \<le> length (filter (\<lambda>i. i < m \<and> i \<in> G) [0..<?N])"
      using can_decode_lose(2) [of ?d ?s G m pr] en ls st' by simp
    then show "decode_data c e (g_shards st1) = Inr (lose (\<lambda>k. k < ?d \<or> k < m \<and> k \<in> G) ?s)"
      unfolding gat(1) by (rule decode_data_lose [OF ok ne])
    show "reader_at c g e data till n G m (Suc i) (pr\<lparr>readers := g_readers st1\<rparr>)"
    proof -
      have "read_size (pr\<lparr>readers := g_readers st1\<rparr>) = read_size pr" by (simp add: read_size_def)
      moreover have "length (g_readers st1) = length (readers pr)" by (simp add: st1_def gathered_def)
      ultimately show ?thesis using gat(2) st' by (simp add: reader_at_def)
    qed
    show "g_shards st1 = lose (\<lambda>k. k < m \<and> k \<in> G) ?s" by (rule gat(1))
    show "length (g_errs st1) = ?N" using gat(3) st' by simp
    show "g_errs st1 ! k \<noteq> None \<longleftrightarrow> k < m \<and> k \<notin> G" if "k < ?N" for k using gat(4) that st' by simp
  qed
qed

lemma decode_step:
  assumes ok: "Erasure_ok c e" and ord: "iteration_order ord" and en: "enough (data_shards e) (total_shard_count e) G m"
    and range: "0 < len" "off + len \<le> length data" and w0: "room w0 = None"
    and i: "off div block_size e \<le> i" "i * block_size e < off + len"
    and st: "reading c g e data off len n G m w0 i st"
  obtains st' where "decode_loop c g ord sch e off len (i # is) st = decode_loop c g ord sch e off len is st'"
    "reading c g e data off len n G m w0 (Suc i) st'"
proof -
  let ?bs = "block_size e" and ?d = "data_shards e" and ?N = "total_shard_count e"
  let ?p = "position (block_size e) off len" and ?b = "blocks (block_size e) data ! i"
  note bs = Erasure_okD(1) [OF ok] and st' = st [unfolded reading_def]
  note less = position_less [OF bs i range(1)]
  note pos = block_bounds_position [OF bs i(1) less(2)]
  have b: "?b = take ?bs (drop (i * ?bs) data)" using nth_blocks [OF bs, of i data] i(2) range(2) by simp
  have top: "?p (Suc i) \<le> length data" using range(2) by (simp add: position_def)
  have blen: "(?p i - i * ?bs) + (?p (Suc i) - ?p i) \<le> length ?b"
    using pos(2-4) top unfolding b by simp linarith
  have ne: "?b \<noteq> []" using blen less(1) by auto
  obtain sh es pr where rd: "ParallelReader_read g (sch i) (d_reader st) = Some (sh, es, pr)" "can_decode pr sh"
    "decode_data c e sh = Inr (lose (\<lambda>k. k < ?d \<or> k < m \<and> k \<in> G) (coded_shards c e ?b))"
    "reader_at c g e data (off + len) n G m (Suc i) pr" "length es = ?N" "\<And>k. k < ?N \<Longrightarrow> es ! k \<noteq> None \<longleftrightarrow> k < m \<and> k \<notin> G"
    by (rule read_block [OF ok en i(2) ne conjunct1 [OF st'], of "sch i"]) blast
  let ?w = "(d_out st)\<lparr>written := written (d_out st) @ take (?p (Suc i) - ?p i) (drop (?p i) data)\<rparr>"
  let ?st = "st\<lparr>d_reader := pr, d_err := note_err ord es (d_err st),
    d_written := d_written st + (?p (Suc i) - ?p i), d_out := ?w\<rparr>"
  have "write_data_blocks (lose (\<lambda>k. k < ?d \<or> k < m \<and> k \<in> G) (coded_shards c e ?b)) ?d
      (?p i - i * ?bs) (?p (Suc i) - ?p i) (d_out st) = (Inr (?p (Suc i) - ?p i), ?w)"
    using write_data_blocks_range [OF ok ne _ blen, of "d_out st"] block_range [OF pos(2,3,4), of data] st' w0
    by (simp add: b)
  then have "decode_loop c g ord sch e off len (i # is) st = decode_loop c g ord sch e off len is ?st"
    using rd(1-3) less(1) by (simp add: pos(1))
  moreover have "reading c g e data off len n G m w0 (Suc i) ?st"
  proof -
    have bad: "{k. k < ?N \<and> es ! k \<noteq> None} = {..<m} - G"
      using rd(6) en by (auto simp: enough_def)
    have "0 < ?N" using Erasure_okD(2) [OF ok] by (simp add: total_shard_count_def)
    then have err: "note_err ord es (d_err st) = None" if "2 * card ({..<m} - G) \<le> ?N"
      using note_err_majority [OF ord rd(5)] bad that st' by simp
    have lo: "off \<le> ?p i" by (simp add: position_def)
    show ?thesis
      using rd(4) st' err note_err_hint extend_range [OF lo pos(4), of data] lo pos(4)
      by (auto simp: reading_def)
  qed
  ultimately show thesis using that by blast
qed

lemma decode_loop_range:
  assumes ok: "Erasure_ok c e" and ord: "iteration_order ord" and en: "enough (data_shards e) (total_shard_count e) G m"
    and range: "0 < len" "off + len \<le> length data" and w0: "room w0 = None"
    and "off div block_size e \<le> i" "i \<le> Suc ((off + len) div block_size e)"
    and "reading c g e data off len n G m w0 i st"
  shows "\<exists>st'. decode_loop c g ord sch e off len [i..<(off + len) div block_size e + 1] st = Some st'
    \<and> d_written st' = len \<and> d_out st' = w0\<lparr>written := written w0 @ take len (drop off data)\<rparr>
    \<and> heal_hint (d_err st') \<and> (2 * card ({..<m} - G) \<le> total_shard_count e \<longrightarrow> d_err st' = None)"
  using assms(7-)
proof (induction "Suc ((off + len) div block_size e) - i" arbitrary: i st)
  case 0
  let ?bs = "block_size e"
  have i: "i = Suc ((off + len) div ?bs)" using 0 by simp
  have "off + len < i * ?bs"
    unfolding i using dividend_less_div_times [OF Erasure_okD(1) [OF ok], of "off + len"] by simp
  then have "position ?bs off len i = off + len" unfolding position_def by auto
  then show ?case using 0 by (auto simp: reading_def)
next
  case (Suc k)
  let ?bs = "block_size e" and ?last = "(off + len) div block_size e"
  note bs = Erasure_okD(1) [OF ok]
  have i: "i \<le> ?last" using Suc.hyps(2) by simp
  then have l: "[i..<?last + 1] = i # [Suc i..<?last + 1]" by (simp add: upt_conv_Cons)
  show ?case
  proof (cases "i * ?bs < off + len")
    case True
    obtain st1 where st1: "decode_loop c g ord sch e off len (i # [Suc i..<?last + 1]) st =
        decode_loop c g ord sch e off len [Suc i..<?last + 1] st1"
      "reading c g e data off len n G m w0 (Suc i) st1"
      using decode_step [OF ok ord en range w0 Suc.prems(1) True Suc.prems(3)] by blast
    have "k = Suc ?last - Suc i" "off div ?bs \<le> Suc i" "Suc i \<le> Suc ?last"
      using Suc.hyps(2) Suc.prems(1) i by simp_all
    then show ?thesis using Suc.hyps(1) [OF _ _ _ st1(2)] st1(1) l by simp
  next
    case False
    have "i * ?bs \<le> ?last * ?bs" "?last * ?bs \<le> off + len"
      using i by (intro mult_le_mono1) (simp_all add: div_times_less_eq_dividend)
    then have e: "i * ?bs = off + len" using False by linarith
    then have p: "position ?bs off len i = off + len" "position ?bs off len (Suc i) = off + len"
      by (simp_all add: position_def)
    have "decode_loop c g ord sch e off len [i..<?last + 1] st = Some st"
      unfolding l using block_bounds_position(1) [OF bs Suc.prems(1) i] p by simp
    then show ?thesis using Suc.prems(3) p by (auto simp: reading_def)
  qed
qed

text \<open>The general statement: the requested range is written.\<close>

lemma decode_range:
  assumes ok: "Erasure_ok c e" and ord: "iteration_order ord" and len: "length rs = total_shard_count e"
    and range: "0 < len" "off + len \<le> length data" and w0: "room w0 = None"
    and G: "data_shards e \<le> card (G \<inter> {..<total_shard_count e})"
    and n: "n = read_size (ParallelReader_new rs e off (length data))"
    and inside: "off div block_size e * shard_size e < nat (shard_file_size e (int (length data)))"
    and good: "\<And>i. i < total_shard_count e \<Longrightarrow> i \<in> G \<Longrightarrow>
      serving g n (rs ! i) (needed c e data (off + len) (off div block_size e) i)"
    and bad: "\<And>i. i < total_shard_count e \<Longrightarrow> i \<notin> G \<Longrightarrow> failing g n (rs ! i)"
  shows "\<exists>err. Erasure_decode c g ord sch e w0 rs off len (length data) =
      Some (len, err, w0\<lparr>written := written w0 @ take len (drop off data)\<rparr>)
    \<and> heal_hint err \<and> (2 * card ({..<total_shard_count e} - G) \<le> total_shard_count e \<longrightarrow> err = None)"
proof -
  let ?bs = "block_size e" and ?N = "total_shard_count e"
  let ?pr = "ParallelReader_new rs e off (length data)"
  let ?st = "\<lparr>d_reader = ?pr, d_written = 0, d_err = None, d_out = w0\<rparr>"
  note bs = Erasure_okD(1) [OF ok] and d = Erasure_okD(2) [OF ok]
  obtain m where en: "enough (data_shards e) ?N G m" using enough_exists [OF d G] by blast
  have m: "m \<le> ?N" using en by (simp add: enough_def)
  have p: "position ?bs off len (off div ?bs) = off" using range(1) by (simp add: position_def div_times_less_eq_dividend)
  have "0 < shard_size e" unfolding shard_size_def by (rule calc_shard_size_pos [OF bs d])
  then have "reader_at c g e data (off + len) n G m (off div ?bs) ?pr"
    using reader_at_start [OF len m _ n inside] good bad by blast
  then have rd: "reading c g e data off len n G m w0 (off div ?bs) ?st"
    using p unfolding reading_def by (cases w0) (simp add: heal_hint_def)
  have "off div ?bs \<le> Suc ((off + len) div ?bs)" by (simp add: div_le_mono le_SucI)
  then obtain st' where st': "decode_loop c g ord sch e off len [off div ?bs..<(off + len) div ?bs + 1] ?st = Some st'"
    "d_written st' = len" "d_out st' = w0\<lparr>written := written w0 @ take len (drop off data)\<rparr>"
    "heal_hint (d_err st')" "2 * card ({..<m} - G) \<le> ?N \<longrightarrow> d_err st' = None"
    using decode_loop_range [OF ok ord en range w0 _ _ rd] by blast
  have "card ({..<m} - G) \<le> card ({..<?N} - G)" using m by (intro card_mono) auto
  then show ?thesis
    using st' len range by (auto simp: Erasure_decode_def total_shard_count_def Let_def)
qed

end
