(* ===== verification/ErasureSpec.thy ===== *)
theory ErasureSpec
  imports ErasureReadSpec
begin

text \<open>
  Writing and reading composed: what the writers store for an object can be read back, any
  range of it, from any drives of which at least as many are left as there are data shards.
\<close>

subsection \<open>Shard files\<close>

text \<open>The shards of an object on drive i, one per block, and the shard file.\<close>

definition drive_shards :: "codec \<Rightarrow> Erasure \<Rightarrow> bytes \<Rightarrow> nat \<Rightarrow> bytes list" where
  "drive_shards c e data i = map (\<lambda>b. coded_shards c e b ! i) (blocks (block_size e) data)"

definition shard_file :: "codec \<Rightarrow> digests \<Rightarrow> HashAlgorithm \<Rightarrow> Erasure \<Rightarrow> bytes \<Rightarrow> nat \<Rightarrow> bytes" where
  "shard_file c g a e data i = frames g a (drive_shards c e data i)"

lemma shaped_take: "shaped n bs \<Longrightarrow> shaped n (take k bs)"
  by (induction bs arbitrary: k) (auto simp: take_Cons shaped_Cons split: nat.split)

lemma shaped_drop: "shaped n bs \<Longrightarrow> shaped n (drop k bs)"
  by (induction bs arbitrary: k) (auto simp: drop_Cons shaped_Cons split: nat.split)

lemma shaped_take_length:
  "shaped n bs \<Longrightarrow> length (concat (take k bs)) = min (k * n) (length (concat bs))"
proof (induction bs arbitrary: k)
  case (Cons b bs)
  then show ?case by (cases k) (auto simp: shaped_Cons min_def)
qed simp

lemma shaped_full:
  "shaped n bs \<Longrightarrow> k < length bs \<Longrightarrow> length (concat (take k bs)) = k * n"
proof (induction bs arbitrary: k)
  case (Cons b bs)
  then show ?case by (cases k) (auto simp: shaped_Cons)
qed simp

lemma shaped_full_less: "shaped n bs \<Longrightarrow> k < length bs \<Longrightarrow> k * n < length (concat bs)"
proof (induction bs arbitrary: k)
  case (Cons b bs)
  then show ?case by (cases k) (auto simp: shaped_Cons)
qed simp

lemma shaped_single:
  "shaped n bs \<Longrightarrow> length (concat bs) < n \<Longrightarrow> bs = [] \<or> (\<exists>x. bs = [x])"
  by (induction n bs rule: shaped.induct) auto

lemma shard_file_size_0 [simp]: "shard_file_size e 0 = 0"
  by (simp add: shard_file_size_def)

text \<open>The length of the shards of an object is the one computed in advance.\<close>

lemma shard_file_size_exact:
  assumes ok: "Erasure_ok c e" and i: "i < total_shard_count e"
  shows "length (concat (drive_shards c e data i)) = nat (shard_file_size e (int (length data)))"
proof (induction data rule: length_induct)
  case (1 data)
  let ?bs = "block_size e" and ?d = "data_shards e"
  note bs = Erasure_okD(1) [OF ok]
  show ?case
  proof (cases "data = []")
    case True
    then show ?thesis by (simp add: drive_shards_def shard_file_size_def)
  next
    case False
    have len: "length (coded_shards c e (take ?bs data) ! i) = calc_shard_size (min (length data) ?bs) ?d"
      using equal_length_nth [OF coded_shards(3) [OF ok]] coded_shards(2) [OF ok] False bs i
      by (simp add: total_shard_count_def)
    have st: "drive_shards c e data i =
        coded_shards c e (take ?bs data) ! i # drive_shards c e (drop ?bs data) i"
      unfolding drive_shards_def by (simp add: blocks_step [OF bs False])
    have size: "nat (shard_file_size e (int k)) = k div ?bs * shard_size e + calc_shard_size (k mod ?bs) ?d" for k
      by (cases "k = 0") (simp_all add: shard_file_size_def Let_def del: of_nat_add of_nat_mult)
    have "length (drop ?bs data) < length data" using False bs by simp
    then have IH: "length (concat (drive_shards c e (drop ?bs data) i)) =
        (length data - ?bs) div ?bs * shard_size e + calc_shard_size ((length data - ?bs) mod ?bs) ?d"
      using 1 unfolding size by (metis length_drop)
    show ?thesis
    proof (cases "length data < ?bs")
      case True
      then show ?thesis unfolding st size using IH len by simp
    next
      case ge: False
      then have "length data div ?bs = Suc ((length data - ?bs) div ?bs)" "length data mod ?bs = (length data - ?bs) mod ?bs"
        using bs by (simp_all add: le_div_geq le_mod_geq)
      moreover have "length (coded_shards c e (take ?bs data) ! i) = shard_size e"
        using len ge by (simp add: shard_size_def min_def)
      ultimately show ?thesis unfolding st size using IH by simp
    qed
  qed
qed

lemma shaped_drive_shards:
  "Erasure_ok c e \<Longrightarrow> i < total_shard_count e \<Longrightarrow> shaped (shard_size e) (drive_shards c e data i)"
  unfolding drive_shards_def by (intro shaped_shards shaped_blocks Erasure_okD)

lemma length_drive_shards:
  assumes "0 < block_size e"
  shows "length (drive_shards c e data i) = div_ceil (length data) (block_size e)"
  using shaped_count [OF assms shaped_blocks [OF assms], of data] by (simp add: drive_shards_def concat_blocks [OF assms])

text \<open>The blocks needed for a range, as a part of the shards of a drive.\<close>

lemma needed_drive_shards:
  assumes "0 < block_size e" "till \<le> length data" "k \<le> div_ceil till (block_size e)" "i < total_shard_count e"
  shows "needed c e data till k i = drop k (take (div_ceil till (block_size e)) (drive_shards c e data i))"
proof -
  have le: "div_ceil till (block_size e) \<le> div_ceil (length data) (block_size e)" by (rule div_ceil_mono [OF assms(1,2)])
  have "length (blocks (block_size e) data) = div_ceil (length data) (block_size e)"
    using length_drive_shards [OF assms(1), of c data i] by (simp add: drive_shards_def)
  then show ?thesis
    using le by (intro nth_equalityI) (simp_all add: needed_def drive_shards_def)
qed

subsection \<open>Opening the readers\<close>

text \<open>A drive that holds a file: it streams the bytes asked for.\<close>

definition stream_file :: "bytes \<Rightarrow> stream_call" where
  "stream_file data bucket path off n = Inr \<lparr>content = take n (drop off data), stop = None\<rparr>"

lemma div_ceil_mult [simp]: "0 < n \<Longrightarrow> div_ceil (k * n) n = k"
  by (simp add: div_ceil_def)

lemma frames_split: "frames g a bs = frames g a (take k bs) @ frames g a (drop k bs)"
  using frames_simps(3) [of g a "take k bs" "drop k bs"] by simp

text \<open>The lengths with checksums that the reader computes are lengths of whole frames.\<close>

lemma frames_take_length:
  assumes "digests_ok g" "0 < n" "shaped n bs"
  shows "length (frames g a (take k bs)) =
    div_ceil (min (k * n) (length (concat bs))) n * hash_size a + min (k * n) (length (concat bs))"
  using shaped_count [OF assms(2) shaped_take [OF assms(3), of k]] shaped_take_length [OF assms(3), of k]
  by (simp add: frames_length [OF assms(1)])

lemma frames_skip_length:
  assumes "digests_ok g" "0 < n" "shaped n bs" "k < length bs"
  shows "length (frames g a (take k bs)) = div_ceil (k * n) n * hash_size a + k * n"
  using assms(2,4) shaped_full [OF assms(3,4)] by (simp add: frames_length [OF assms(1)])

text \<open>
  Reading a range of an object: the offset of its first block in the shard file, and the reader
  of a drive, which has the file in its metadata or on disk, or not at all.
\<close>

definition open_reader ::
  "bool \<Rightarrow> Erasure \<Rightarrow> HashAlgorithm \<Rightarrow> nat \<Rightarrow> nat \<Rightarrow> nat \<Rightarrow> bytes option \<Rightarrow> (DiskError + BitrotReader option) option" where
  "open_reader inline e a off len total_length f =
    create_bitrot_reader (if inline then f else None) (if inline then None else map_option stream_file f) [] []
      (off div block_size e * shard_size e) (shard_file_offset e off len total_length) (shard_size e) a"

lemma open_reader_content:
  assumes g: "digests_ok g" and ss: "0 < shard_size e" and sh: "shaped (shard_size e) sh"
    and sfs: "nat (shard_file_size e (int total_length)) = length (concat sh)"
    and k: "off div block_size e < length sh"
  shows "open_reader inline e a off len total_length (Some (frames g a sh)) =
    Some (Inr (Some (BitrotReader_new
      \<lparr>content = frames g a (drop (off div block_size e)
         (if inline then sh else take (Suc ((off + len) div block_size e)) sh)), stop = None\<rparr> (shard_size e) a)))"
proof -
  let ?k = "off div block_size e" and ?t = "Suc ((off + len) div block_size e)" and ?h = "hash_size a"
  let ?till = "shard_file_offset e off len total_length"
  let ?o1 = "div_ceil (?k * shard_size e) (shard_size e) * ?h + ?k * shard_size e"
  let ?l1 = "div_ceil ?till (shard_size e) * ?h + ?till"
  have "?till = min (?t * shard_size e) (length (concat sh))"
    unfolding shard_file_offset_def Let_def sfs by (simp add: min_def)
  then have l1: "?l1 = length (frames g a (take ?t sh))" using frames_take_length [OF g ss sh] by simp
  have o1: "?o1 = length (frames g a (take ?k sh))" using frames_skip_length [OF g ss sh k] by simp
  have kt: "?k \<le> ?t" by (simp add: div_le_mono le_SucI)
  then have "frames g a (take ?t sh) = frames g a (take ?k sh) @ frames g a (drop ?k (take ?t sh))"
    using frames_split [of g a "take ?t sh" ?k] by (simp add: min_def)
  then have le: "?o1 \<le> ?l1" and cut: "drop ?o1 (take ?l1 (frames g a sh)) = frames g a (drop ?k (take ?t sh))"
    using frames_split [of g a sh ?t] unfolding l1 o1 by simp_all
  show ?thesis
  proof (cases inline)
    case True
    have "drop ?o1 (frames g a sh) = frames g a (drop ?k sh)" using frames_split [of g a sh ?k] unfolding o1 by simp
    then show ?thesis using True by (simp add: open_reader_def create_bitrot_reader_def Let_def)
  next
    case False
    have "take (?l1 - ?o1) (drop ?o1 (frames g a sh)) = frames g a (drop ?k (take ?t sh))"
      using cut by (simp add: drop_take)
    then show ?thesis using False le by (simp add: open_reader_def create_bitrot_reader_def stream_file_def Let_def)
  qed
qed

lemma drop_take_append:
  assumes "k \<le> c"
  shows "drop k (take c xs) @ drop c xs = drop k xs"
proof -
  have "drop k xs = drop k (take c xs @ drop c xs)" by simp
  also have "\<dots> = drop k (take c xs) @ drop (k - length (take c xs)) (drop c xs)" by (rule drop_append)
  also have "drop (k - length (take c xs)) (drop c xs) = drop c xs"
    using assms by (cases "c \<le> length xs") (simp_all add: min_def)
  finally show ?thesis ..
qed

text \<open>The part of the shards a reader delivers is well formed for the number of bytes it is asked for.\<close>

lemma shaped_read_size:
  assumes sh: "shaped (shard_size e) sh" and sfs: "nat (shard_file_size e (int total_length)) = length (concat sh)"
    and k: "off div block_size e < length sh"
  shows "shaped (read_size (ParallelReader_new rs e off total_length)) (drop (off div block_size e) sh)"
    "read_size (ParallelReader_new rs e off total_length) \<le> shard_size e"
proof -
  let ?k = "off div block_size e" and ?n = "read_size (ParallelReader_new rs e off total_length)"
  have "length (concat sh) = length (concat (take ?k sh)) + length (concat (drop ?k sh))"
    by (metis append_take_drop_id concat_append length_append)
  then have rest: "length (concat sh) = ?k * shard_size e + length (concat (drop ?k sh))"
    using shaped_full [OF sh k] by simp
  have n: "?n = min (shard_size e) (length (concat (drop ?k sh)))"
    unfolding read_size_def ParallelReader_new_def using sfs rest by (simp add: min_def)
  then show "?n \<le> shard_size e" by simp
  note d = shaped_drop [OF sh, of ?k]
  show "shaped ?n (drop ?k sh)"
  proof (cases "length (concat (drop ?k sh)) < shard_size e")
    case True
    then obtain x where "drop ?k sh = [x]" using shaped_single [OF d] k by auto
    then show ?thesis using d n by simp
  next
    case False
    then show ?thesis using d n by (simp add: min_def)
  qed
qed

lemma open_reader_serves:
  assumes ok: "Erasure_ok c e" and g: "digests_ok g" and i: "i < total_shard_count e"
    and range: "0 < len" "off + len \<le> length data"
  obtains r where "open_reader inline e a off len (length data) (Some (shard_file c g a e data i)) = Some (Inr (Some r))"
    "serving g (read_size (ParallelReader_new rs e off (length data))) (Some r)
       (needed c e data (off + len) (off div block_size e) i)"
proof -
  let ?bs = "block_size e" and ?ss = "shard_size e" and ?sh = "drive_shards c e data i"
  let ?k = "off div block_size e" and ?t = "Suc ((off + len) div block_size e)"
  let ?cnt = "div_ceil (off + len) (block_size e)" and ?n = "read_size (ParallelReader_new rs e off (length data))"
  note bs = Erasure_okD(1) [OF ok] and d = Erasure_okD(2) [OF ok]
  have ss: "0 < ?ss" unfolding shard_size_def by (rule calc_shard_size_pos [OF bs d])
  note sh = shaped_drive_shards [OF ok i, of data]
  have sfs: "nat (shard_file_size e (int (length data))) = length (concat ?sh)"
    using shard_file_size_exact [OF ok i] by simp
  have kc: "?k < ?cnt" using range(1)
    by (simp add: less_div_ceil [OF bs] le_less_trans [OF div_times_less_eq_dividend])
  have cl: "?cnt \<le> length ?sh" unfolding length_drive_shards [OF bs] by (rule div_ceil_mono [OF bs range(2)])
  have ct: "?cnt \<le> ?t" by (simp add: div_ceil_def)
  have k: "?k < length ?sh" using kc cl by simp
  define part where "part = (if inline then ?sh else take ?t ?sh)"
  have part: "drop ?k (take ?cnt ?sh) @ drop ?cnt part = drop ?k part" "shaped ?n (drop ?k part)"
  proof -
    have "take ?cnt part = take ?cnt ?sh" using ct by (simp add: part_def min_def)
    moreover have "drop ?k (take ?cnt part) @ drop ?cnt part = drop ?k part"
      by (rule drop_take_append) (use kc in simp)
    ultimately show "drop ?k (take ?cnt ?sh) @ drop ?cnt part = drop ?k part" by simp
    show "shaped ?n (drop ?k part)"
      using shaped_read_size(1) [OF sh sfs k] shaped_take [of ?n "drop ?k ?sh" "?t - ?k"]
      by (simp add: part_def drop_take)
  qed
  let ?r = "BitrotReader_new \<lparr>content = frames g a (drop ?k part), stop = None\<rparr> ?ss a"
  have "bitrot_delivers g ?n ?r (needed c e data (off + len) ?k i @ drop ?cnt part)"
    using g part shaped_read_size(2) [OF sh sfs k] needed_drive_shards [OF bs range(2) less_imp_le [OF kc] i]
    by (simp add: bitrot_delivers_def BitrotReader_new_def)
  then have "serving g ?n (Some ?r) (needed c e data (off + len) ?k i)" by (auto simp: serving_def)
  moreover have "open_reader inline e a off len (length data) (Some (shard_file c g a e data i)) = Some (Inr (Some ?r))"
    using open_reader_content [OF g ss sh sfs k] by (simp add: shard_file_def part_def)
  ultimately show thesis using that by blast
qed

subsection \<open>Properties\<close>

lemma open_reader_lost: "open_reader inline e a off len total_length None = Some (Inr None)"
  by (simp add: open_reader_def create_bitrot_reader_def Let_def)

text \<open>Every drive that is left is opened and serves the range.\<close>

lemma readers_opened:
  assumes ok: "Erasure_ok c e" and g: "digests_ok g" and range: "0 < len" "off + len \<le> length data"
    and files: "\<And>i. i < total_shard_count e \<Longrightarrow> i \<in> G \<Longrightarrow> fs i = Some (shard_file c g a e data i)"
    and lost: "\<And>i. i < total_shard_count e \<Longrightarrow> i \<notin> G \<Longrightarrow> fs i = None"
  obtains rs where "length rs = total_shard_count e"
    "\<And>i. i < total_shard_count e \<Longrightarrow> open_reader inline e a off len (length data) (fs i) = Some (Inr (rs ! i))"
    "\<And>i. i < total_shard_count e \<Longrightarrow> i \<in> G \<Longrightarrow>
      serving g (read_size (ParallelReader_new rs e off (length data))) (rs ! i)
        (needed c e data (off + len) (off div block_size e) i)"
    "\<And>i. i < total_shard_count e \<Longrightarrow> i \<notin> G \<Longrightarrow> rs ! i = None"
proof -
  define rs where "rs = map (\<lambda>i. case open_reader inline e a off len (length data) (fs i) of
      Some (Inr r) \<Rightarrow> r | _ \<Rightarrow> None) [0..<total_shard_count e]"
  have nth: "rs ! i = r" if "i < total_shard_count e" "open_reader inline e a off len (length data) (fs i) = Some (Inr r)" for i r
    using that by (simp add: rs_def)
  show thesis
  proof (rule that [of rs])
    fix i assume i: "i < total_shard_count e"
    show "open_reader inline e a off len (length data) (fs i) = Some (Inr (rs ! i))"
      using open_reader_serves [OF ok g i range] files [OF i] lost [OF i] open_reader_lost nth [OF i] by metis
    show "serving g (read_size (ParallelReader_new rs e off (length data))) (rs ! i)
        (needed c e data (off + len) (off div block_size e) i)" if "i \<in> G"
      using open_reader_serves [OF ok g i range] files [OF i that] nth [OF i] by metis
    show "rs ! i = None" if "i \<notin> G" using lost [OF i that] open_reader_lost nth [OF i] by metis
  qed (simp add: rs_def)
qed

text \<open>
  C1: An object written with success can be read back from the writers without error: for any
  set of them of at least as many as there are data shards, with all other drives gone, opening
  the readers and decoding any range writes exactly that range, in whatever order the reads
  complete; the error reported beside it is at most a hint to heal, and none as long as no more
  than half of the drives are gone.
\<close>

theorem object_roundtrip:
  assumes ok: "Erasure_ok c e" and g: "digests_ok g" and ord: "iteration_order ord"
    and range: "0 < len" "off + len \<le> length data" and w: "room w = None"
    and put: "Erasure_encode c g ord e \<lparr>content = data, stop = None\<rparr> ws q = Some (Inr (s', t), mw)"
    and ws: "length ws = total_shard_count e"
    and fresh: "\<forall>i < length ws. \<forall>v. ws ! i = Some v \<longrightarrow> bytes_of (inner_of v) = [] \<and> algo_of v = a"
    and G: "G \<subseteq> {i. i < length ws \<and> errs mw ! i = None}" "data_shards e \<le> card G"
  shows "\<exists>rs err. length rs = length ws
    \<and> (\<forall>i < length ws. open_reader inline e a off len (length data)
         (if i \<in> G then Some (bytes_of (inner_of (the (writers mw ! i)))) else None) = Some (Inr (rs ! i)))
    \<and> Erasure_decode c g ord sch e w rs off len (length data) =
        Some (len, err, w\<lparr>written := written w @ take len (drop off data)\<rparr>)
    \<and> heal_hint err \<and> (2 * card ({..<length ws} - G) \<le> length ws \<longrightarrow> err = None)"
proof -
  let ?N = "total_shard_count e" and ?k = "off div block_size e"
  let ?fs = "\<lambda>i. if i \<in> G then Some (bytes_of (inner_of (the (writers mw ! i)))) else None"
  have ne: "data \<noteq> []" using range by auto
  note n = Erasure_okD(1) [OF ok] and st = encode_stores [OF ok g ne put]
  have files: "?fs i = Some (shard_file c g a e data i)" if "i < ?N" "i \<in> G" for i
  proof -
    have i: "i < length ws" "errs mw ! i = None" using that G(1) by auto
    obtain v0 v where v: "ws ! i = Some v0" "writers mw ! i = Some v" "bytes_of (inner_of v) =
        bytes_of (inner_of v0) @ frames g (algo_of v0) (map (\<lambda>b. coded_shards c e b ! i) (blocks (block_size e) data))"
      using st(5) [OF i] by blast
    then have "bytes_of (inner_of v) = shard_file c g a e data i"
      using fresh i(1) by (simp add: shard_file_def drive_shards_def)
    then show ?thesis using v(2) that(2) by simp
  qed
  obtain rs where rs: "length rs = ?N"
    "\<And>i. i < ?N \<Longrightarrow> open_reader inline e a off len (length data) (?fs i) = Some (Inr (rs ! i))"
    "\<And>i. i < ?N \<Longrightarrow> i \<in> G \<Longrightarrow> serving g (read_size (ParallelReader_new rs e off (length data))) (rs ! i)
        (needed c e data (off + len) ?k i)"
    "\<And>i. i < ?N \<Longrightarrow> i \<notin> G \<Longrightarrow> rs ! i = None"
    by (rule readers_opened [OF ok g range, where fs = ?fs and G = G and inline = inline])
      (use files in auto)
  have i0: "0 < ?N" using Erasure_okD(2) [OF ok] by (simp add: total_shard_count_def)
  have "?k * block_size e < length data"
    using range div_times_less_eq_dividend [of off "block_size e"] by linarith
  then have "?k < length (drive_shards c e data 0)"
    unfolding length_drive_shards [OF n] by (simp add: less_div_ceil [OF n])
  then have "?k * shard_size e < nat (shard_file_size e (int (length data)))"
    using shaped_full_less [OF shaped_drive_shards [OF ok i0]] shard_file_size_exact [OF ok i0] by metis
  moreover have "G \<inter> {..<?N} = G" using G(1) ws by auto
  ultimately show ?thesis
    using decode_range [OF ok ord rs(1) range w, of G _ g sch] rs G(2) ws by auto
qed

theorem object_roundtrip_witness:
  "\<exists>mw rs. Erasure_encode xor_codec sum_digests rev (Erasure_new 2 1 4) \<lparr>content = [1, 2, 3, 4, 5], stop = None\<rparr>
      (replicate 3 (Some (BitrotWriterWrapper_new new_inline_buffer 2 HighwayHash256))) 3 =
        Some (Inr (\<lparr>content = [], stop = None\<rparr>, 5), mw)
    \<and> open_reader True (Erasure_new 2 1 4) HighwayHash256 3 2 5 (Some (bytes_of (inner_of (the (writers mw ! 2)))))
        = Some (Inr (rs ! 2))
    \<and> Erasure_decode xor_codec sum_digests rev (\<lambda>i k. k) (Erasure_new 2 1 4)
        \<lparr>written = [], room = None, fault = early_eof\<rparr> rs 3 2 5 =
      Some (2, None, \<lparr>written = [4, 5], room = None, fault = early_eof\<rparr>)"
proof -
  let ?e = "Erasure_new 2 1 4" and ?v = "Some (BitrotWriterWrapper_new new_inline_buffer 2 HighwayHash256)"
  let ?ws = "replicate 3 ?v" and ?data = "[1, 2, 3, 4, 5] :: bytes"
  have ok: "Erasure_ok xor_codec ?e" by (rule xor_Erasure_ok) simp
  have v: "able ?e ?v"
    by (simp add: able_def BitrotWriterWrapper_new_def BitrotWriter_new_def new_inline_buffer_def
        shard_size_def calc_shard_size_def div_ceil_def Erasure_new_def)
  have len: "length ?ws = total_shard_count ?e" by (simp add: total_shard_count_def Erasure_new_def)
  have "{i. i < length ?ws \<and> able ?e (?ws ! i)} = {..<3}" using v by auto
  then have q: "3 \<le> card {i. i < length ?ws \<and> able ?e (?ws ! i)}" by simp
  obtain s' mw where put: "Erasure_encode xor_codec sum_digests rev ?e \<lparr>content = ?data, stop = None\<rparr> ?ws 3 =
      Some (Inr (s', length ?data), mw)"
    using encode_succeeds [OF ok sum_digests_ok len q] by blast
  note st = encode_stores [OF ok sum_digests_ok _ put]
  have s': "s' = \<lparr>content = [], stop = None\<rparr>"
    using put unfolding encode_is_write_blocks [OF ok] by (simp add: finish_Some)
  have "errs mw ! i = None" if "i < 3" for i
  proof -
    have "card {i. i < 3 \<and> errs mw ! i = None} = card {..<3 :: nat}"
      using st(3,4) card_mono [of "{..<3 :: nat}" "{i. i < 3 \<and> errs mw ! i = None}"] by (simp add: nil_count_card subset_eq)
    then have "{i. i < 3 \<and> errs mw ! i = None} = {..<3}" by (intro card_subset_eq) auto
    then show ?thesis using that by auto
  qed
  then have G: "{0, 2} \<subseteq> {i. i < length ?ws \<and> errs mw ! i = None}" "data_shards ?e \<le> card {0, 2 :: nat}"
    by (auto simp: Erasure_new_def)
  have fresh: "\<forall>i < length ?ws. \<forall>v. ?ws ! i = Some v \<longrightarrow> bytes_of (inner_of v) = [] \<and> algo_of v = HighwayHash256"
    by (simp add: BitrotWriterWrapper_new_def BitrotWriter_new_def new_inline_buffer_def)
  let ?w = "\<lparr>written = [], room = None, fault = early_eof\<rparr>"
  obtain rs err where rs: "\<forall>i < length ?ws. open_reader True ?e HighwayHash256 3 2 (length ?data)
        (if i \<in> {0, 2} then Some (bytes_of (inner_of (the (writers mw ! i)))) else None) = Some (Inr (rs ! i))"
    "Erasure_decode xor_codec sum_digests rev (\<lambda>i k. k) ?e ?w rs 3 2 (length ?data) =
        Some (2, err, ?w\<lparr>written := written ?w @ take 2 (drop 3 ?data)\<rparr>)"
    "2 * card ({..<length ?ws} - {0, 2}) \<le> length ?ws \<longrightarrow> err = None"
    using object_roundtrip [OF ok sum_digests_ok iteration_order_rev, of 2 3 ?data ?w ?ws 3 s' "length ?data" mw
        HighwayHash256 "{0, 2}" True "\<lambda>i k. k"] put len fresh G by auto
  have five: "length ?data = 5" by simp
  have "{..<length ?ws} - {0, 2} = {1}" by auto
  then have "err = None" using rs(3) by simp
  moreover have "open_reader True ?e HighwayHash256 3 2 5 (Some (bytes_of (inner_of (the (writers mw ! 2))))) = Some (Inr (rs ! 2))"
    using rs(1) [unfolded five, rule_format, of 2] by simp
  ultimately show ?thesis using put [unfolded five] s' rs(2) [unfolded five] by (intro exI [of _ mw] exI [of _ rs]) simp
qed

end
