(* ===== verification/ErasureFaults.thy ===== *)
theory ErasureFaults
  imports ErasureSpec
begin

text \<open>
  A drive that fails after the first block: the parallel reader turns to a drive it has not
  read so far, whose stream still stands at the first block.
\<close>

subsection \<open>An object of two blocks on two data drives and one parity drive\<close>

definition ex_erasure :: Erasure where
  "ex_erasure = Erasure_new 2 1 4"

lemma ex_chunks: "chunks_exact 2 [a, b, c, d, x, y] = [[a, b], [c, d], [x, y]]"
  by (simp add: chunks_exact_step chunks_exact.simps [of _ "[]"])

lemma ex_encode:
  "encode_data xor_codec ex_erasure [a, b, c, d] = Some (Inr [[a, b], [c, d], [a XOR c, b XOR d]])"
proof -
  have "calc_shard_size (Suc (Suc (Suc (Suc 0)))) 2 = 2" by (simp add: calc_shard_size_def div_ceil_def)
  moreover have "resize 6 [a, b, c, d] = [a, b, c, d, 0, 0]" by (simp add: resize_def numeral_2_eq_2)
  moreover have "copy_recovery 2 [[a XOR c, b XOR d]] [[a, b], [c, d], [0, 0]] = Some [[a, b], [c, d], [a XOR c, b XOR d]]"
    by (simp add: numeral_2_eq_2)
  moreover have "split_off 3 2 [a, b, c, d, a XOR c, b XOR d] = [[a, b], [c, d], [a XOR c, b XOR d]]"
    by (simp add: numeral_3_eq_3)
  ultimately show ?thesis
    by (simp add: encode_data_def ex_erasure_def Erasure_new_def total_shard_count_def RS_encode_def
        encode_with_simd_def xor_codec_def xor_bytes_def ex_chunks Let_def)
qed

lemma ex_coded:
  "coded_shards xor_codec ex_erasure [a, b, c, d] = [[a, b], [c, d], [a XOR c, b XOR d]]"
  by (simp add: coded_shards_def ex_encode)

lemma ex_ok: "Erasure_ok xor_codec ex_erasure"
  unfolding ex_erasure_def by (rule xor_Erasure_ok) simp

lemma ex_sizes: "block_size ex_erasure = 4" "data_shards ex_erasure = 2" "parity_shards ex_erasure = 1"
  "shard_size ex_erasure = 2" "shard_file_size ex_erasure 8 = 4"
  by (simp_all add: ex_erasure_def Erasure_new_def shard_size_def shard_file_size_def calc_shard_size_def div_ceil_def)

abbreviation sum_hash :: "bytes \<Rightarrow> bytes" where
  "sum_hash \<equiv> hash_encode sum_digests HighwayHash256"

definition ex_reader :: "bytes \<Rightarrow> BitrotReader option" where
  "ex_reader data = Some (BitrotReader_new \<lparr>content = data, stop = None\<rparr> 2 HighwayHash256)"

text \<open>The drives that hold their shards, and the first drive with one byte of the second block changed.\<close>

definition ex_damaged :: bytes where
  "ex_damaged = frames sum_digests HighwayHash256 [[1, 2]] @ sum_hash [5, 6] @ [5, 7]"

lemma ex_files:
  "shard_file xor_codec sum_digests HighwayHash256 ex_erasure [1, 2, 3, 4, 5, 6, 7, 8] 0 =
    frames sum_digests HighwayHash256 [[1, 2], [5, 6]]"
  "shard_file xor_codec sum_digests HighwayHash256 ex_erasure [1, 2, 3, 4, 5, 6, 7, 8] 1 =
    frames sum_digests HighwayHash256 [[3, 4], [7, 8]]"
  "shard_file xor_codec sum_digests HighwayHash256 ex_erasure [1, 2, 3, 4, 5, 6, 7, 8] 2 =
    frames sum_digests HighwayHash256 [[2, 6], [2, 14]]"
  by (simp_all add: shard_file_def drive_shards_def ex_sizes blocks_step ex_coded numeral_2_eq_2)

lemma ex_poll_frame:
  "length x = 2 \<Longrightarrow> poll sum_digests 2 (ex_reader (frame sum_digests HighwayHash256 x @ rest)) = (Inr x, ex_reader rest)"
  using BitrotReader_read_frame [OF sum_digests_ok, of 2 "BitrotReader_new \<lparr>content = frame sum_digests HighwayHash256 x @ rest, stop = None\<rparr> 2 HighwayHash256" x rest]
  by (simp add: ex_reader_def poll_def BitrotReader_new_def)

lemma ex_poll_damaged:
  "poll sum_digests 2 (ex_reader (sum_hash [5, 6] @ [5, 7])) = (Inl (Io hash_mismatch), ex_reader [])"
proof -
  have len: "length (sum_hash x) = 32" for x
    using hash_encode_length [OF sum_digests_ok, of HighwayHash256 x] by (simp add: hash_size_def)
  have "hd (sum_hash [5, 6]) = 11" "hd (sum_hash [5, 7]) = 12"
    by (simp_all add: hash_encode_def sum_digests_def u8x32_from_u64x4_def to_le_bytes_def upt_rec)
  then have "sum_hash [5, 7] \<noteq> sum_hash [5, 6]" by auto
  then show ?thesis
    by (simp add: ex_reader_def poll_def BitrotReader_new_def BitrotReader_read_def read_exact_def
        read_until_full_def len hash_size_def hash_mismatch_def disk_from_io_def)
qed

subsection \<open>Reading it with a damaged second block\<close>

lemma successes_simps:
  "successes pl n rs 0 = 0"
  "successes pl n rs (Suc m) = successes pl n rs m + (if isl (fst (pl n (rs ! m))) then 0 else 1)"
proof -
  have "{i. i < Suc m \<and> \<not> isl (fst (pl n (rs ! i)))} =
      (if isl (fst (pl n (rs ! m))) then {i. i < m \<and> \<not> isl (fst (pl n (rs ! i)))}
       else insert m {i. i < m \<and> \<not> isl (fst (pl n (rs ! i)))})"
    by (auto simp: less_Suc_eq)
  then show "successes pl n rs (Suc m) = successes pl n rs m + (if isl (fst (pl n (rs ! m))) then 0 else 1)"
    by (simp add: successes_def)
qed (simp add: successes_def)

lemma successes_num:
  "successes pl n rs (Suc 0) = (if isl (fst (pl n (rs ! 0))) then 0 else 1)"
  "successes pl n rs 2 = successes pl n rs (Suc 0) + (if isl (fst (pl n (rs ! 1))) then 0 else 1)"
  "successes pl n rs 3 = successes pl n rs 2 + (if isl (fst (pl n (rs ! 2))) then 0 else 1)"
  using successes_simps(2) [of pl n rs 0] successes_simps(2) [of pl n rs 1] successes_simps(2) [of pl n rs 2]
  by (simp_all add: successes_simps(1) numeral_2_eq_2 numeral_3_eq_3)

definition ex_parallel :: "BitrotReader option list \<Rightarrow> ParallelReader" where
  "ex_parallel rs = ParallelReader_new rs ex_erasure 0 8"

lemma ex_parallel_sel [simp]:
  "readers (ex_parallel rs) = rs" "pr_data_shards (ex_parallel rs) = 2" "read_size (ex_parallel rs) = 2"
  "pr_offset (ex_parallel rs) < pr_shard_file_size (ex_parallel rs)" "0 < pr_shard_size (ex_parallel rs)"
  "(ex_parallel rs)\<lparr>readers := rs'\<rparr> = ex_parallel rs'"
  by (simp_all add: ex_parallel_def ParallelReader_new_def read_size_def ex_sizes)

lemma ex_read_ok:
  assumes "length x = 2" "length y = 2"
  shows "ParallelReader_read sum_digests sc
      (ex_parallel [ex_reader (frame sum_digests HighwayHash256 x @ a), ex_reader (frame sum_digests HighwayHash256 y @ b), r]) =
    Some ([Some x, Some y, None], [None, None, None], ex_parallel [ex_reader a, ex_reader b, r])"
proof -
  let ?rs = "[ex_reader (frame sum_digests HighwayHash256 x @ a), ex_reader (frame sum_digests HighwayHash256 y @ b), r]"
  note p = ex_poll_frame [OF assms(1), of a] ex_poll_frame [OF assms(2), of b]
  have "suffices (poll sum_digests) 2 ?rs 2 2" by (simp add: suffices_def p successes_num)
  then show ?thesis
    using ParallelReader_read_suffices [of "ex_parallel ?rs" sum_digests 2 sc]
    by (simp add: gathered_def p upt_rec Let_def)
qed

lemma ex_read_failed:
  assumes "length y = 2" "length z = 2" "poll sum_digests 2 r0 = (Inl er, r1)"
  shows "ParallelReader_read sum_digests sc
      (ex_parallel [r0, ex_reader (frame sum_digests HighwayHash256 y @ b),
         ex_reader (frame sum_digests HighwayHash256 z @ c)]) =
    Some ([None, Some y, Some z], [Some er, None, None], ex_parallel [r1, ex_reader b, ex_reader c])"
proof -
  let ?rs = "[r0, ex_reader (frame sum_digests HighwayHash256 y @ b), ex_reader (frame sum_digests HighwayHash256 z @ c)]"
  note p = ex_poll_frame [OF assms(1), of b] ex_poll_frame [OF assms(2), of c] assms(3)
  have "suffices (poll sum_digests) 2 ?rs 2 3" using p by (simp add: suffices_def successes_num)
  then show ?thesis
    using ParallelReader_read_suffices [of "ex_parallel ?rs" sum_digests 3 sc]
    by (simp add: gathered_def p upt_rec Let_def)
qed

subsection \<open>Properties\<close>

lemma ex_decode_data:
  "decode_data xor_codec ex_erasure [Some x, Some y, None] = Inr [Some x, Some y, None]"
  "decode_data xor_codec ex_erasure [None, Some y, Some z] = Inr [Some (xor_bytes y z), Some y, Some z]"
  by (simp_all add: decode_data_def ex_erasure_def Erasure_new_def reconstruct_def reconstruct_with_simd_def
      originals_def recoveries_def present_def fill_missing_def xor_codec_def upt_rec numeral_2_eq_2)

lemma ex_note_err: "note_err (\<lambda>m. m) [None, None, None] None = None"
  "note_err (\<lambda>m. m) [Some e, None, None] None = None"
  by (simp_all add: note_err_def reduce_errs_def nil_count_def tally_def is_ignored_err_def Let_def)

definition ex_intact :: "nat \<Rightarrow> BitrotReader option" where
  "ex_intact i = ex_reader (shard_file xor_codec sum_digests HighwayHash256 ex_erasure [1, 2, 3, 4, 5, 6, 7, 8] i)"

definition ex_target :: "bytes \<Rightarrow> drive_file" where
  "ex_target out = \<lparr>written = out, room = None, fault = early_eof\<rparr>"

lemma ex_intact_frames:
  "ex_intact 1 = ex_reader (frame sum_digests HighwayHash256 [3, 4] @ frame sum_digests HighwayHash256 [7, 8])"
  "ex_intact 2 = ex_reader (frame sum_digests HighwayHash256 [2, 6] @ frame sum_digests HighwayHash256 [2, 14])"
  unfolding ex_intact_def ex_files by simp_all

lemma ex_write:
  "write_data_blocks [Some [a, b], Some [c, d], q] 2 0 4 (ex_target out) = (Inr 4, ex_target (out @ [a, b, c, d]))"
  by (simp add: write_data_blocks_def get_data_block_len_def file_write_all_def ex_target_def)

lemma ex_bounds:
  "block_bounds 4 0 8 0 = (0, 4)" "block_bounds 4 0 8 (Suc 0) = (0, 4)" "block_bounds 4 0 8 2 = (0, 0)"
  by (simp_all add: block_bounds_def)

lemma ex_xor:
  "xor_bytes [7, 8] [2, 6] = [5, 14]" "xor_bytes [3, 4] [2, 6] = [1, 2]" "xor_bytes [7, 8] [2, 14] = [5, 6]"
  by (simp_all add: xor_bytes_def)

lemmas ex_eval = Erasure_decode_def ex_sizes ex_parallel_def [symmetric] upt_rec [of 0] upt_rec [of "Suc 0"]
  upt_rec [of 2] ex_bounds can_decode_def ex_decode_data ex_xor ex_write ex_note_err Let_def


end
