(* ===== verification/ErasureHeal.thy ===== *)
theory ErasureHeal
  imports ErasureSpec
begin

text \<open>
  Healing an object, crates/ecstore/src/erasure_coding/heal.rs: the blocks are read from the
  drives that are left and their shards written to the drives that need them. A writer is
  present only for a drive to heal.
\<close>

subsection \<open>Erasure::heal\<close>

text \<open>The argument \<^verbatim>\<open>dbg\<close> is the debug text of the errors in the message.\<close>

definition not_enough_shards :: "(DiskError option list \<Rightarrow> string) \<Rightarrow> nat \<Rightarrow> nat \<Rightarrow> DiskError option list \<Rightarrow> DiskError" where
  "not_enough_shards dbg need have_n es =
    DiskError_other (''can not reconstruct data: not enough available shards (need '' @ show_nat need
      @ '', have '' @ show_nat have_n @ '') '' @ dbg es)"

fun heal_loop ::
  "codec \<Rightarrow> digests \<Rightarrow> (DiskError counts \<Rightarrow> DiskError counts) \<Rightarrow> (DiskError option list \<Rightarrow> string) \<Rightarrow> (nat \<Rightarrow> nat \<Rightarrow> nat)
    \<Rightarrow> Erasure \<Rightarrow> nat \<Rightarrow> ParallelReader \<Rightarrow> BitrotWriterWrapper option list
    \<Rightarrow> ((DiskError + unit) \<times> BitrotWriterWrapper option list) option" where
  "heal_loop c g ord dbg sch self 0 reader ws = Some (Inr (), ws)"
| "heal_loop c g ord dbg sch self (Suc k) reader ws =
    (case ParallelReader_read g (sch k) reader of
       None \<Rightarrow> None
     | Some (shards, es, reader1) \<Rightarrow>
         (let available_shards = nil_count es in
          if available_shards < data_shards self
          then Some (Inl (not_enough_shards dbg (data_shards self) available_shards es), ws)
          else
            (case (if parity_shards self > 0 then decode_data c self shards else Inr shards) of
               Inl e \<Rightarrow> Some (Inl (disk_from_io e), ws)
             | Inr shards1 \<Rightarrow>
                 (let data = map (\<lambda>s. case s of None \<Rightarrow> [] | Some b \<Rightarrow> b) shards1;
                      available_writers = length (filter (\<lambda>w. w \<noteq> None) ws);
                      quorum = max available_writers 1 in
                  case MultiWriter_write g ord data (MultiWriter_new ws quorum) of
                    None \<Rightarrow> None
                  | Some (Inl e, mw) \<Rightarrow> Some (Inl (disk_from_io e), writers mw)
                  | Some (Inr _, mw) \<Rightarrow> heal_loop c g ord dbg sch self k reader1 (writers mw)))))"

definition Erasure_heal ::
  "codec \<Rightarrow> digests \<Rightarrow> (DiskError counts \<Rightarrow> DiskError counts) \<Rightarrow> (DiskError option list \<Rightarrow> string) \<Rightarrow> (nat \<Rightarrow> nat \<Rightarrow> nat)
    \<Rightarrow> Erasure \<Rightarrow> BitrotWriterWrapper option list \<Rightarrow> BitrotReader option list \<Rightarrow> nat
    \<Rightarrow> ((DiskError + unit) \<times> BitrotWriterWrapper option list) option" where
  "Erasure_heal c g ord dbg sch self ws rs total_length =
    (if length ws \<noteq> parity_shards self + data_shards self then Some (Inl (DiskError_other ''invalid argument''), ws)
     else
       (let end_block = total_length div block_size self + (if total_length mod block_size self \<noteq> 0 then 1 else 0) in
        heal_loop c g ord dbg sch self end_block (ParallelReader_new rs self 0 total_length) ws))"

subsection \<open>Writing one block\<close>

lemma write_shard_empty: "write_shard g (Some v) None [] = (Some v, None)"
  by (simp add: write_shard_def wrapper_write_def BitrotWriter_write_def)

text \<open>What a writer holds after a shard, which may be missing.\<close>

definition appended :: "digests \<Rightarrow> bytes \<Rightarrow> BitrotWriterWrapper \<Rightarrow> BitrotWriterWrapper \<Rightarrow> bool" where
  "appended g s v v' \<longleftrightarrow> algo_of v' = algo_of v
    \<and> bytes_of (inner_of v') = bytes_of (inner_of v) @ (if s = [] then [] else frame g (algo_of v) s)"

lemma write_shard_appends:
  assumes g: "digests_ok g" and v: "able e (Some v)" and s: "length s \<le> shard_size e"
  shows "\<exists>v'. write_shard g (Some v) None s = (Some v', None) \<and> appended g s v v'
    \<and> (s = [] \<or> length s = shard_size e \<longrightarrow> able e (Some v'))"
proof (cases "s = []")
  case True
  then show ?thesis using v by (simp add: write_shard_empty appended_def)
next
  case False
  obtain v' where v': "write_shard g (Some v) None s = (Some v', None)" "length s = shard_size e \<longrightarrow> able e (Some v')"
    using write_shard_able [OF g v False s] by blast
  have "wrote g (Some v) ([] @ [s]) (Some v')" by (rule write_shard_wrote [OF g False wrote_Nil v'(1)])
  then show ?thesis using v' False by (simp add: wrote_def appended_def)
qed

lemma heal_write:
  assumes g: "digests_ok g" and ss: "length ss = length ws" "\<forall>s \<in> set ss. length s \<le> shard_size e"
    and ws: "\<forall>i < length ws. ws ! i \<noteq> None \<longrightarrow> able e (ws ! i)" "\<exists>i < length ws. ws ! i \<noteq> None"
  obtains mw where
    "MultiWriter_write g ord ss (MultiWriter_new ws (max (length (filter (\<lambda>w. w \<noteq> None) ws)) 1)) = Some (Inr (), mw)"
    "length (writers mw) = length ws"
    "\<And>i. i < length ws \<Longrightarrow> ws ! i = None \<Longrightarrow> writers mw ! i = None"
    "\<And>i v. i < length ws \<Longrightarrow> ws ! i = Some v \<Longrightarrow> \<exists>v'. writers mw ! i = Some v' \<and> appended g (ss ! i) v v'
      \<and> (ss ! i = [] \<or> length (ss ! i) = shard_size e \<longrightarrow> able e (Some v'))"
proof -
  let ?q = "max (length (filter (\<lambda>w. w \<noteq> None) ws)) 1" and ?I = "{i. i < length ws \<and> ws ! i \<noteq> None}"
  let ?mw0 = "MultiWriter_new ws ?q"
  have lens: "length (writers ?mw0) = length ss" "length (errs ?mw0) = length ss"
    using ss(1) by (simp_all add: MultiWriter_new_def)
  obtain r mw where w: "MultiWriter_write g ord ss ?mw0 = Some (r, mw)"
    using lens by (simp add: MultiWriter_write_def Let_def)
  note eqs = MultiWriter_write_eqs [OF w] and lw = length_write_shards [OF lens, of g]
  have at: "(writers mw ! i, errs mw ! i) = write_shard g (ws ! i) None (ss ! i)" if "i < length ws" for i
    using nth_write_shards [OF lens, of i g] that ss(1) eqs(2,3) lw by (auto simp: MultiWriter_new_def)
  have some: "\<exists>v'. write_shard g (ws ! i) None (ss ! i) = (Some v', None) \<and> appended g (ss ! i) v v'
      \<and> (ss ! i = [] \<or> length (ss ! i) = shard_size e \<longrightarrow> able e (Some v'))"
    if "i < length ws" "ws ! i = Some v" for i v
    using write_shard_appends [OF g, of e v "ss ! i"] ws(1) ss that by auto
  have "?I \<subseteq> {i. i < length (errs mw) \<and> errs mw ! i = None}"
    using at some eqs(3) lw ss(1) by (auto simp: prod_eq_iff) (metis option.distinct(1) prod.inject)+
  then have "card ?I \<le> nil_count (errs mw)" unfolding nil_count_card by (intro card_mono) simp_all
  moreover have "length (filter (\<lambda>w. w \<noteq> None) ws) = card ?I" by (rule length_filter_conv_card)
  moreover have "0 < card ?I" using ws(2) by (auto simp: card_gt_0_iff)
  ultimately have "r = Inr ()" using eqs(5) by (simp add: MultiWriter_new_def)
  then show thesis
  proof (intro that [of mw])
    show "writers mw ! i = None" if "i < length ws" "ws ! i = None" for i
      using at [OF that(1)] that(2) by (simp add: write_shard_def)
    show "\<exists>v'. writers mw ! i = Some v' \<and> appended g (ss ! i) v v'
      \<and> (ss ! i = [] \<or> length (ss ! i) = shard_size e \<longrightarrow> able e (Some v'))" if "i < length ws" "ws ! i = Some v" for i v
      using at [OF that(1)] some [OF that] by auto
  qed (use w eqs(2) lw ss(1) in simp_all)
qed

subsection \<open>All blocks\<close>

text \<open>
  The shards of an object that healing has for drive i: those it has read and the data shards,
  which it rebuilds. The first m drives are the ones that are read.
\<close>

definition obtained :: "Erasure \<Rightarrow> nat set \<Rightarrow> nat \<Rightarrow> nat \<Rightarrow> bool" where
  "obtained e G m i \<longleftrightarrow> i < data_shards e \<or> i < m \<and> i \<in> G"

definition healed ::
  "codec \<Rightarrow> digests \<Rightarrow> Erasure \<Rightarrow> bytes \<Rightarrow> (nat \<Rightarrow> bool) \<Rightarrow> nat \<Rightarrow> BitrotWriterWrapper option list \<Rightarrow> BitrotWriterWrapper option list \<Rightarrow> bool" where
  "healed c g e data has k ws ws' \<longleftrightarrow> length ws' = length ws \<and> (\<forall>i < length ws. case ws ! i of
      None \<Rightarrow> ws' ! i = None
    | Some v \<Rightarrow> (\<exists>v'. ws' ! i = Some v' \<and> algo_of v' = algo_of v \<and> bytes_of (inner_of v') =
        bytes_of (inner_of v) @ (if has i then frames g (algo_of v) (drop k (drive_shards c e data i)) else [])))"

lemma healed_refl:
  assumes "length (blocks (block_size e) data) \<le> k"
  shows "healed c g e data has k ws ws"
  using assms by (auto simp: healed_def drive_shards_def split: option.split)

lemma healed_step:
  assumes k: "k < length (blocks (block_size e) data)"
    and ne: "\<And>i. i < length ws \<Longrightarrow> drive_shards c e data i ! k \<noteq> []"
    and step: "length ws1 = length ws" "\<And>i. i < length ws \<Longrightarrow> ws ! i = None \<Longrightarrow> ws1 ! i = None"
      "\<And>i v. i < length ws \<Longrightarrow> ws ! i = Some v \<Longrightarrow> \<exists>v'. ws1 ! i = Some v'
        \<and> appended g (if has i then drive_shards c e data i ! k else []) v v'"
    and rest: "healed c g e data has (Suc k) ws1 ws2"
  shows "healed c g e data has k ws ws2"
  unfolding healed_def
proof (intro conjI allI impI)
  show "length ws2 = length ws" using rest step(1) by (simp add: healed_def)
  fix i assume i: "i < length ws"
  have st: "drop k (drive_shards c e data i) = drive_shards c e data i ! k # drop (Suc k) (drive_shards c e data i)"
    by (rule Cons_nth_drop_Suc [symmetric]) (use k in \<open>simp add: drive_shards_def\<close>)
  have r: "case ws1 ! i of None \<Rightarrow> ws2 ! i = None
    | Some v \<Rightarrow> \<exists>v'. ws2 ! i = Some v' \<and> algo_of v' = algo_of v \<and> bytes_of (inner_of v') =
        bytes_of (inner_of v) @ (if has i then frames g (algo_of v) (drop (Suc k) (drive_shards c e data i)) else [])"
    using rest i step(1) by (simp add: healed_def)
  show "case ws ! i of None \<Rightarrow> ws2 ! i = None
    | Some v \<Rightarrow> \<exists>v'. ws2 ! i = Some v' \<and> algo_of v' = algo_of v \<and> bytes_of (inner_of v') =
        bytes_of (inner_of v) @ (if has i then frames g (algo_of v) (drop k (drive_shards c e data i)) else [])"
  proof (cases "ws ! i")
    case None
    then show ?thesis using r step(2) [OF i] by simp
  next
    case (Some v)
    obtain v1 where "ws1 ! i = Some v1" "appended g (if has i then drive_shards c e data i ! k else []) v v1"
      using step(3) [OF i Some] by blast
    then show ?thesis using r Some ne [OF i] by (cases "has i") (auto simp: appended_def st frames_simps)
  qed
qed

text \<open>A shard is not empty, fits a writer, and fills it unless it is the last one.\<close>

lemma drive_shard_lengths:
  assumes "Erasure_ok c e" "i < total_shard_count e" "k < length (blocks (block_size e) data)"
  shows "drive_shards c e data i ! k \<noteq> []" "length (drive_shards c e data i ! k) \<le> shard_size e"
    "Suc k < length (blocks (block_size e) data) \<Longrightarrow> length (drive_shards c e data i ! k) = shard_size e"
proof -
  let ?sh = "drive_shards c e data i"
  have len: "length ?sh = length (blocks (block_size e) data)" by (simp add: drive_shards_def)
  have "shaped (shard_size e) (?sh ! k # drop (Suc k) ?sh)"
    using shaped_drop [OF shaped_drive_shards [OF assms(1,2), of data], of k] Cons_nth_drop_Suc [of k ?sh] assms(3) len by simp
  then have s: "0 < length (?sh ! k)" "length (?sh ! k) \<le> shard_size e"
    "drop (Suc k) ?sh = [] \<or> length (?sh ! k) = shard_size e" by (simp_all add: shaped_Cons)
  then show "?sh ! k \<noteq> []" "length (?sh ! k) \<le> shard_size e" by auto
  show "length (?sh ! k) = shard_size e" if "Suc k < length (blocks (block_size e) data)" using s(3) that len by auto
qed

definition shard_data :: "Erasure \<Rightarrow> nat set \<Rightarrow> nat \<Rightarrow> bytes list \<Rightarrow> bytes list" where
  "shard_data e G m s = map (\<lambda>i. if obtained e G m i then s ! i else []) [0..<length s]"

text \<open>Reading one block and rebuilding its data shards.\<close>

lemma heal_read:
  assumes ok: "Erasure_ok c e" and en: "enough (data_shards e) (total_shard_count e) G m"
    and i: "i * block_size e < length data" and ne: "blocks (block_size e) data ! i \<noteq> []"
    and pr: "reader_at c g e data (length data) n G m i pr"
  obtains sh es pr' sh1 where "ParallelReader_read g sc pr = Some (sh, es, pr')"
    "data_shards e \<le> nil_count es"
    "(if parity_shards e > 0 then decode_data c e sh else Inr sh) = Inr sh1"
    "map (\<lambda>s. case s of None \<Rightarrow> [] | Some b \<Rightarrow> b) sh1 =
      shard_data e G m (coded_shards c e (blocks (block_size e) data ! i))"
    "reader_at c g e data (length data) n G m (Suc i) pr'"
proof -
  let ?s = "coded_shards c e (blocks (block_size e) data ! i)" and ?d = "data_shards e" and ?N = "total_shard_count e"
  obtain sh es pr' where rd: "ParallelReader_read g sc pr = Some (sh, es, pr')"
    "decode_data c e sh = Inr (lose (\<lambda>k. k < ?d \<or> k < m \<and> k \<in> G) ?s)"
    "reader_at c g e data (length data) n G m (Suc i) pr'" "sh = lose (\<lambda>k. k < m \<and> k \<in> G) ?s"
    "length es = ?N" "\<And>k. k < ?N \<Longrightarrow> es ! k \<noteq> None \<longleftrightarrow> k < m \<and> k \<notin> G"
    by (rule read_block [OF ok en i ne pr, of sc]) blast
  have m: "m \<le> ?N" "card (G \<inter> {..<m}) = ?d" "?d \<le> m" using en by (simp_all add: enough_def)
  have "es ! k = None" if "k < m" "k \<in> G" for k using rd(6) [of k] that m(1) by (metis less_le_trans)
  then have "G \<inter> {..<m} \<subseteq> {k. k < length es \<and> es ! k = None}" using rd(5) m(1) by auto
  then have "?d \<le> nil_count es"
    unfolding nil_count_card m(2) [symmetric] by (intro card_mono) simp_all
  moreover have "(if parity_shards e > 0 then decode_data c e sh else Inr sh) = Inr (lose (obtained e G m) ?s)"
  proof (cases "parity_shards e > 0")
    case True
    then show ?thesis using rd(2) by (simp add: obtained_def [abs_def])
  next
    case False
    have "m = ?d" using False m(1,3) by (simp add: total_shard_count_def)
    then have "G \<inter> {..<?d} = {..<?d}" using m(2) by (intro card_subset_eq) auto
    then have "(k < m \<and> k \<in> G) = obtained e G m k" for k using \<open>m = ?d\<close> by (auto simp: obtained_def)
    then show ?thesis using False rd(4) by simp
  qed
  moreover have "map (\<lambda>s. case s of None \<Rightarrow> [] | Some b \<Rightarrow> b) (lose (obtained e G m) ?s) = shard_data e G m ?s"
    by (simp add: lose_def shard_data_def)
  ultimately show thesis using that rd(1,3) by blast
qed

lemma heal_loop_heals:
  assumes ok: "Erasure_ok c e" and g: "digests_ok g" and en: "enough (data_shards e) (total_shard_count e) G m"
    and "i + k = length (blocks (block_size e) data)"
    and "reader_at c g e data (length data) n G m i pr"
    and "length ws = total_shard_count e" "\<exists>j < length ws. ws ! j \<noteq> None"
    and "0 < k \<longrightarrow> (\<forall>j < length ws. ws ! j \<noteq> None \<longrightarrow> able e (ws ! j))"
  shows "\<exists>ws'. heal_loop c g ord dbg sch e k pr ws = Some (Inr (), ws')
    \<and> healed c g e data (obtained e G m) i ws ws'"
  using assms(4-)
proof (induction k arbitrary: i pr ws)
  case 0
  then show ?case using healed_refl by simp
next
  case (Suc k)
  let ?bl = "blocks (block_size e) data" and ?N = "total_shard_count e"
  let ?s = "coded_shards c e (?bl ! i)"
  note bs = Erasure_okD(1) [OF ok]
  have ib: "i < length ?bl" using Suc.prems(1) by simp
  have lb: "length ?bl = div_ceil (length data) (block_size e)"
    using length_drive_shards [OF bs, of c data 0] by (simp add: drive_shards_def)
  have i: "i * block_size e < length data" using ib less_div_ceil [OF bs] lb by simp
  have ne: "?bl ! i \<noteq> []" using nth_blocks [OF bs i] i bs by auto
  have ls: "length ?s = ?N" using coded_shards(2) [OF ok ne] by (simp add: total_shard_count_def)
  have s: "?s ! j = drive_shards c e data j ! i" for j using ib by (simp add: drive_shards_def)
  obtain sh es pr' sh1 where rd: "ParallelReader_read g (sch k) pr = Some (sh, es, pr')"
    "data_shards e \<le> nil_count es" "(if parity_shards e > 0 then decode_data c e sh else Inr sh) = Inr sh1"
    "map (\<lambda>s. case s of None \<Rightarrow> [] | Some b \<Rightarrow> b) sh1 = shard_data e G m ?s"
    "reader_at c g e data (length data) n G m (Suc i) pr'"
    by (rule heal_read [OF ok en i ne Suc.prems(2), of "sch k"]) blast
  let ?ss = "shard_data e G m ?s"
  have ss: "length ?ss = length ws" "\<forall>s \<in> set ?ss. length s \<le> shard_size e"
    using ls Suc.prems(3) drive_shard_lengths(2) [OF ok _ ib] s by (auto simp: shard_data_def)
  have nth: "?ss ! j = (if obtained e G m j then drive_shards c e data j ! i else [])" if "j < length ws" for j
    using that ls Suc.prems(3) s by (simp add: shard_data_def)
  obtain mw where mw:
    "MultiWriter_write g ord ?ss (MultiWriter_new ws (max (length (filter (\<lambda>w. w \<noteq> None) ws)) 1)) = Some (Inr (), mw)"
    "length (writers mw) = length ws"
    "\<And>i. i < length ws \<Longrightarrow> ws ! i = None \<Longrightarrow> writers mw ! i = None"
    "\<And>i v. i < length ws \<Longrightarrow> ws ! i = Some v \<Longrightarrow> \<exists>v'. writers mw ! i = Some v' \<and> appended g (?ss ! i) v v'
      \<and> (?ss ! i = [] \<or> length (?ss ! i) = shard_size e \<longrightarrow> able e (Some v'))"
    by (rule heal_write [OF g ss _ Suc.prems(4)]) (use Suc.prems(5) in blast)+
  have "\<exists>j < length (writers mw). writers mw ! j \<noteq> None" using Suc.prems(4) mw(2,4) by (metis option.collapse option.distinct(1))
  moreover have "0 < k \<longrightarrow> (\<forall>j < length (writers mw). writers mw ! j \<noteq> None \<longrightarrow> able e (writers mw ! j))"
  proof (intro impI allI)
    fix j assume j: "0 < k" "j < length (writers mw)" "writers mw ! j \<noteq> None"
    then obtain v where v: "ws ! j = Some v" using mw(2,3) by (cases "ws ! j") auto
    have "?ss ! j = [] \<or> length (?ss ! j) = shard_size e"
      using j nth mw(2) drive_shard_lengths(3) [OF ok _ ib, of j] Suc.prems(1,3) by simp
    then show "able e (writers mw ! j)" using mw(2) mw(4) [OF _ v] j by auto
  qed
  ultimately obtain ws' where ws': "heal_loop c g ord dbg sch e k pr' (writers mw) = Some (Inr (), ws')"
    "healed c g e data (obtained e G m) (Suc i) (writers mw) ws'"
    using Suc.IH [OF _ rd(5)] Suc.prems(1,3) mw(2) by auto
  have "healed c g e data (obtained e G m) i ws ws'"
    by (rule healed_step [OF ib _ mw(2,3) _ ws'(2)])
      (use drive_shard_lengths(1) [OF ok _ ib] Suc.prems(3) mw(4) nth in \<open>fastforce+\<close>)
  moreover have "heal_loop c g ord dbg sch e (Suc k) pr ws = Some (Inr (), ws')"
    using rd(1-4) mw(1) ws'(1) by (simp add: Let_def)
  ultimately show ?case by blast
qed

subsection \<open>Properties\<close>

lemma shard_file_not_empty:
  assumes "Erasure_ok c e" "i < total_shard_count e" "data \<noteq> []"
  shows "shard_file c g a e data i \<noteq> []"
proof -
  have "0 < div_ceil (length data) (block_size e)"
    using assms(3) less_div_ceil [OF Erasure_okD(1) [OF assms(1)], of 0] by simp
  then have l: "0 < length (drive_shards c e data i)" by (simp add: length_drive_shards [OF Erasure_okD(1) [OF assms(1)]])
  then have "drive_shards c e data i ! 0 \<noteq> []"
    using drive_shard_lengths(1) [OF assms(1,2), of 0] by (simp add: drive_shards_def)
  then show ?thesis using l by (cases "drive_shards c e data i") (auto simp: shard_file_def frame_def)
qed

text \<open>
  C31: Healing an object whose drives outside G are lost, with at least as many left as there are
  data shards: with empty writers for the lost drives it returns without error, and the writer of
  a lost data drive then holds exactly the shard file of the object. The writer of a lost parity
  drive holds nothing, although its shard file is not empty: the parity is not rebuilt and an empty
  shard counts as written.
\<close>

theorem heal_restores_data_only:
  assumes ok: "Erasure_ok c e" and g: "digests_ok g" and ne: "data \<noteq> []"
    and G: "data_shards e \<le> card (G \<inter> {..<total_shard_count e})"
    and ws: "length ws = total_shard_count e" "\<exists>i < length ws. ws ! i \<noteq> None"
    and lost: "\<forall>i < length ws. \<forall>v. ws ! i = Some v \<longrightarrow>
      i \<notin> G \<and> able e (Some v) \<and> bytes_of (inner_of v) = [] \<and> algo_of v = a"
  shows "\<exists>rs ws'. length rs = length ws \<and> length ws' = length ws
    \<and> (\<forall>i < length ws. open_reader inline e a 0 (length data) (length data)
         (if i \<in> G then Some (shard_file c g a e data i) else None) = Some (Inr (rs ! i)))
    \<and> Erasure_heal c g ord dbg sch e ws rs (length data) = Some (Inr (), ws')
    \<and> (\<forall>i < length ws. ws ! i \<noteq> None \<longrightarrow> shard_file c g a e data i \<noteq> []
         \<and> (\<exists>v. ws' ! i = Some v
              \<and> bytes_of (inner_of v) = (if i < data_shards e then shard_file c g a e data i else [])))"
proof -
  let ?N = "total_shard_count e" and ?bs = "block_size e" and ?till = "0 + length data"
  let ?fs = "\<lambda>i. if i \<in> G then Some (shard_file c g a e data i) else None"
  note bs = Erasure_okD(1) [OF ok] and d = Erasure_okD(2) [OF ok]
  have len: "0 < length data" using ne by simp
  obtain rs where rs: "length rs = ?N"
    "\<And>i. i < ?N \<Longrightarrow> open_reader inline e a 0 (length data) (length data) (?fs i) = Some (Inr (rs ! i))"
    "\<And>i. i < ?N \<Longrightarrow> i \<in> G \<Longrightarrow> serving g (read_size (ParallelReader_new rs e 0 (length data))) (rs ! i)
        (needed c e data ?till (0 div ?bs) i)"
    "\<And>i. i < ?N \<Longrightarrow> i \<notin> G \<Longrightarrow> rs ! i = None"
    by (rule readers_opened [OF ok g len, where fs = ?fs and G = G and inline = inline and off = 0]) auto
  obtain m where en: "enough (data_shards e) ?N G m" using enough_exists [OF d G] by blast
  then have m: "m \<le> ?N" by (simp add: enough_def)
  have i0: "0 < ?N" using d by (simp add: total_shard_count_def)
  have ss: "0 < shard_size e" unfolding shard_size_def by (rule calc_shard_size_pos [OF bs d])
  have lb: "length (blocks ?bs data) = div_ceil (length data) ?bs"
    using length_drive_shards [OF bs, of c data 0] by (simp add: drive_shards_def)
  have "0 < length (drive_shards c e data 0)"
    unfolding length_drive_shards [OF bs] using less_div_ceil [OF bs, of 0] len by simp
  then have inside: "0 div ?bs * shard_size e < nat (shard_file_size e (int (length data)))"
    using shaped_full_less [OF shaped_drive_shards [OF ok i0], of 0 data] shard_file_size_exact [OF ok i0, of data] by simp
  let ?pr = "ParallelReader_new rs e 0 (length data)"
  have "reader_at c g e data ?till (read_size ?pr) G m (0 div ?bs) ?pr"
    by (rule reader_at_start [OF rs(1) m ss refl inside rs(3)]) (use rs(4) in simp_all)
  then have rd: "reader_at c g e data (length data) (read_size ?pr) G m 0 ?pr" by simp
  have able: "0 < length (blocks ?bs data) \<longrightarrow> (\<forall>j < length ws. ws ! j \<noteq> None \<longrightarrow> able e (ws ! j))" using lost by fastforce
  obtain ws' where ws': "heal_loop c g ord dbg sch e (length (blocks ?bs data)) ?pr ws = Some (Inr (), ws')"
    "healed c g e data (obtained e G m) 0 ws ws'"
    using heal_loop_heals [OF ok g en _ rd ws able, of ord dbg sch] by auto
  have "Erasure_heal c g ord dbg sch e ws rs (length data) = Some (Inr (), ws')"
    using ws'(1) ws(1) unfolding lb by (simp add: Erasure_heal_def total_shard_count_def div_ceil_def add.commute)
  moreover have "\<exists>v. ws' ! i = Some v
      \<and> bytes_of (inner_of v) = (if i < data_shards e then shard_file c g a e data i else [])"
    if i: "i < length ws" "ws ! i \<noteq> None" for i
  proof -
    obtain v where v: "ws ! i = Some v" using i(2) by blast
    then have l: "i \<notin> G" "bytes_of (inner_of v) = []" "algo_of v = a" using lost i(1) by blast+
    show ?thesis
      using ws'(2) [unfolded healed_def, THEN conjunct2, rule_format, OF i(1)] v l
      by (auto simp: obtained_def shard_file_def)
  qed
  moreover have "length ws' = length ws" using ws'(2) by (simp add: healed_def)
  ultimately show ?thesis
    using rs(1,2) ws(1) shard_file_not_empty [OF ok _ ne] by (intro exI [of _ rs] exI [of _ ws']) simp
qed

theorem heal_restores_data_only_witness:
  "(\<exists>rs ws' v. Erasure_heal xor_codec sum_digests rev (\<lambda>es. []) (\<lambda>i k. k) (Erasure_new 2 1 4)
      [None, Some (BitrotWriterWrapper_new new_inline_buffer 2 HighwayHash256), None] rs 5 = Some (Inr (), ws')
    \<and> ws' ! 1 = Some v
    \<and> bytes_of (inner_of v) = shard_file xor_codec sum_digests HighwayHash256 (Erasure_new 2 1 4) [1, 2, 3, 4, 5] 1)
  \<and> (\<exists>rs ws' v. Erasure_heal xor_codec sum_digests rev (\<lambda>es. []) (\<lambda>i k. k) (Erasure_new 2 1 4)
      [None, None, Some (BitrotWriterWrapper_new new_inline_buffer 2 HighwayHash256)] rs 5 = Some (Inr (), ws')
    \<and> ws' ! 2 = Some v \<and> bytes_of (inner_of v) = []
    \<and> shard_file xor_codec sum_digests HighwayHash256 (Erasure_new 2 1 4) [1, 2, 3, 4, 5] 2 \<noteq> [])"
proof -
  let ?e = "Erasure_new 2 1 4" and ?v = "BitrotWriterWrapper_new new_inline_buffer 2 HighwayHash256"
  let ?data = "[1, 2, 3, 4, 5] :: bytes" and ?file = "shard_file xor_codec sum_digests HighwayHash256 (Erasure_new 2 1 4)"
  have ok: "Erasure_ok xor_codec ?e" by (rule xor_Erasure_ok) simp
  have v: "able ?e (Some ?v)" "bytes_of (inner_of ?v) = []" "algo_of ?v = HighwayHash256"
    by (simp_all add: able_def BitrotWriterWrapper_new_def BitrotWriter_new_def new_inline_buffer_def
        shard_size_def calc_shard_size_def div_ceil_def Erasure_new_def)
  have e: "total_shard_count ?e = 3" "data_shards ?e = 2" by (simp_all add: total_shard_count_def Erasure_new_def)
  have heal: "\<exists>rs ws' v. Erasure_heal xor_codec sum_digests rev (\<lambda>es. []) (\<lambda>i k. k) ?e ws rs (length ?data) =
      Some (Inr (), ws') \<and> ws' ! i = Some v \<and> bytes_of (inner_of v) = (if i < 2 then ?file ?data i else [])
      \<and> ?file ?data i \<noteq> []"
    if G: "G = {0, 1, 2} - {i}" and i: "i = 1 \<or> i = 2" and ws: "ws = [None, None, None][i := Some ?v]" for G i ws
  proof -
    have len: "length ws = total_shard_count ?e" "i < length ws" and some: "ws ! i = Some ?v" using i unfolding ws e by auto
    have "G \<inter> {..<3} = G" "card G = 2" using i unfolding G by auto
    then have c: "data_shards ?e \<le> card (G \<inter> {..<total_shard_count ?e})" unfolding e by simp
    have lost: "\<forall>j < length ws. \<forall>v. ws ! j = Some v \<longrightarrow>
        j \<notin> G \<and> able ?e (Some v) \<and> bytes_of (inner_of v) = [] \<and> algo_of v = HighwayHash256"
    proof (intro allI impI)
      fix j w assume j: "j < length ws" "ws ! j = Some w"
      then have "j = i" "w = ?v" unfolding ws using i by (auto simp: nth_list_update less_Suc_eq split: if_splits)
      then show "j \<notin> G \<and> able ?e (Some w) \<and> bytes_of (inner_of w) = [] \<and> algo_of w = HighwayHash256"
        unfolding G using v by blast
    qed
    have "\<exists>j < length ws. ws ! j \<noteq> None" using len(2) some by (intro exI [of _ i]) simp
    then obtain rs ws' where r: "Erasure_heal xor_codec sum_digests rev (\<lambda>es. []) (\<lambda>i k. k) ?e ws rs (length ?data) =
        Some (Inr (), ws')" "\<forall>i < length ws. ws ! i \<noteq> None \<longrightarrow> ?file ?data i \<noteq> []
         \<and> (\<exists>v. ws' ! i = Some v \<and> bytes_of (inner_of v) = (if i < data_shards ?e then ?file ?data i else []))"
      using heal_restores_data_only [OF ok sum_digests_ok _ c len(1) _ lost, of ?data True rev "\<lambda>es. []" "\<lambda>i k. k"]
      by blast
    from r(2) [rule_format, OF len(2)] some obtain v where "?file ?data i \<noteq> []" "ws' ! i = Some v"
      "bytes_of (inner_of v) = (if i < 2 then ?file ?data i else [])" unfolding e(2) by blast
    with r(1) show ?thesis by blast
  qed
  have l5: "length ?data = 5" by simp
  show ?thesis
  proof (intro conjI)
    show "\<exists>rs ws' v. Erasure_heal xor_codec sum_digests rev (\<lambda>es. []) (\<lambda>i k. k) ?e [None, Some ?v, None] rs 5 = Some (Inr (), ws')
        \<and> ws' ! 1 = Some v \<and> bytes_of (inner_of v) = ?file ?data 1"
      using heal [unfolded l5, OF refl _ refl, of 1] by simp blast
    show "\<exists>rs ws' v. Erasure_heal xor_codec sum_digests rev (\<lambda>es. []) (\<lambda>i k. k) ?e [None, None, Some ?v] rs 5 = Some (Inr (), ws')
        \<and> ws' ! 2 = Some v \<and> bytes_of (inner_of v) = [] \<and> ?file ?data 2 \<noteq> []"
      using heal [unfolded l5, OF refl _ refl, of 2] by simp
  qed
qed

end
