(* ===== verification/Replication.thy ===== *)
theory Replication
  imports Prelude "HOL-Library.Finite_Map"
begin

text \<open>
  Replication state of an object version, crates/filemeta/src/replication.rs: the status of
  each target, the state derived from all of them and the decisions which targets take part.
  A hash map is a finite map. The captures of the status expression by the regular expression
  library are the argument \<^verbatim>\<open>caps\<close>; times are nanoseconds.
\<close>

type_synonym time = int
type_synonym captures = "string \<Rightarrow> (string \<times> string) list"

definition RESERVED_METADATA_PREFIX_LOWER :: string where
  "RESERVED_METADATA_PREFIX_LOWER = ''x-rustfs-internal-''"

definition REPLICATION_RESET :: string where
  "REPLICATION_RESET = ''replication-reset''"

subsection \<open>Statuses\<close>

datatype ReplicationStatusType =
  RPending | RCompleted | RCompletedLegacy | RFailed | RReplica | REmpty

datatype VersionPurgeStatusType = VPending | VComplete | VFailed | VEmpty

fun status_as_str :: "ReplicationStatusType \<Rightarrow> string" where
  "status_as_str RPending = ''PENDING''"
| "status_as_str RCompleted = ''COMPLETED''"
| "status_as_str RCompletedLegacy = ''COMPLETE''"
| "status_as_str RFailed = ''FAILED''"
| "status_as_str RReplica = ''REPLICA''"
| "status_as_str REmpty = []"

definition status_from :: "string \<Rightarrow> ReplicationStatusType" where
  "status_from s =
    (if s = ''PENDING'' then RPending
     else if s = ''COMPLETED'' then RCompleted
     else if s = ''COMPLETE'' then RCompletedLegacy
     else if s = ''FAILED'' then RFailed
     else if s = ''REPLICA'' then RReplica
     else REmpty)"

fun status_from_purge :: "VersionPurgeStatusType \<Rightarrow> ReplicationStatusType" where
  "status_from_purge VPending = RPending"
| "status_from_purge VComplete = RCompleted"
| "status_from_purge VFailed = RFailed"
| "status_from_purge VEmpty = REmpty"

fun purge_as_str :: "VersionPurgeStatusType \<Rightarrow> string" where
  "purge_as_str VPending = ''PENDING''"
| "purge_as_str VComplete = ''COMPLETE''"
| "purge_as_str VFailed = ''FAILED''"
| "purge_as_str VEmpty = []"

definition purge_from :: "string \<Rightarrow> VersionPurgeStatusType" where
  "purge_from s =
    (if s = ''PENDING'' then VPending
     else if s = ''COMPLETE'' then VComplete
     else if s = ''FAILED'' then VFailed
     else VEmpty)"

definition purge_is_pending :: "VersionPurgeStatusType \<Rightarrow> bool" where
  "purge_is_pending s \<longleftrightarrow> s = VPending \<or> s = VFailed"

datatype ReplicationType =
  Unset | ObjectReplication | DeleteReplication | MetadataReplication | HealReplication
| ExistingObject | Resync | AllReplication

fun type_as_str :: "ReplicationType \<Rightarrow> string" where
  "type_as_str Unset = []"
| "type_as_str ObjectReplication = ''OBJECT''"
| "type_as_str DeleteReplication = ''DELETE''"
| "type_as_str MetadataReplication = ''METADATA''"
| "type_as_str HealReplication = ''HEAL''"
| "type_as_str ExistingObject = ''EXISTING_OBJECT''"
| "type_as_str Resync = ''RESYNC''"
| "type_as_str AllReplication = ''ALL''"

definition type_is_valid :: "ReplicationType \<Rightarrow> bool" where
  "type_is_valid t \<longleftrightarrow> t \<noteq> Unset"

definition is_data_replication :: "ReplicationType \<Rightarrow> bool" where
  "is_data_replication t \<longleftrightarrow> t = ObjectReplication \<or> t = DeleteReplication \<or> t = HealReplication"

definition type_from :: "string \<Rightarrow> ReplicationType" where
  "type_from s =
    (if s = ''UNSET'' then Unset
     else if s = ''OBJECT'' then ObjectReplication
     else if s = ''DELETE'' then DeleteReplication
     else if s = ''METADATA'' then MetadataReplication
     else if s = ''HEAL'' then HealReplication
     else if s = ''EXISTING_OBJECT'' then ExistingObject
     else if s = ''RESYNC'' then Resync
     else if s = ''ALL'' then AllReplication
     else Unset)"

datatype ReplicationAction = ActAll | ActMetadata | ActNone

fun action_as_str :: "ReplicationAction \<Rightarrow> string" where
  "action_as_str ActAll = ''all''"
| "action_as_str ActMetadata = ''metadata''"
| "action_as_str ActNone = ''none''"

definition action_from :: "string \<Rightarrow> ReplicationAction" where
  "action_from s =
    (if s = ''all'' then ActAll else if s = ''metadata'' then ActMetadata else ActNone)"

subsection \<open>The state over all targets\<close>

record ReplicationState =
  replica_timestamp :: "time option"
  replica_status :: ReplicationStatusType
  rs_delete_marker :: bool
  replication_timestamp :: "time option"
  replication_status_internal :: "string option"
  version_purge_status_internal :: "string option"
  replicate_decision_str :: string
  rs_targets :: "(string, ReplicationStatusType) fmap"
  purge_targets :: "(string, VersionPurgeStatusType) fmap"
  reset_statuses_map :: "(string, string) fmap"

definition ReplicationState_default :: ReplicationState where
  "ReplicationState_default =
    \<lparr>replica_timestamp = None, replica_status = REmpty, rs_delete_marker = False,
     replication_timestamp = None, replication_status_internal = None,
     version_purge_status_internal = None, replicate_decision_str = [], rs_targets = fmempty,
     purge_targets = fmempty, reset_statuses_map = fmempty\<rparr>"

definition state_equal :: "ReplicationState \<Rightarrow> ReplicationState \<Rightarrow> bool" where
  "state_equal a b \<longleftrightarrow> replica_status a = replica_status b
    \<and> replication_status_internal a = replication_status_internal b
    \<and> version_purge_status_internal a = version_purge_status_internal b"

text \<open>
  The loops over the values return on the first failed target and otherwise count the completed
  ones; all targets are completed when no value differs.
\<close>

definition get_composite_replication_status :: "(string, ReplicationStatusType) fmap \<Rightarrow> ReplicationStatusType" where
  "get_composite_replication_status targets =
    (if targets = fmempty then REmpty
     else if RFailed |\<in>| fmran targets then RFailed
     else if fmran targets = {|RCompleted|} then RCompleted
     else RPending)"

definition get_composite_version_purge_status :: "(string, VersionPurgeStatusType) fmap \<Rightarrow> VersionPurgeStatusType" where
  "get_composite_version_purge_status targets =
    (if targets = fmempty then VEmpty
     else if VFailed |\<in>| fmran targets then VFailed
     else if fmran targets = {|VComplete|} then VComplete
     else VPending)"

definition composite_replication_status :: "ReplicationState \<Rightarrow> ReplicationStatusType" where
  "composite_replication_status self =
    (case replication_status_internal self of
       Some internal \<Rightarrow>
         if status_from internal \<in> {RPending, RCompleted, RFailed, RReplica} then status_from internal
         else
           (let repl_status = get_composite_replication_status (rs_targets self) in
            if replica_timestamp self = None then repl_status
            else if repl_status = RCompleted
                \<and> (case (replica_timestamp self, replication_timestamp self) of
                     (Some a, Some b) \<Rightarrow> a > b | _ \<Rightarrow> False)
            then replica_status self
            else repl_status)
     | None \<Rightarrow> if replica_status self \<noteq> REmpty then replica_status self else REmpty)"

definition composite_version_purge_status :: "ReplicationState \<Rightarrow> VersionPurgeStatusType" where
  "composite_version_purge_status self =
    (let s = purge_from (case version_purge_status_internal self of None \<Rightarrow> [] | Some s \<Rightarrow> s) in
     if s \<noteq> VEmpty then s else get_composite_version_purge_status (purge_targets self))"

text \<open>The maps read back from the text form.\<close>

definition replication_statuses_map :: "captures \<Rightarrow> string \<Rightarrow> (string, ReplicationStatusType) fmap" where
  "replication_statuses_map caps s =
    fold (\<lambda>(arn, status) m. if arn = [] then m else fmupd arn (status_from status) m) (caps s) fmempty"

definition version_purge_statuses_map :: "captures \<Rightarrow> string \<Rightarrow> (string, VersionPurgeStatusType) fmap" where
  "version_purge_statuses_map caps s =
    fold (\<lambda>(arn, status) m. if arn = [] then m else fmupd arn (purge_from status) m) (caps s) fmempty"

subsection \<open>What the targets report\<close>

record ReplicatedTargetInfo =
  t_arn :: string
  t_size :: int
  t_duration :: nat
  t_replication_action :: ReplicationAction
  t_op_type :: ReplicationType
  t_replication_status :: ReplicationStatusType
  t_prev_replication_status :: ReplicationStatusType
  t_version_purge_status :: VersionPurgeStatusType
  t_resync_timestamp :: string
  t_replication_resynced :: bool
  t_endpoint :: string
  t_secure :: bool
  t_error :: "string option"

definition ReplicatedTargetInfo_default :: ReplicatedTargetInfo where
  "ReplicatedTargetInfo_default =
    \<lparr>t_arn = [], t_size = 0, t_duration = 0, t_replication_action = ActNone, t_op_type = Unset,
     t_replication_status = REmpty, t_prev_replication_status = REmpty, t_version_purge_status = VEmpty,
     t_resync_timestamp = [], t_replication_resynced = False, t_endpoint = [], t_secure = False, t_error = None\<rparr>"

definition target_is_empty :: "ReplicatedTargetInfo \<Rightarrow> bool" where
  "target_is_empty t \<longleftrightarrow> t_arn t = []"

definition target_state :: "ReplicationState \<Rightarrow> string \<Rightarrow> ReplicatedTargetInfo" where
  "target_state self arn = ReplicatedTargetInfo_default
    \<lparr>t_arn := arn,
     t_prev_replication_status := (case fmlookup (rs_targets self) arn of None \<Rightarrow> REmpty | Some s \<Rightarrow> s),
     t_version_purge_status := (case fmlookup (purge_targets self) arn of None \<Rightarrow> VEmpty | Some s \<Rightarrow> s),
     t_resync_timestamp := (case fmlookup (reset_statuses_map self) arn of None \<Rightarrow> [] | Some s \<Rightarrow> s)\<rparr>"

record ReplicatedInfos =
  ri_replication_timestamp :: "time option"
  ri_targets :: "ReplicatedTargetInfo list"

fun completed_size_loop :: "ReplicatedTargetInfo list \<Rightarrow> int \<Rightarrow> int" where
  "completed_size_loop [] sz = sz"
| "completed_size_loop (t # ts) sz =
    (if target_is_empty t then completed_size_loop ts sz
     else if t_replication_status t = RCompleted \<and> t_prev_replication_status t \<noteq> RCompleted
     then completed_size_loop ts (sz + t_size t)
     else completed_size_loop ts sz)"

definition completed_size :: "ReplicatedInfos \<Rightarrow> int" where
  "completed_size self = completed_size_loop (ri_targets self) 0"

definition replication_resynced :: "ReplicatedInfos \<Rightarrow> bool" where
  "replication_resynced self \<longleftrightarrow>
    list_ex (\<lambda>t. \<not> (target_is_empty t \<or> \<not> t_replication_resynced t)) (ri_targets self)"

definition infos_status_internal :: "ReplicatedInfos \<Rightarrow> string option" where
  "infos_status_internal self =
    (let result = concat (map (\<lambda>t. if target_is_empty t then []
        else t_arn t @ ''='' @ status_as_str (t_replication_status t) @ '';'') (ri_targets self))
     in if result = [] then None else Some result)"

fun infos_status_loop :: "ReplicatedTargetInfo list \<Rightarrow> nat \<Rightarrow> ReplicationStatusType + nat" where
  "infos_status_loop [] completed = Inr completed"
| "infos_status_loop (t # ts) completed =
    (case t_replication_status t of
       RFailed \<Rightarrow> Inl RFailed
     | RCompleted \<Rightarrow> infos_status_loop ts (completed + 1)
     | _ \<Rightarrow> infos_status_loop ts completed)"

definition infos_replication_status :: "ReplicatedInfos \<Rightarrow> ReplicationStatusType" where
  "infos_replication_status self =
    (if ri_targets self = [] then REmpty
     else
       (case infos_status_loop (ri_targets self) 0 of
          Inl s \<Rightarrow> s
        | Inr completed \<Rightarrow> if completed = length (ri_targets self) then RCompleted else RPending))"

fun infos_purge_loop :: "ReplicatedTargetInfo list \<Rightarrow> nat \<Rightarrow> VersionPurgeStatusType + nat" where
  "infos_purge_loop [] completed = Inr completed"
| "infos_purge_loop (t # ts) completed =
    (case t_version_purge_status t of
       VFailed \<Rightarrow> Inl VFailed
     | VComplete \<Rightarrow> infos_purge_loop ts (completed + 1)
     | _ \<Rightarrow> infos_purge_loop ts completed)"

definition infos_version_purge_status :: "ReplicatedInfos \<Rightarrow> VersionPurgeStatusType" where
  "infos_version_purge_status self =
    (if ri_targets self = [] then VEmpty
     else
       (case infos_purge_loop (ri_targets self) 0 of
          Inl s \<Rightarrow> s
        | Inr completed \<Rightarrow> if completed = length (ri_targets self) then VComplete else VPending))"

definition infos_purge_status_internal :: "ReplicatedInfos \<Rightarrow> string option" where
  "infos_purge_status_internal self =
    (let result = concat (map (\<lambda>t. if target_is_empty t \<or> t_version_purge_status t = VEmpty then []
        else t_arn t @ ''='' @ purge_as_str (t_version_purge_status t) @ '';'') (ri_targets self))
     in if result = [] then None else Some result)"

fun infos_action_loop :: "ReplicatedTargetInfo list \<Rightarrow> ReplicationAction" where
  "infos_action_loop [] = ActNone"
| "infos_action_loop (t # ts) =
    (if target_is_empty t then infos_action_loop ts
     else if t_prev_replication_status t \<noteq> RCompleted then t_replication_action t
     else infos_action_loop ts)"

definition infos_action :: "ReplicatedInfos \<Rightarrow> ReplicationAction" where
  "infos_action self = infos_action_loop (ri_targets self)"

definition target_reset_header :: "string \<Rightarrow> string" where
  "target_reset_header arn = RESERVED_METADATA_PREFIX_LOWER @ REPLICATION_RESET @ ''-'' @ arn"

definition get_replication_state :: "captures \<Rightarrow> ReplicatedInfos \<Rightarrow> ReplicationState \<Rightarrow> ReplicationState" where
  "get_replication_state caps rinfos prev_state =
    (let reset = map (\<lambda>t. (target_reset_header (t_arn t), t_resync_timestamp t))
           (filter (\<lambda>t. t_resync_timestamp t \<noteq> []) (ri_targets rinfos));
         repl_statuses = infos_status_internal rinfos;
         vpurge_statuses = infos_purge_status_internal rinfos in
     ReplicationState_default
       \<lparr>replicate_decision_str := replicate_decision_str prev_state,
        reset_statuses_map := fold (\<lambda>(k, v). fmupd k v) reset (reset_statuses_map prev_state),
        replica_timestamp := replica_timestamp prev_state,
        replica_status := replica_status prev_state,
        rs_targets := replication_statuses_map caps (case repl_statuses of None \<Rightarrow> [] | Some s \<Rightarrow> s),
        replication_status_internal := repl_statuses,
        replication_timestamp := ri_replication_timestamp rinfos,
        purge_targets := version_purge_statuses_map caps (case vpurge_statuses of None \<Rightarrow> [] | Some s \<Rightarrow> s),
        version_purge_status_internal := vpurge_statuses\<rparr>)"

subsection \<open>Facts\<close>

lemma status_text_roundtrip [simp]: "status_from (status_as_str s) = s"
  by (cases s) (simp_all add: status_from_def)

lemma purge_text_roundtrip [simp]: "purge_from (purge_as_str s) = s"
  by (cases s) (simp_all add: purge_from_def)

lemma type_text_roundtrip: "type_from (type_as_str t) = t"
  by (cases t) (simp_all add: type_from_def)

lemma action_text_roundtrip: "action_from (action_as_str t) = t"
  by (cases t) (simp_all add: action_from_def)

lemma infos_status_loop_spec:
  "infos_status_loop ts n =
    (if \<exists>t \<in> set ts. t_replication_status t = RFailed then Inl RFailed
     else Inr (n + length (filter (\<lambda>t. t_replication_status t = RCompleted) ts)))"
  by (induction ts n rule: infos_status_loop.induct) (auto split: ReplicationStatusType.split)

text \<open>The overall status: a failure wins, completion needs every target.\<close>

lemma infos_replication_status_spec:
  assumes "ri_targets r \<noteq> []"
  shows "infos_replication_status r =
    (if \<exists>t \<in> set (ri_targets r). t_replication_status t = RFailed then RFailed
     else if \<forall>t \<in> set (ri_targets r). t_replication_status t = RCompleted then RCompleted else RPending)"
proof -
  have "length (filter (\<lambda>t. t_replication_status t = RCompleted) (ri_targets r)) = length (ri_targets r)
      \<longleftrightarrow> (\<forall>t \<in> set (ri_targets r). t_replication_status t = RCompleted)"
    using length_filter_less [of _ "ri_targets r" "\<lambda>t. t_replication_status t = RCompleted"]
    by (metis (mono_tags, lifting) filter_id_conv less_irrefl)
  then show ?thesis using assms by (simp add: infos_replication_status_def infos_status_loop_spec)
qed

subsection \<open>Decisions\<close>

record ReplicateTargetDecision =
  rd_replicate :: bool
  rd_synchronous :: bool
  rd_arn :: string
  rd_id :: string

definition ReplicateTargetDecision_new :: "string \<Rightarrow> bool \<Rightarrow> bool \<Rightarrow> ReplicateTargetDecision" where
  "ReplicateTargetDecision_new arn rep sync = \<lparr>rd_replicate = rep, rd_synchronous = sync, rd_arn = arn, rd_id = []\<rparr>"

definition bool_text :: "bool \<Rightarrow> string" where
  "bool_text b = (if b then ''true'' else ''false'')"

definition target_decision_to_string :: "ReplicateTargetDecision \<Rightarrow> string" where
  "target_decision_to_string d =
    bool_text (rd_replicate d) @ '';'' @ bool_text (rd_synchronous d) @ '';'' @ rd_arn d @ '';'' @ rd_id d"

type_synonym ReplicateDecision = "(string, ReplicateTargetDecision) fmap"

definition replicate_any :: "ReplicateDecision \<Rightarrow> bool" where
  "replicate_any targets_map \<longleftrightarrow> fBex (fmran targets_map) rd_replicate"

definition is_synchronous :: "ReplicateDecision \<Rightarrow> bool" where
  "is_synchronous targets_map \<longleftrightarrow> fBex (fmran targets_map) rd_synchronous"

definition decision_set :: "ReplicateDecision \<Rightarrow> ReplicateTargetDecision \<Rightarrow> ReplicateDecision" where
  "decision_set targets_map target = fmupd (rd_arn target) target targets_map"

text \<open>
  The text of a decision, with the entries in the order \<^verbatim>\<open>es\<close> in which the map is iterated.
\<close>

definition trim_end_commas :: "string \<Rightarrow> string" where
  "trim_end_commas s = rev (dropWhile (\<lambda>c. c = CHR '','') (rev s))"

definition decision_to_string :: "(string \<times> ReplicateTargetDecision) list \<Rightarrow> string" where
  "decision_to_string es =
    trim_end_commas (concat (map (\<lambda>(key, value). key @ ''='' @ target_decision_to_string value @ '','') es))"

definition pending_status :: "ReplicateTargetDecision list \<Rightarrow> string option" where
  "pending_status vs =
    (let result = concat (map (\<lambda>t. if rd_replicate t then rd_arn t @ ''='' @ status_as_str RPending @ '';'' else []) vs)
     in if result = [] then None else Some result)"

text \<open>str::split on one character; the result has one part more than there are separators.\<close>

fun split_on :: "char \<Rightarrow> string \<Rightarrow> string list" where
  "split_on c [] = [[]]"
| "split_on c (x # xs) =
    (if x = c then [] # split_on c xs
     else (case split_on c xs of [] \<Rightarrow> [[x]] | p # ps \<Rightarrow> (x # p) # ps))"

definition trim_matches :: "char \<Rightarrow> string \<Rightarrow> string" where
  "trim_matches c s = rev (dropWhile (\<lambda>x. x = c) (rev (dropWhile (\<lambda>x. x = c) s)))"

fun parse_decision_loop :: "string list \<Rightarrow> ReplicateDecision \<Rightarrow> ReplicateDecision option" where
  "parse_decision_loop [] decision = Some decision"
| "parse_decision_loop (p # ps) decision =
    (if p = [] then parse_decision_loop ps decision
     else
       (case split_on CHR ''='' p of
          [k, v] \<Rightarrow>
            (case split_on CHR '';'' (trim_matches (CHR 0x22) v) of
               [a, b, c, d] \<Rightarrow>
                 parse_decision_loop ps
                   (fmupd k \<lparr>rd_replicate = (a = ''true''), rd_synchronous = (b = ''true''), rd_arn = c, rd_id = d\<rparr> decision)
             | _ \<Rightarrow> None)
        | _ \<Rightarrow> None))"

text \<open>None stands for the error of kind InvalidInput.\<close>

definition parse_replicate_decision :: "string \<Rightarrow> ReplicateDecision option" where
  "parse_replicate_decision s =
    (if s = [] then Some fmempty else parse_decision_loop (split_on CHR '','' s) fmempty)"

subsection \<open>The text of a decision is read back\<close>

lemma split_on_clean: "c \<notin> set a \<Longrightarrow> split_on c a = [a]"
  by (induction a) auto

lemma split_on_Cons: "c \<notin> set a \<Longrightarrow> split_on c (a @ c # b) = a # split_on c b"
  by (induction a) auto

lemma trim_matches_clean: "c \<notin> set s \<Longrightarrow> trim_matches c s = s"
proof -
  assume c: "c \<notin> set s"
  then have d: "dropWhile (\<lambda>x. x = c) s = s" by (cases s) auto
  have "dropWhile (\<lambda>x. x = c) (rev s) = rev s" using c by (cases "rev s") (auto simp: rev_eq_Cons_iff)
  then show ?thesis by (simp add: trim_matches_def d)
qed

definition plain_text :: "string \<Rightarrow> bool" where
  "plain_text s \<longleftrightarrow> set s \<inter> {CHR '','', CHR ''='', CHR '';'', CHR 0x22} = {}"

definition plain_entry :: "string \<times> ReplicateTargetDecision \<Rightarrow> bool" where
  "plain_entry e \<longleftrightarrow> plain_text (fst e) \<and> plain_text (rd_arn (snd e)) \<and> plain_text (rd_id (snd e))"

definition entry_text :: "string \<times> ReplicateTargetDecision \<Rightarrow> string" where
  "entry_text e = fst e @ ''='' @ target_decision_to_string (snd e)"

lemma target_decision_chars:
  assumes "plain_text (rd_arn d)" "plain_text (rd_id d)"
  shows "CHR '','' \<notin> set (target_decision_to_string d)" "CHR ''='' \<notin> set (target_decision_to_string d)"
    "CHR 0x22 \<notin> set (target_decision_to_string d)"
  using assms by (auto simp: target_decision_to_string_def bool_text_def plain_text_def)

lemma target_decision_split:
  assumes "plain_text (rd_arn d)" "plain_text (rd_id d)"
  shows "split_on CHR '';'' (target_decision_to_string d) =
    [bool_text (rd_replicate d), bool_text (rd_synchronous d), rd_arn d, rd_id d]"
proof -
  have "CHR '';'' \<notin> set (bool_text b)" for b by (simp add: bool_text_def)
  then show ?thesis
    using assms by (simp add: target_decision_to_string_def split_on_Cons split_on_clean plain_text_def)
qed

lemma parse_entry:
  assumes "plain_entry e"
  shows "parse_decision_loop (entry_text e # ps) m = parse_decision_loop ps (fmupd (fst e) (snd e) m)"
proof -
  have p: "plain_text (fst e)" "plain_text (rd_arn (snd e))" "plain_text (rd_id (snd e))" using assms by (simp_all add: plain_entry_def)
  note c = target_decision_chars [OF p(2,3)]
  have s: "split_on CHR ''='' (entry_text e) = [fst e, target_decision_to_string (snd e)]"
    using p(1) c(2) by (simp add: entry_text_def split_on_Cons split_on_clean plain_text_def)
  have ne: "entry_text e \<noteq> []" by (simp add: entry_text_def)
  have d: "\<lparr>rd_replicate = bool_text (rd_replicate (snd e)) = ''true'', rd_synchronous = bool_text (rd_synchronous (snd e)) = ''true'',
      rd_arn = rd_arn (snd e), rd_id = rd_id (snd e)\<rparr> = snd e"
    by (cases "snd e") (simp add: bool_text_def)
  show ?thesis
    using ne d by (simp add: s trim_matches_clean [OF c(3)] target_decision_split [OF p(2,3)])
qed

lemma parse_entries:
  "\<forall>e \<in> set es. plain_entry e \<Longrightarrow>
    parse_decision_loop (map entry_text es) m = Some (fold (\<lambda>(k, v). fmupd k v) es m)"
proof (induction es arbitrary: m)
  case (Cons e es)
  then show ?case using parse_entry [of e "map entry_text es" m] by (simp add: case_prod_beta)
qed simp

lemma entry_text_clean:
  assumes "plain_entry e"
  shows "CHR '','' \<notin> set (entry_text e)" "entry_text e \<noteq> []"
  using assms target_decision_chars(1) [of "snd e"] by (auto simp: plain_entry_def entry_text_def plain_text_def)

lemma split_entries:
  "\<forall>e \<in> set es. plain_entry e \<Longrightarrow> plain_entry e' \<Longrightarrow>
    split_on CHR '','' (concat (map (\<lambda>e. entry_text e @ '','') es) @ entry_text e') = map entry_text (es @ [e'])"
  by (induction es) (simp_all add: split_on_Cons split_on_clean entry_text_clean)

lemma decision_to_string_snoc:
  assumes "plain_entry e'"
  shows "decision_to_string (es @ [e']) = concat (map (\<lambda>e. entry_text e @ '','') es) @ entry_text e'"
proof -
  have J: "concat (map (\<lambda>(key, value). key @ ''='' @ target_decision_to_string value @ '','') es) =
      concat (map (\<lambda>e. entry_text e @ '','') es)" for es
    by (rule arg_cong [where f = concat], rule map_cong) (auto simp: entry_text_def)
  obtain t c where t: "entry_text e' = t @ [c]"
    using entry_text_clean(2) [OF assms] by (cases "entry_text e'" rule: rev_cases) auto
  then have "c \<noteq> CHR '',''" using entry_text_clean(1) [OF assms] by auto
  then show ?thesis unfolding decision_to_string_def J by (simp add: trim_end_commas_def t)
qed

lemma decision_roundtrip:
  assumes "\<forall>e \<in> set es. plain_entry e"
  shows "parse_replicate_decision (decision_to_string es) = Some (fold (\<lambda>(k, v). fmupd k v) es fmempty)"
proof (cases es rule: rev_cases)
  case Nil
  then show ?thesis by (simp add: parse_replicate_decision_def decision_to_string_def trim_end_commas_def)
next
  case (snoc es' e)
  then have p: "\<forall>e \<in> set es'. plain_entry e" "plain_entry e" using assms by auto
  have "decision_to_string es \<noteq> []"
    unfolding snoc decision_to_string_snoc [OF p(2)] using entry_text_clean(2) [OF p(2)] by simp
  moreover have "split_on CHR '','' (decision_to_string es) = map entry_text es"
    unfolding snoc decision_to_string_snoc [OF p(2)] by (rule split_entries [OF p])
  ultimately show ?thesis by (simp add: parse_replicate_decision_def parse_entries [OF assms])
qed

end
