(* ===== verification/FileInfo.thy ===== *)
theory FileInfo
  imports Replication Bitrot
begin

text \<open>
  The description of one object version, crates/filemeta/src/fileinfo.rs: its parts, its
  erasure coding and the decisions taken from it. Identifiers are 128-bit words, times are
  nanoseconds, a hash map is a finite map. The restore header is read against the clock and
  the date parser of the library, which are the record \<^verbatim>\<open>time_lib\<close>.
\<close>

type_synonym uuid = "128 word"

subsection \<open>Errors of the metadata crate\<close>

datatype Error =
    FmFileNotFound | FmFileVersionNotFound | FmVolumeNotFound | FmFileCorrupt | FmDoneForNow
  | FmMethodNotAllowed | FmUnexpected | FmIo io_error | FmRmpSerdeDecode string
  | FmRmpSerdeEncode string | FmFromUtf8 string | FmRmpDecodeValueRead string
  | FmRmpEncodeValueWrite string | FmRmpDecodeNumValueRead string | FmRmpDecodeMarkerRead string
  | FmTimeComponentRange string | FmUuidParse string

type_synonym 'a fm_result = "Error + 'a"

definition fm_from_io :: "io_error \<Rightarrow> Error" where
  "fm_from_io e = (if kind e = UnexpectedEof then FmUnexpected else FmIo e)"

definition fm_other :: "string \<Rightarrow> Error" where
  "fm_other s = fm_from_io (io_other s)"

subsection \<open>Constants\<close>

definition RESERVED_METADATA_PREFIX :: string where
  "RESERVED_METADATA_PREFIX = ''X-RustFS-Internal-''"

definition TIER_FV_ID :: string where "TIER_FV_ID = ''tier-free-versionID''"
definition TIER_FV_MARKER :: string where "TIER_FV_MARKER = ''tier-free-marker''"
definition TIER_SKIP_FV_ID :: string where "TIER_SKIP_FV_ID = ''tier-skip-fvid''"
definition RUSTFS_HEALING :: string where "RUSTFS_HEALING = ''X-Rustfs-Internal-healing''"
definition X_AMZ_RESTORE :: string where "X_AMZ_RESTORE = ''x-amz-restore''"
definition TRANSITION_COMPLETE :: string where "TRANSITION_COMPLETE = ''complete''"
definition ERASURE_ALGORITHM :: string where "ERASURE_ALGORITHM = ''rs-vandermonde''"
definition BLOCK_SIZE_V2 :: nat where "BLOCK_SIZE_V2 = 1024 * 1024"

subsection \<open>Parts and erasure information\<close>

record ObjectPartInfo =
  p_etag :: string
  p_number :: nat
  p_size :: nat
  p_actual_size :: int
  p_mod_time :: "time option"
  p_index :: "bytes option"
  p_checksums :: "(string, string) fmap option"
  p_error :: "string option"

definition ObjectPartInfo_default :: ObjectPartInfo where
  "ObjectPartInfo_default =
    \<lparr>p_etag = [], p_number = 0, p_size = 0, p_actual_size = 0, p_mod_time = None, p_index = None,
     p_checksums = None, p_error = None\<rparr>"

record ChecksumInfo =
  ci_part_number :: nat
  ci_algorithm :: HashAlgorithm
  ci_hash :: bytes

record ErasureInfo =
  ei_algorithm :: string
  data_blocks :: nat
  parity_blocks :: nat
  ei_block_size :: nat
  ei_index :: nat
  distribution :: "nat list"
  checksums :: "ChecksumInfo list"

definition ErasureInfo_default :: ErasureInfo where
  "ErasureInfo_default = \<lparr>ei_algorithm = [], data_blocks = 0, parity_blocks = 0, ei_block_size = 0,
     ei_index = 0, distribution = [], checksums = []\<rparr>"

definition get_checksum_info :: "ErasureInfo \<Rightarrow> nat \<Rightarrow> ChecksumInfo" where
  "get_checksum_info self part_number =
    (case find (\<lambda>s. ci_part_number s = part_number) (checksums self) of
       Some s \<Rightarrow> s
     | None \<Rightarrow> \<lparr>ci_part_number = 0, ci_algorithm = HighwayHash256S, ci_hash = []\<rparr>)"

definition ei_calc_shard_size :: "nat \<Rightarrow> nat \<Rightarrow> nat" where
  "ei_calc_shard_size block data = (let m = div_ceil block data + 1 in m - m mod 2)"

definition ei_shard_size :: "ErasureInfo \<Rightarrow> nat" where
  "ei_shard_size self = ei_calc_shard_size (ei_block_size self) (data_blocks self)"

definition ei_shard_file_size :: "ErasureInfo \<Rightarrow> int \<Rightarrow> int" where
  "ei_shard_file_size self total_length =
    (if total_length = 0 then 0
     else if total_length < 0 then total_length
     else
       (let len = nat total_length;
            num_shards = len div ei_block_size self;
            last_block_size = len mod ei_block_size self;
            last_shard_size = ei_calc_shard_size last_block_size (data_blocks self)
        in int (num_shards * ei_shard_size self + last_shard_size)))"

fun same_elements :: "nat list \<Rightarrow> nat list \<Rightarrow> bool" where
  "same_elements [] ys = True"
| "same_elements (x # xs) [] = False"
| "same_elements (x # xs) (y # ys) = (x = y \<and> same_elements xs ys)"

definition ErasureInfo_equals :: "ErasureInfo \<Rightarrow> ErasureInfo \<Rightarrow> bool" where
  "ErasureInfo_equals self other \<longleftrightarrow>
    ei_algorithm self = ei_algorithm other
    \<and> data_blocks self = data_blocks other
    \<and> parity_blocks self = parity_blocks other
    \<and> ei_block_size self = ei_block_size other
    \<and> length (distribution self) = length (distribution other)
    \<and> same_elements (distribution self) (distribution other)"

subsection \<open>FileInfo\<close>

record FileInfo =
  volume :: string
  fi_name :: string
  fi_version_id :: "uuid option"
  is_latest :: bool
  deleted :: bool
  transition_status :: string
  transitioned_objname :: string
  transition_tier :: string
  transition_version_id :: "uuid option"
  expire_restored :: bool
  fi_data_dir :: "uuid option"
  fi_mod_time :: "time option"
  fi_size :: int
  fi_mode :: "u32 option"
  written_by_version :: "u64 option"
  metadata :: "(string, string) fmap"
  parts :: "ObjectPartInfo list"
  erasure :: ErasureInfo
  mark_deleted :: bool
  replication_state_internal :: "ReplicationState option"
  fi_data :: "bytes option"
  num_versions :: nat
  successor_mod_time :: "time option"
  fresh :: bool
  fi_idx :: nat
  fi_checksum :: "bytes option"
  versioned :: bool

definition FileInfo_default :: FileInfo where
  "FileInfo_default =
    \<lparr>volume = [], fi_name = [], fi_version_id = None, is_latest = False, deleted = False,
     transition_status = [], transitioned_objname = [], transition_tier = [],
     transition_version_id = None, expire_restored = False, fi_data_dir = None, fi_mod_time = None,
     fi_size = 0, fi_mode = None, written_by_version = None, metadata = fmempty, parts = [],
     erasure = ErasureInfo_default, mark_deleted = False, replication_state_internal = None,
     fi_data = None, num_versions = 0, successor_mod_time = None, fresh = False, fi_idx = 0,
     fi_checksum = None, versioned = False\<rparr>"

text \<open>
  The order of the drives starts at a position given by the checksum of the name, which is the
  argument \<^verbatim>\<open>crc\<close>. Without any drive the remainder is taken by zero, a panic.
\<close>

definition fi_distribution :: "u32 \<Rightarrow> nat \<Rightarrow> nat list option" where
  "fi_distribution key_crc cardinality =
    (if cardinality = 0 then None
     else (let start = unat key_crc mod cardinality in
           Some (map (\<lambda>i. 1 + (start + i) mod cardinality) [1..<Suc cardinality])))"

definition FileInfo_new :: "(string \<Rightarrow> u32) \<Rightarrow> string \<Rightarrow> nat \<Rightarrow> nat \<Rightarrow> FileInfo option" where
  "FileInfo_new crc object data parity =
    map_option (\<lambda>indices. FileInfo_default\<lparr>erasure := ErasureInfo_default
       \<lparr>ei_algorithm := ERASURE_ALGORITHM, data_blocks := data, parity_blocks := parity,
        ei_block_size := BLOCK_SIZE_V2, distribution := indices\<rparr>\<rparr>)
      (fi_distribution (crc object) (data + parity))"

definition FileInfo_is_valid :: "FileInfo \<Rightarrow> bool" where
  "FileInfo_is_valid self \<longleftrightarrow>
    (if deleted self then True
     else (let d = data_blocks (erasure self); p = parity_blocks (erasure self) in
           d \<ge> p \<and> d > 0 \<and> ei_index (erasure self) > 0 \<and> ei_index (erasure self) \<le> d + p
           \<and> length (distribution (erasure self)) = d + p))"

definition get_etag :: "FileInfo \<Rightarrow> string option" where
  "get_etag self = fmlookup (metadata self) ''etag''"

definition write_quorum_of :: "FileInfo \<Rightarrow> nat \<Rightarrow> nat" where
  "write_quorum_of self quorum =
    (if deleted self then quorum
     else if data_blocks (erasure self) = parity_blocks (erasure self) then data_blocks (erasure self) + 1
     else data_blocks (erasure self))"

definition read_quorum_of :: "FileInfo \<Rightarrow> nat \<Rightarrow> nat" where
  "read_quorum_of self dquorum = (if deleted self then dquorum else data_blocks (erasure self))"

text \<open>The loop that replaces the part with the same number; None when there is no such part.\<close>

fun replace_part :: "ObjectPartInfo \<Rightarrow> ObjectPartInfo list \<Rightarrow> ObjectPartInfo list option" where
  "replace_part part [] = None"
| "replace_part part (p # ps) =
    (if p_number p = p_number part then Some (part # ps) else map_option ((#) p) (replace_part part ps))"

definition add_object_part ::
  "nat \<Rightarrow> string \<Rightarrow> nat \<Rightarrow> time option \<Rightarrow> int \<Rightarrow> bytes option \<Rightarrow> (string, string) fmap option \<Rightarrow> FileInfo \<Rightarrow> FileInfo" where
  "add_object_part num etag part_size mt actual_size idx sums self =
    (let part = \<lparr>p_etag = etag, p_number = num, p_size = part_size, p_actual_size = actual_size,
       p_mod_time = mt, p_index = idx, p_checksums = sums, p_error = None\<rparr> in
     case replace_part part (parts self) of
       Some ps \<Rightarrow> self\<lparr>parts := ps\<rparr>
     | None \<Rightarrow> self\<lparr>parts := sort_key p_number (parts self @ [part])\<rparr>)"

fun part_offset_loop :: "ObjectPartInfo list \<Rightarrow> nat \<Rightarrow> nat \<Rightarrow> (nat \<times> nat) fm_result" where
  "part_offset_loop [] i part_offset = Inl (fm_other ''part not found'')"
| "part_offset_loop (part # ps) i part_offset =
    (if part_offset < p_size part then Inr (i, part_offset)
     else part_offset_loop ps (i + 1) (part_offset - p_size part))"

definition to_part_offset :: "FileInfo \<Rightarrow> nat \<Rightarrow> (nat \<times> nat) fm_result" where
  "to_part_offset self offset = (if offset = 0 then Inr (0, 0) else part_offset_loop (parts self) 0 offset)"

subsection \<open>Flags in the metadata\<close>

definition reserved :: "string \<Rightarrow> string" where
  "reserved k = RESERVED_METADATA_PREFIX_LOWER @ k"

definition insert_meta :: "string \<Rightarrow> string \<Rightarrow> FileInfo \<Rightarrow> FileInfo" where
  "insert_meta k v self = self\<lparr>metadata := fmupd k v (metadata self)\<rparr>"

definition has_meta :: "string \<Rightarrow> FileInfo \<Rightarrow> bool" where
  "has_meta k self \<longleftrightarrow> fmlookup (metadata self) k \<noteq> None"

definition set_healing :: "FileInfo \<Rightarrow> FileInfo" where
  "set_healing = insert_meta RUSTFS_HEALING ''true''"

definition set_tier_free_version_id :: "string \<Rightarrow> FileInfo \<Rightarrow> FileInfo" where
  "set_tier_free_version_id vid = insert_meta (reserved TIER_FV_ID) vid"

text \<open>The index operator on the map panics for a missing key.\<close>

definition tier_free_version_id :: "FileInfo \<Rightarrow> string option" where
  "tier_free_version_id self = fmlookup (metadata self) (reserved TIER_FV_ID)"

definition set_tier_free_version :: "FileInfo \<Rightarrow> FileInfo" where
  "set_tier_free_version = insert_meta (reserved TIER_FV_MARKER) []"

definition set_skip_tier_free_version :: "FileInfo \<Rightarrow> FileInfo" where
  "set_skip_tier_free_version = insert_meta (reserved TIER_SKIP_FV_ID) []"

definition skip_tier_free_version :: "FileInfo \<Rightarrow> bool" where
  "skip_tier_free_version = has_meta (reserved TIER_SKIP_FV_ID)"

definition tier_free_version :: "FileInfo \<Rightarrow> bool" where
  "tier_free_version = has_meta (reserved TIER_FV_MARKER)"

definition set_inline_data :: "FileInfo \<Rightarrow> FileInfo" where
  "set_inline_data = insert_meta (reserved ''inline-data'') ''true''"

definition set_data_moved :: "FileInfo \<Rightarrow> FileInfo" where
  "set_data_moved = insert_meta (reserved ''data-moved'') ''true''"

definition is_compressed :: "FileInfo \<Rightarrow> bool" where
  "is_compressed = has_meta (reserved ''compression'')"

subsection \<open>The restore header\<close>

record time_lib =
  now_utc :: time
  unix_timestamp :: "time \<Rightarrow> int"
  rfc3339 :: "string \<Rightarrow> time option"

record RestoreStatus =
  is_restore_in_progress :: "bool option"
  restore_expiry_date :: "time option"

definition on_going :: "RestoreStatus \<Rightarrow> bool" where
  "on_going self = (case is_restore_in_progress self of Some b \<Rightarrow> b | None \<Rightarrow> False)"

definition restore_expiry :: "RestoreStatus \<Rightarrow> time option" where
  "restore_expiry self = (if on_going self then None else restore_expiry_date self)"

definition on_disk :: "time_lib \<Rightarrow> RestoreStatus \<Rightarrow> bool" where
  "on_disk ck self =
    (case restore_expiry self of
       Some e \<Rightarrow> unix_timestamp ck (now_utc ck) < unix_timestamp ck e
     | None \<Rightarrow> False)"

text \<open>str::splitn with two parts, and trimming of ASCII white space.\<close>

fun splitn_two :: "char \<Rightarrow> string \<Rightarrow> string list" where
  "splitn_two c [] = [[]]"
| "splitn_two c (x # xs) =
    (if x = c then [[], xs]
     else (case splitn_two c xs of p # ps \<Rightarrow> (x # p) # ps | [] \<Rightarrow> [[x]]))"

definition white_space :: "char \<Rightarrow> bool" where
  "white_space c \<longleftrightarrow> c \<in> {CHR 0x20, CHR 0x09, CHR 0x0A, CHR 0x0B, CHR 0x0C, CHR 0x0D}"

definition trim_space :: "string \<Rightarrow> string" where
  "trim_space s = rev (dropWhile white_space (rev (dropWhile white_space s)))"

definition ERR_RESTORE_HDR_MALFORMED :: string where
  "ERR_RESTORE_HDR_MALFORMED = ''x-amz-restore header malformed''"

definition quoted :: "string \<Rightarrow> string" where
  "quoted s = CHR 0x22 # s @ [CHR 0x22]"

definition parse_restore_obj_status :: "time_lib \<Rightarrow> string \<Rightarrow> RestoreStatus fm_result" where
  "parse_restore_obj_status ck restore_hdr =
    (let malformed = Inl (fm_other ERR_RESTORE_HDR_MALFORMED); tokens = splitn_two CHR '','' restore_hdr in
     case splitn_two CHR ''='' (hd tokens) of
       [k, v] \<Rightarrow>
         if trim_space k \<noteq> ''ongoing-request'' then malformed
         else if v = ''true'' \<or> v = quoted ''true'' then
           (if length tokens = 1 then Inr \<lparr>is_restore_in_progress = Some True, restore_expiry_date = None\<rparr>
            else malformed)
         else if v = ''false'' \<or> v = quoted ''false'' then
           (case tokens of
              [_, rest] \<Rightarrow>
                (case splitn_two CHR ''='' rest of
                   [ek, ev] \<Rightarrow>
                     if trim_space ek \<noteq> ''expiry-date'' then malformed
                     else
                       (case rfc3339 ck (trim_matches (CHR 0x22) ev) of
                          None \<Rightarrow> malformed
                        | Some t \<Rightarrow> Inr \<lparr>is_restore_in_progress = Some False, restore_expiry_date = Some t\<rparr>)
                 | _ \<Rightarrow> malformed)
            | _ \<Rightarrow> malformed)
         else malformed
     | _ \<Rightarrow> malformed)"

definition is_restored_object_on_disk :: "time_lib \<Rightarrow> (string, string) fmap \<Rightarrow> bool" where
  "is_restored_object_on_disk ck meta =
    (case fmlookup meta X_AMZ_RESTORE of
       Some hdr \<Rightarrow> (case parse_restore_obj_status ck hdr of Inr st \<Rightarrow> on_disk ck st | Inl _ \<Rightarrow> False)
     | None \<Rightarrow> False)"

definition is_remote :: "time_lib \<Rightarrow> FileInfo \<Rightarrow> bool" where
  "is_remote ck self =
    (if transition_status self \<noteq> TRANSITION_COMPLETE then False
     else \<not> is_restored_object_on_disk ck (metadata self))"

definition inline_data :: "time_lib \<Rightarrow> FileInfo \<Rightarrow> bool" where
  "inline_data ck self \<longleftrightarrow> has_meta (reserved ''inline-data'') self \<and> \<not> is_remote ck self"

subsection \<open>Comparison and status\<close>

definition shallow_copy :: "FileInfo \<Rightarrow> FileInfo" where
  "shallow_copy self = FileInfo_default\<lparr>volume := volume self, fi_name := fi_name self,
     fi_version_id := fi_version_id self, deleted := deleted self, erasure := erasure self\<rparr>"

definition transition_info_equals :: "FileInfo \<Rightarrow> FileInfo \<Rightarrow> bool" where
  "transition_info_equals self other \<longleftrightarrow>
    transition_status self = transition_status other
    \<and> transition_tier self = transition_tier other
    \<and> transitioned_objname self = transitioned_objname other
    \<and> transition_version_id self = transition_version_id other"

definition FileInfo_equals :: "FileInfo \<Rightarrow> FileInfo \<Rightarrow> bool" where
  "FileInfo_equals self other \<longleftrightarrow>
    is_compressed self = is_compressed other
    \<and> transition_info_equals self other
    \<and> fi_mod_time self = fi_mod_time other
    \<and> ErasureInfo_equals (erasure self) (erasure other)"

definition metadata_equals :: "FileInfo \<Rightarrow> FileInfo \<Rightarrow> bool" where
  "metadata_equals self other \<longleftrightarrow>
    fcard (fmdom (metadata self)) = fcard (fmdom (metadata other))
    \<and> fBall (fmdom (metadata self)) (\<lambda>k. fmlookup (metadata other) k = fmlookup (metadata self) k)"

definition version_purge_status :: "FileInfo \<Rightarrow> VersionPurgeStatusType" where
  "version_purge_status self =
    (case replication_state_internal self of
       Some v \<Rightarrow> composite_version_purge_status v | None \<Rightarrow> VEmpty)"

definition fi_replication_status :: "FileInfo \<Rightarrow> ReplicationStatusType" where
  "fi_replication_status self =
    (case replication_state_internal self of
       Some v \<Rightarrow> composite_replication_status v | None \<Rightarrow> REmpty)"

definition delete_marker_replication_status :: "FileInfo \<Rightarrow> ReplicationStatusType" where
  "delete_marker_replication_status self =
    (if deleted self then
       (case replication_state_internal self of
          Some v \<Rightarrow> composite_replication_status v | None \<Rightarrow> REmpty)
     else REmpty)"

record FileInfoVersions =
  fv_volume :: string
  fv_name :: string
  fv_latest_mod_time :: "time option"
  fv_versions :: "FileInfo list"
  fv_free_versions :: "FileInfo list"

definition find_version_index :: "FileInfoVersions \<Rightarrow> uuid \<Rightarrow> nat option" where
  "find_version_index self vid =
    (case filter (\<lambda>i. fi_version_id (fv_versions self ! i) = Some vid) [0..<length (fv_versions self)] of
       [] \<Rightarrow> None | i # _ \<Rightarrow> Some i)"

definition versions_size :: "FileInfoVersions \<Rightarrow> int" where
  "versions_size self = sum_list (map fi_size (fv_versions self))"

subsection \<open>Facts\<close>

text \<open>The order of the drives is a permutation of the shard numbers.\<close>

lemma fi_distribution_perm:
  assumes "fi_distribution k n = Some d"
  shows "length d = n" "distinct d" "set d = {1..n}"
proof -
  let ?s = "unat k mod n"
  have n: "0 < n" and d: "d = map (\<lambda>i. 1 + (?s + i) mod n) [1..<Suc n]"
    using assms by (auto simp: fi_distribution_def Let_def split: if_splits)
  show len: "length d = n" unfolding d by simp
  have "inj_on (\<lambda>i. 1 + (?s + i) mod n) {1..<Suc n}"
  proof (rule inj_onI)
    fix i j assume ij: "i \<in> {1..<Suc n}" "j \<in> {1..<Suc n}" "1 + (?s + i) mod n = 1 + (?s + j) mod n"
    then have "i mod n = j mod n" by (simp add: mod_add_cong nat_mod_eq_iff)
    then show "i = j" using ij(1,2) by (cases "i = n"; cases "j = n") auto
  qed
  then show dd: "distinct d" unfolding d by (simp add: distinct_map del: upt_Suc)
  have "set d \<subseteq> {1..n}" unfolding d using n by (auto simp: Suc_le_eq)
  then show "set d = {1..n}" using distinct_card [OF dd] len by (intro card_subset_eq) auto
qed

lemma FileInfo_new_valid:
  assumes "FileInfo_new crc object d p = Some fi" "0 < d" "p \<le> d" "1 \<le> i" "i \<le> d + p"
  shows "FileInfo_is_valid (fi\<lparr>erasure := (erasure fi)\<lparr>ei_index := i\<rparr>\<rparr>)"
  using assms fi_distribution_perm(1)
  by (fastforce simp: FileInfo_new_def FileInfo_is_valid_def FileInfo_default_def ErasureInfo_default_def Let_def)

text \<open>The sizes computed from the metadata are those of the erasure coder.\<close>

lemma ei_sizes:
  assumes "ei_block_size ei = block_size e" "data_blocks ei = data_shards e"
  shows "ei_shard_size ei = shard_size e" "ei_shard_file_size ei t = shard_file_size e t"
  using assms by (simp_all add: ei_shard_size_def shard_size_def ei_calc_shard_size_def calc_shard_size_def
      ei_shard_file_size_def shard_file_size_def Let_def)

text \<open>A read quorum and a write quorum of a valid version have a drive in common.\<close>

lemma version_quorums_meet:
  assumes "FileInfo_is_valid fi" "\<not> deleted fi"
  shows "data_blocks (erasure fi) + parity_blocks (erasure fi) < read_quorum_of fi q + write_quorum_of fi q'"
  using assms by (auto simp: FileInfo_is_valid_def read_quorum_of_def write_quorum_of_def Let_def)

lemma part_offset_loop_spec:
  "part_offset_loop ps k off = Inr (i, r) \<Longrightarrow>
    k \<le> i \<and> i - k < length ps \<and> off = sum_list (map p_size (take (i - k) ps)) + r \<and> r < p_size (ps ! (i - k))"
proof (induction ps k off rule: part_offset_loop.induct)
  case (2 part ps k off)
  show ?case
  proof (cases "off < p_size part")
    case True
    then show ?thesis using "2.prems" by simp
  next
    case False
    then have IH: "Suc k \<le> i \<and> i - Suc k < length ps \<and>
        off - p_size part = sum_list (map p_size (take (i - Suc k) ps)) + r \<and> r < p_size (ps ! (i - Suc k))"
      using 2 by simp
    then have "i - k = Suc (i - Suc k)" by linarith
    then show ?thesis using IH False by simp linarith
  qed
qed simp

lemma part_offset_loop_total:
  "off < sum_list (map p_size ps) \<Longrightarrow> \<exists>r. part_offset_loop ps k off = Inr r"
  by (induction ps k off rule: part_offset_loop.induct) auto

text \<open>An offset inside the object is found in exactly the part that holds it.\<close>

lemma to_part_offset_correct:
  assumes "0 < off" "off < sum_list (map p_size (parts fi))"
  shows "\<exists>i r. to_part_offset fi off = Inr (i, r) \<and> i < length (parts fi) \<and> r < p_size (parts fi ! i)
    \<and> off = sum_list (map p_size (take i (parts fi))) + r"
  using part_offset_loop_total [OF assms(2), of 0] part_offset_loop_spec [of "parts fi" 0 off] assms(1)
  by (auto simp: to_part_offset_def)

lemma replace_part_None: "replace_part part ps = None \<longleftrightarrow> p_number part \<notin> p_number ` set ps"
  by (induction ps) auto

lemma replace_part_numbers: "replace_part part ps = Some ps' \<Longrightarrow> map p_number ps' = map p_number ps \<and> part \<in> set ps'"
  by (induction ps arbitrary: ps') (auto split: if_splits)

text \<open>Adding a part keeps the parts sorted by number without repetition.\<close>

lemma add_object_part_sorted:
  assumes "sorted (map p_number (parts fi))" "distinct (map p_number (parts fi))"
    and fi': "fi' = add_object_part num etag sz mt act idx sums fi"
  shows "sorted (map p_number (parts fi'))" "distinct (map p_number (parts fi'))"
    "p_number ` set (parts fi') = insert num (p_number ` set (parts fi))"
proof -
  let ?part = "\<lparr>p_etag = etag, p_number = num, p_size = sz, p_actual_size = act, p_mod_time = mt,
    p_index = idx, p_checksums = sums, p_error = None\<rparr>"
  have "sorted (map p_number (parts fi')) \<and> distinct (map p_number (parts fi'))
    \<and> p_number ` set (parts fi') = insert num (p_number ` set (parts fi))"
  proof (cases "replace_part ?part (parts fi)")
    case None
    then have "num \<notin> p_number ` set (parts fi)" by (simp add: replace_part_None)
    moreover from None have "parts fi' = sort_key p_number (parts fi @ [?part])"
      by (simp add: fi' add_object_part_def)
    moreover have "mset (map p_number (sort_key p_number (parts fi @ [?part]))) = mset (map p_number (parts fi @ [?part]))"
      by simp
    ultimately show ?thesis using assms(2) mset_eq_imp_distinct_iff by fastforce
  next
    case (Some ps)
    then have p: "parts fi' = ps" by (simp add: fi' add_object_part_def)
    have m: "map p_number ps = map p_number (parts fi)" "?part \<in> set ps" using replace_part_numbers [OF Some] by simp_all
    then have "p_number ` set ps = p_number ` set (parts fi)" by (metis set_map)
    moreover have "num \<in> p_number ` set ps" using m(2) by force
    ultimately show ?thesis unfolding p m(1) using assms(1,2) by auto
  qed
  then show "sorted (map p_number (parts fi'))" "distinct (map p_number (parts fi'))"
    "p_number ` set (parts fi') = insert num (p_number ` set (parts fi))" by simp_all
qed

lemma same_elements_eq: "length xs = length ys \<Longrightarrow> same_elements xs ys \<longleftrightarrow> xs = ys"
  by (induction xs ys rule: same_elements.induct) auto

lemma metadata_equals_iff: "metadata_equals a b \<longleftrightarrow> metadata a = metadata b"
proof
  assume a: "metadata_equals a b"
  have sub: "fmlookup (metadata b) k = fmlookup (metadata a) k" if "k |\<in>| fmdom (metadata a)" for k
    using a that by (simp add: metadata_equals_def)
  then have "fmdom (metadata a) |\<subseteq>| fmdom (metadata b)"
    by (metis fmdomI fmlookup_dom_iff fsubsetI)
  then have "fmdom (metadata a) = fmdom (metadata b)"
    using a by (metis fcard_seteq metadata_equals_def order_refl)
  then show "metadata a = metadata b" using sub by (metis fmap_ext fmdom_notD)
qed (simp add: metadata_equals_def)

end
