(* ===== verification/FileMetaVersion.thy ===== *)
theory FileMetaVersion
  imports FileInfo ByteOrder "HOL-Library.Option_ord" "HOL-Library.List_Lexorder" "HOL-Library.Product_Lexorder"
    "HOL-Library.Char_ord"
begin

text \<open>
  One version in the metadata file of an object, crates/filemeta/src/filemeta/version.rs: an
  object or a delete marker, the header kept beside its encoded form, and the conversions from
  and to the description of a version. Texts are lists of the bytes of their UTF-8 form; keys
  are compared without case as ASCII. None is a panic.
\<close>

subsection \<open>Text and bytes\<close>

definition str_bytes :: "string \<Rightarrow> bytes" where
  "str_bytes s = map (\<lambda>c. of_nat (of_char c)) s"

definition bytes_str :: "bytes \<Rightarrow> string" where
  "bytes_str b = map (\<lambda>w. char_of (unat w)) b"

text \<open>
  The first character of a byte sequence: how many bytes it takes and whether they are well
  formed. An ill-formed sequence takes the bytes read so far, at least one.
\<close>

definition continuation :: "u8 \<Rightarrow> bool" where
  "continuation b \<longleftrightarrow> 0x80 \<le> b \<and> b \<le> 0xBF"

definition byte_at :: "nat \<Rightarrow> bytes \<Rightarrow> u8" where
  "byte_at i bs = (if i < length bs then bs ! i else 0)"

definition second_of_three :: "u8 \<Rightarrow> u8 \<Rightarrow> bool" where
  "second_of_three a b \<longleftrightarrow>
    a = 0xE0 \<and> 0xA0 \<le> b \<and> b \<le> 0xBF \<or> 0xE1 \<le> a \<and> a \<le> 0xEC \<and> continuation b
    \<or> a = 0xED \<and> 0x80 \<le> b \<and> b \<le> 0x9F \<or> 0xEE \<le> a \<and> a \<le> 0xEF \<and> continuation b"

definition second_of_four :: "u8 \<Rightarrow> u8 \<Rightarrow> bool" where
  "second_of_four a b \<longleftrightarrow>
    a = 0xF0 \<and> 0x90 \<le> b \<and> b \<le> 0xBF \<or> 0xF1 \<le> a \<and> a \<le> 0xF3 \<and> continuation b
    \<or> a = 0xF4 \<and> 0x80 \<le> b \<and> b \<le> 0x8F"

definition utf8_char :: "bytes \<Rightarrow> nat \<times> bool" where
  "utf8_char bs =
    (let a = byte_at 0 bs; b = byte_at 1 bs in
     if a < 0x80 then (1, True)
     else if 0xC2 \<le> a \<and> a \<le> 0xDF then (if continuation b then (2, True) else (1, False))
     else if 0xE0 \<le> a \<and> a \<le> 0xEF then
       (if \<not> second_of_three a b then (1, False)
        else if continuation (byte_at 2 bs) then (3, True) else (2, False))
     else if 0xF0 \<le> a \<and> a \<le> 0xF4 then
       (if \<not> second_of_four a b then (1, False)
        else if \<not> continuation (byte_at 2 bs) then (2, False)
        else if continuation (byte_at 3 bs) then (4, True) else (3, False))
     else (1, False))"

lemma utf8_char_pos: "0 < fst (utf8_char bs)"
  by (simp add: utf8_char_def Let_def)

function utf8_valid :: "bytes \<Rightarrow> bool" where
  "utf8_valid bs =
    (if bs = [] then True
     else if snd (utf8_char bs) then utf8_valid (drop (fst (utf8_char bs)) bs)
     else False)"
  by pat_completeness auto
termination
  by (relation "measure length") (auto simp: utf8_char_pos)

text \<open>String::from_utf8 and String::from_utf8_lossy, with the replacement character.\<close>

definition from_utf8 :: "bytes \<Rightarrow> string option" where
  "from_utf8 bs = (if utf8_valid bs then Some (bytes_str bs) else None)"

function utf8_lossy :: "bytes \<Rightarrow> bytes" where
  "utf8_lossy bs =
    (if bs = [] then []
     else (let n = fst (utf8_char bs) in
           (if snd (utf8_char bs) then take n bs else [0xEF, 0xBF, 0xBD]) @ utf8_lossy (drop n bs)))"
  by pat_completeness auto
termination
  by (relation "measure length") (auto simp: utf8_char_pos)

definition from_utf8_lossy :: "bytes \<Rightarrow> string" where
  "from_utf8_lossy bs = bytes_str (utf8_lossy bs)"

declare utf8_valid.simps [simp del] utf8_lossy.simps [simp del]

definition lower_char :: "char \<Rightarrow> char" where
  "lower_char c = (let n = of_char c :: nat in if 65 \<le> n \<and> n \<le> 90 then char_of (n + 32) else c)"

definition to_lowercase :: "string \<Rightarrow> string" where
  "to_lowercase s = map lower_char s"

subsection \<open>Constants\<close>

definition FREE_VERSION :: string where "FREE_VERSION = ''free-version''"
definition TRANSITION_STATUS :: string where "TRANSITION_STATUS = ''transition-status''"
definition TRANSITIONED_OBJECTNAME :: string where "TRANSITIONED_OBJECTNAME = ''transitioned-object''"
definition TRANSITIONED_VERSION_ID :: string where "TRANSITIONED_VERSION_ID = ''transitioned-versionID''"
definition TRANSITION_TIER :: string where "TRANSITION_TIER = ''transition-tier''"
definition VERSION_PURGE_STATUS_KEY :: string where "VERSION_PURGE_STATUS_KEY = ''X-Rustfs-Internal-purgestatus''"
definition X_RUSTFS_HEALING :: string where "X_RUSTFS_HEALING = ''X-Rustfs-Internal-healing''"
definition X_RUSTFS_DATA_MOV :: string where "X_RUSTFS_DATA_MOV = ''X-Rustfs-Internal-data-mov''"
definition AMZ_STORAGE_CLASS :: string where "AMZ_STORAGE_CLASS = ''x-amz-storage-class''"
definition AMZ_RESTORE_EXPIRY_DAYS :: string where "AMZ_RESTORE_EXPIRY_DAYS = ''X-Amz-Restore-Expiry-Days''"
definition AMZ_RESTORE_REQUEST_DATE :: string where "AMZ_RESTORE_REQUEST_DATE = ''X-Amz-Restore-Request-Date''"
definition AMZ_BUCKET_REPLICATION_STATUS :: string where "AMZ_BUCKET_REPLICATION_STATUS = ''X-Amz-Replication-Status''"
definition AMZ_META_UNENCRYPTED_CONTENT_LENGTH :: string where
  "AMZ_META_UNENCRYPTED_CONTENT_LENGTH = ''X-Amz-Meta-X-Amz-Unencrypted-Content-Length''"
definition AMZ_META_UNENCRYPTED_CONTENT_MD5 :: string where
  "AMZ_META_UNENCRYPTED_CONTENT_MD5 = ''X-Amz-Meta-X-Amz-Unencrypted-Content-Md5''"

lemmas key_defs = FREE_VERSION_def TRANSITION_STATUS_def TRANSITIONED_OBJECTNAME_def TRANSITIONED_VERSION_ID_def
  TRANSITION_TIER_def VERSION_PURGE_STATUS_KEY_def X_RUSTFS_HEALING_def X_RUSTFS_DATA_MOV_def AMZ_STORAGE_CLASS_def
  AMZ_RESTORE_EXPIRY_DAYS_def AMZ_RESTORE_REQUEST_DATE_def AMZ_BUCKET_REPLICATION_STATUS_def
  AMZ_META_UNENCRYPTED_CONTENT_LENGTH_def AMZ_META_UNENCRYPTED_CONTENT_MD5_def reserved_def
  RESERVED_METADATA_PREFIX_LOWER_def RESERVED_METADATA_PREFIX_def TIER_FV_ID_def TIER_FV_MARKER_def X_AMZ_RESTORE_def

subsection \<open>Types of versions\<close>

datatype VersionType = VtInvalid | VtObject | VtDelete | VtLegacy

fun vt_to_u8 :: "VersionType \<Rightarrow> u8" where
  "vt_to_u8 VtInvalid = 0"
| "vt_to_u8 VtObject = 1"
| "vt_to_u8 VtDelete = 2"
| "vt_to_u8 VtLegacy = 3"

definition vt_from_u8 :: "u8 \<Rightarrow> VersionType" where
  "vt_from_u8 n = (if n = 1 then VtObject else if n = 2 then VtDelete else if n = 3 then VtLegacy else VtInvalid)"

definition vt_valid :: "VersionType \<Rightarrow> bool" where
  "vt_valid t \<longleftrightarrow> t = VtObject \<or> t = VtDelete \<or> t = VtLegacy"

lemma vt_u8_roundtrip [simp]: "vt_from_u8 (vt_to_u8 t) = t"
  by (cases t) (simp_all add: vt_from_u8_def)

lemma vt_to_u8_eq [simp]: "vt_to_u8 a = vt_to_u8 b \<longleftrightarrow> a = b"
  by (metis vt_u8_roundtrip)

text \<open>The derived order is that of the discriminants.\<close>

instantiation VersionType :: linorder
begin

definition less_eq_VersionType :: "VersionType \<Rightarrow> VersionType \<Rightarrow> bool" where
  "less_eq_VersionType a b \<longleftrightarrow> vt_to_u8 a \<le> vt_to_u8 b"

definition less_VersionType :: "VersionType \<Rightarrow> VersionType \<Rightarrow> bool" where
  "less_VersionType a b \<longleftrightarrow> vt_to_u8 a < vt_to_u8 b"

instance
  by standard (auto simp: less_eq_VersionType_def less_VersionType_def order.strict_iff_order)

end

datatype ChecksumAlgo = CaInvalid | CaHighwayHash

datatype ErasureAlgo = EaInvalid | EaReedSolomon

definition ca_valid :: "ChecksumAlgo \<Rightarrow> bool" where
  "ca_valid a \<longleftrightarrow> a \<noteq> CaInvalid"

definition ea_valid :: "ErasureAlgo \<Rightarrow> bool" where
  "ea_valid a \<longleftrightarrow> a \<noteq> EaInvalid"

fun ca_to_u8 :: "ChecksumAlgo \<Rightarrow> u8" where
  "ca_to_u8 CaInvalid = 0"
| "ca_to_u8 CaHighwayHash = 1"

definition ca_from_u8 :: "u8 \<Rightarrow> ChecksumAlgo" where
  "ca_from_u8 u = (if u = 1 then CaHighwayHash else CaInvalid)"

fun ea_to_u8 :: "ErasureAlgo \<Rightarrow> u8" where
  "ea_to_u8 EaInvalid = 0"
| "ea_to_u8 EaReedSolomon = 1"

definition ea_from_u8 :: "u8 \<Rightarrow> ErasureAlgo" where
  "ea_from_u8 u = (if u = 1 then EaReedSolomon else EaInvalid)"

fun ea_to_string :: "ErasureAlgo \<Rightarrow> string" where
  "ea_to_string EaInvalid = ''Invalid''"
| "ea_to_string EaReedSolomon = ERASURE_ALGORITHM"

lemma algo_u8_roundtrip: "ca_from_u8 (ca_to_u8 a) = a" "ea_from_u8 (ea_to_u8 b) = b"
  by (cases a; simp add: ca_from_u8_def) (cases b; simp add: ea_from_u8_def)

text \<open>Flags of a header.\<close>

definition Flags_FreeVersion :: u8 where "Flags_FreeVersion = 1"
definition Flags_UsesDataDir :: u8 where "Flags_UsesDataDir = 2"
definition Flags_InlineData :: u8 where "Flags_InlineData = 4"

subsection \<open>Objects and delete markers\<close>

record MetaObject =
  mo_version_id :: "uuid option"
  mo_data_dir :: "uuid option"
  erasure_algorithm :: ErasureAlgo
  erasure_m :: nat
  erasure_n :: nat
  erasure_block_size :: nat
  erasure_index :: nat
  erasure_dist :: "u8 list"
  bitrot_checksum_algo :: ChecksumAlgo
  part_numbers :: "nat list"
  part_etags :: "string list"
  part_sizes :: "nat list"
  part_actual_sizes :: "int list"
  part_indices :: "bytes list"
  mo_size :: int
  mo_mod_time :: "time option"
  mo_meta_sys :: "(string, bytes) fmap"
  meta_user :: "(string, string) fmap"

definition MetaObject_default :: MetaObject where
  "MetaObject_default =
    \<lparr>mo_version_id = None, mo_data_dir = None, erasure_algorithm = EaInvalid, erasure_m = 0, erasure_n = 0,
     erasure_block_size = 0, erasure_index = 0, erasure_dist = [], bitrot_checksum_algo = CaInvalid,
     part_numbers = [], part_etags = [], part_sizes = [], part_actual_sizes = [], part_indices = [],
     mo_size = 0, mo_mod_time = None, mo_meta_sys = fmempty, meta_user = fmempty\<rparr>"

record MetaDeleteMarker =
  dm_version_id :: "uuid option"
  dm_mod_time :: "time option"
  dm_meta_sys :: "(string, bytes) fmap"

definition MetaDeleteMarker_default :: MetaDeleteMarker where
  "MetaDeleteMarker_default = \<lparr>dm_version_id = None, dm_mod_time = None, dm_meta_sys = fmempty\<rparr>"

record FileMetaVersion =
  fv_version_type :: VersionType
  fv_object :: "MetaObject option"
  fv_delete_marker :: "MetaDeleteMarker option"
  fv_write_version :: u64

definition FileMetaVersion_default :: FileMetaVersion where
  "FileMetaVersion_default =
    \<lparr>fv_version_type = VtInvalid, fv_object = None, fv_delete_marker = None, fv_write_version = 0\<rparr>"

definition version_valid :: "FileMetaVersion \<Rightarrow> bool" where
  "version_valid self =
    (if \<not> vt_valid (fv_version_type self) then False
     else
       (case fv_version_type self of
          VtObject \<Rightarrow>
            (case fv_object self of
               Some v \<Rightarrow> ea_valid (erasure_algorithm v) \<and> ca_valid (bitrot_checksum_algo v) \<and> mo_mod_time v \<noteq> None
             | None \<Rightarrow> False)
        | VtDelete \<Rightarrow>
            (case fv_delete_marker self of
               Some v \<Rightarrow> (case dm_mod_time v of Some t \<Rightarrow> t | None \<Rightarrow> 0) > 0
             | None \<Rightarrow> False)
        | _ \<Rightarrow> False))"

definition version_data_dir :: "FileMetaVersion \<Rightarrow> uuid option" where
  "version_data_dir self =
    (if version_valid self then
       (if fv_version_type self = VtObject
        then (case fv_object self of Some v \<Rightarrow> mo_data_dir v | None \<Rightarrow> None)
        else None)
     else None)"

definition get_version_id :: "FileMetaVersion \<Rightarrow> uuid option" where
  "get_version_id self =
    (case fv_version_type self of
       VtObject \<Rightarrow> (case fv_object self of Some v \<Rightarrow> mo_version_id v | None \<Rightarrow> None)
     | VtDelete \<Rightarrow> (case fv_delete_marker self of Some v \<Rightarrow> dm_version_id v | None \<Rightarrow> None)
     | _ \<Rightarrow> None)"

definition get_mod_time :: "FileMetaVersion \<Rightarrow> time option" where
  "get_mod_time self =
    (case fv_version_type self of
       VtObject \<Rightarrow> (case fv_object self of Some v \<Rightarrow> mo_mod_time v | None \<Rightarrow> None)
     | VtDelete \<Rightarrow> (case fv_delete_marker self of Some v \<Rightarrow> dm_mod_time v | None \<Rightarrow> None)
     | _ \<Rightarrow> None)"

definition marker_free_version :: "MetaDeleteMarker \<Rightarrow> bool" where
  "marker_free_version self \<longleftrightarrow> fmlookup (dm_meta_sys self) (reserved FREE_VERSION) \<noteq> None"

definition version_free_version :: "FileMetaVersion \<Rightarrow> bool" where
  "version_free_version self \<longleftrightarrow> fv_version_type self = VtDelete
    \<and> (case fv_delete_marker self of Some m \<Rightarrow> marker_free_version m | None \<Rightarrow> False)"

definition is_legacy :: "FileMetaVersion \<Rightarrow> bool" where
  "is_legacy self \<longleftrightarrow> fv_version_type self = VtLegacy"

definition transitioned :: "MetaObject \<Rightarrow> bool" where
  "transitioned self \<longleftrightarrow> fmlookup (mo_meta_sys self) (reserved TRANSITION_STATUS) = Some (str_bytes TRANSITION_COMPLETE)"

definition object_uses_data_dir :: "time_lib \<Rightarrow> MetaObject \<Rightarrow> bool" where
  "object_uses_data_dir ck self =
    (if transitioned self then False else is_restored_object_on_disk ck (meta_user self))"

definition inlinedata :: "MetaObject \<Rightarrow> bool" where
  "inlinedata self \<longleftrightarrow> fmlookup (mo_meta_sys self) (reserved ''inline-data'') \<noteq> None"

definition reset_inline_data :: "MetaObject \<Rightarrow> MetaObject" where
  "reset_inline_data self = self\<lparr>mo_meta_sys := fmdrop (reserved ''inline-data'') (mo_meta_sys self)\<rparr>"

definition remove_restore_hdrs :: "MetaObject \<Rightarrow> MetaObject" where
  "remove_restore_hdrs self = self\<lparr>meta_user :=
     fmdrop AMZ_RESTORE_REQUEST_DATE (fmdrop AMZ_RESTORE_EXPIRY_DAYS (fmdrop X_AMZ_RESTORE (meta_user self)))\<rparr>"

definition version_uses_data_dir :: "time_lib \<Rightarrow> FileMetaVersion \<Rightarrow> bool" where
  "version_uses_data_dir ck self =
    (case fv_version_type self of
       VtObject \<Rightarrow> (case fv_object self of Some v \<Rightarrow> object_uses_data_dir ck v | None \<Rightarrow> False)
     | _ \<Rightarrow> False)"

definition uses_inline_data :: "FileMetaVersion \<Rightarrow> bool" where
  "uses_inline_data self =
    (case fv_version_type self of
       VtObject \<Rightarrow> (case fv_object self of Some v \<Rightarrow> inlinedata v | None \<Rightarrow> False)
     | _ \<Rightarrow> False)"

text \<open>The bytes of an identifier, most significant first.\<close>

definition uuid_bytes :: "uuid \<Rightarrow> bytes" where
  "uuid_bytes u = be_bytes 16 (unat u)"

definition uuid_of_bytes :: "bytes \<Rightarrow> uuid" where
  "uuid_of_bytes bs = of_nat (be_nat bs)"

lemma uuid_bytes_roundtrip [simp]: "uuid_of_bytes (uuid_bytes u) = u" "length (uuid_bytes u) = 16"
proof -
  have "unat u < 256 ^ 16" using unsigned_less [of u] by simp
  then show "uuid_of_bytes (uuid_bytes u) = u" by (simp add: uuid_of_bytes_def uuid_bytes_def be_nat_be_bytes)
qed (simp add: uuid_bytes_def)

text \<open>Uuid::from_slice accepts exactly sixteen bytes.\<close>

definition uuid_from_slice :: "bytes \<Rightarrow> uuid option" where
  "uuid_from_slice bs = (if length bs = 16 then Some (uuid_of_bytes bs) else None)"

definition insert_sys :: "string \<Rightarrow> bytes \<Rightarrow> MetaObject \<Rightarrow> MetaObject" where
  "insert_sys k v self = self\<lparr>mo_meta_sys := fmupd k v (mo_meta_sys self)\<rparr>"

definition set_transition :: "FileInfo \<Rightarrow> MetaObject \<Rightarrow> MetaObject" where
  "set_transition fi self =
    (let o1 = insert_sys (reserved TRANSITION_STATUS) (str_bytes (transition_status fi)) self;
         o2 = insert_sys (reserved TRANSITIONED_OBJECTNAME) (str_bytes (transitioned_objname fi)) o1;
         o3 = (case transition_version_id fi of
                 Some vid \<Rightarrow> insert_sys (reserved TRANSITIONED_VERSION_ID) (uuid_bytes vid) o2
               | None \<Rightarrow> o2)
     in insert_sys (reserved TRANSITION_TIER) (str_bytes (transition_tier fi)) o3)"

text \<open>
  The delete marker that remembers a transitioned object whose version is deleted. The parser
  of identifiers is the argument \<^verbatim>\<open>parse_uuid\<close>.
\<close>

definition init_free_version :: "(string \<Rightarrow> uuid option) \<Rightarrow> FileInfo \<Rightarrow> MetaObject \<Rightarrow> (FileMetaVersion \<times> bool) option" where
  "init_free_version parse_uuid fi self =
    (if skip_tier_free_version fi then Some (FileMetaVersion_default, False)
     else if transitioned self then
       (case tier_free_version_id fi of
          None \<Rightarrow> None
        | Some text \<Rightarrow>
            (case parse_uuid text of
               None \<Rightarrow> None
             | Some vid \<Rightarrow>
                 (let keys = [reserved TRANSITION_TIER, reserved TRANSITIONED_OBJECTNAME, reserved TRANSITIONED_VERSION_ID];
                      sys = fmadd (fmupd (reserved FREE_VERSION) [] fmempty)
                        (fmfilter (\<lambda>k. k \<in> set keys) (mo_meta_sys self)) in
                  Some (FileMetaVersion_default
                    \<lparr>fv_version_type := VtDelete,
                     fv_delete_marker := Some \<lparr>dm_version_id = Some vid, dm_mod_time = mo_mod_time self, dm_meta_sys = sys\<rparr>\<rparr>,
                    True))))
     else Some (FileMetaVersion_default, False))"

subsection \<open>From the description of a version\<close>

definition reserved_key :: "string \<Rightarrow> bool" where
  "reserved_key k \<longleftrightarrow> length k > length RESERVED_METADATA_PREFIX
    \<and> (prefix RESERVED_METADATA_PREFIX k \<or> prefix RESERVED_METADATA_PREFIX_LOWER k)"

definition sys_of_metadata :: "(string, string) fmap \<Rightarrow> (string, bytes) fmap" where
  "sys_of_metadata m =
    fmmap str_bytes (fmfilter (\<lambda>k. reserved_key k \<and> k \<noteq> X_RUSTFS_HEALING \<and> k \<noteq> X_RUSTFS_DATA_MOV) m)"

definition user_of_metadata :: "(string, string) fmap \<Rightarrow> (string, string) fmap" where
  "user_of_metadata m = fmfilter (\<lambda>k. \<not> reserved_key k) m"

definition sys_of_fileinfo :: "FileInfo \<Rightarrow> (string, bytes) fmap" where
  "sys_of_fileinfo value =
    (let s0 = sys_of_metadata (metadata value);
         s1 = (if transition_status value \<noteq> []
               then fmupd (reserved TRANSITION_STATUS) (str_bytes (transition_status value)) s0 else s0);
         s2 = (if transitioned_objname value \<noteq> []
               then fmupd (reserved TRANSITIONED_OBJECTNAME) (str_bytes (transitioned_objname value)) s1 else s1);
         s3 = (case transition_version_id value of
                 Some vid \<Rightarrow> fmupd (reserved TRANSITIONED_VERSION_ID) (uuid_bytes vid) s2
               | None \<Rightarrow> s2);
         s4 = (if transition_tier value \<noteq> []
               then fmupd (reserved TRANSITION_TIER) (str_bytes (transition_tier value)) s3 else s3)
     in case fi_checksum value of Some c \<Rightarrow> fmupd (reserved ''crc'') c s4 | None \<Rightarrow> s4)"

definition MetaObject_from :: "FileInfo \<Rightarrow> MetaObject" where
  "MetaObject_from value =
    \<lparr>mo_version_id = fi_version_id value,
     mo_data_dir = fi_data_dir value,
     erasure_algorithm = EaReedSolomon,
     erasure_m = data_blocks (erasure value),
     erasure_n = parity_blocks (erasure value),
     erasure_block_size = ei_block_size (erasure value),
     erasure_index = ei_index (erasure value),
     erasure_dist = map of_nat (distribution (erasure value)),
     bitrot_checksum_algo = CaHighwayHash,
     part_numbers = map p_number (parts value),
     part_etags = map p_etag (parts value),
     part_sizes = map p_size (parts value),
     part_actual_sizes = map p_actual_size (parts value),
     part_indices = map (\<lambda>p. case p_index p of Some i \<Rightarrow> i | None \<Rightarrow> []) (parts value),
     mo_size = fi_size value,
     mo_mod_time = fi_mod_time value,
     mo_meta_sys = sys_of_fileinfo value,
     meta_user = user_of_metadata (metadata value)\<rparr>"

definition MetaDeleteMarker_from :: "FileInfo \<Rightarrow> MetaDeleteMarker" where
  "MetaDeleteMarker_from value =
    \<lparr>dm_version_id = fi_version_id value, dm_mod_time = fi_mod_time value, dm_meta_sys = fmempty\<rparr>"

definition FileMetaVersion_from :: "FileInfo \<Rightarrow> FileMetaVersion" where
  "FileMetaVersion_from value =
    (if deleted value then
       \<lparr>fv_version_type = VtDelete, fv_object = None, fv_delete_marker = Some (MetaDeleteMarker_from value), fv_write_version = 0\<rparr>
     else
       \<lparr>fv_version_type = VtObject, fv_object = Some (MetaObject_from value), fv_delete_marker = None, fv_write_version = 0\<rparr>)"

subsection \<open>To the description of a version\<close>

text \<open>
  The replication state kept in the metadata. Each key sets a field of its own, so the order in
  which the map is visited does not matter.
\<close>

definition strip_keys :: "string \<Rightarrow> (string, 'v) fmap \<Rightarrow> (string, 'v) fmap" where
  "strip_keys pre m =
    fmap_of_list (map (\<lambda>k. (drop (length pre) k, the (fmlookup m k)))
      (filter (prefix pre) (sorted_list_of_fset (fmdom m))))"

definition timestamp_of :: "time_lib \<Rightarrow> string \<Rightarrow> time" where
  "timestamp_of ck v = (case rfc3339 ck v of Some t \<Rightarrow> t | None \<Rightarrow> 0)"

definition get_internal_replication_state :: "time_lib \<Rightarrow> captures \<Rightarrow> (string, string) fmap \<Rightarrow> ReplicationState option" where
  "get_internal_replication_state ck caps m =
    (let purge = fmlookup m VERSION_PURGE_STATUS_KEY;
         rts = fmlookup m (reserved ''replica-timestamp'');
         rst = fmlookup m (reserved ''replica-status'');
         pts = fmlookup m (reserved ''replication-timestamp'');
         pst = fmlookup m (reserved ''replication-status'');
         resets = strip_keys (reserved ''replication-reset-'') m;
         rs = ReplicationState_default
           \<lparr>version_purge_status_internal := purge,
            purge_targets := (case purge of Some v \<Rightarrow> version_purge_statuses_map caps v | None \<Rightarrow> fmempty),
            replica_timestamp := map_option (timestamp_of ck) rts,
            replica_status := (case rst of Some v \<Rightarrow> status_from v | None \<Rightarrow> REmpty),
            replication_timestamp := map_option (timestamp_of ck) pts,
            replication_status_internal := pst,
            rs_targets := (case pst of Some v \<Rightarrow> replication_statuses_map caps v | None \<Rightarrow> fmempty),
            reset_statuses_map := resets\<rparr>
     in if purge \<noteq> None \<or> rts \<noteq> None \<or> rst \<noteq> None \<or> pts \<noteq> None \<or> pst \<noteq> None \<or> resets \<noteq> fmempty
        then Some rs else None)"

text \<open>The parts of an object; the lists are indexed by the position of the part number.\<close>

definition part_at :: "MetaObject \<Rightarrow> nat \<Rightarrow> ObjectPartInfo option" where
  "part_at self i =
    (if i < length (part_sizes self) \<and> i < length (part_actual_sizes self) then
       Some (ObjectPartInfo_default
         \<lparr>p_number := part_numbers self ! i,
          p_size := part_sizes self ! i,
          p_actual_size := part_actual_sizes self ! i,
          p_etag := (if length (part_etags self) = length (part_numbers self) then part_etags self ! i else []),
          p_index := (if length (part_indices self) = length (part_numbers self)
                      then (if part_indices self ! i = [] then None else Some (part_indices self ! i)) else None)\<rparr>)
     else None)"

fun all_some :: "'a option list \<Rightarrow> 'a list option" where
  "all_some [] = Some []"
| "all_some (None # xs) = None"
| "all_some (Some x # xs) = map_option ((#) x) (all_some xs)"

definition object_parts :: "MetaObject \<Rightarrow> bool \<Rightarrow> ObjectPartInfo list option" where
  "object_parts self all_parts =
    (if all_parts then all_some (map (part_at self) [0..<length (part_numbers self)]) else Some [])"

definition shown_user :: "string \<Rightarrow> string \<Rightarrow> bool" where
  "shown_user k v \<longleftrightarrow> k \<noteq> AMZ_META_UNENCRYPTED_CONTENT_LENGTH \<and> k \<noteq> AMZ_META_UNENCRYPTED_CONTENT_MD5
    \<and> \<not> (k = AMZ_STORAGE_CLASS \<and> v = ''STANDARD'')"

definition shown_sys :: "string \<Rightarrow> bytes \<Rightarrow> bool" where
  "shown_sys k v \<longleftrightarrow>
    (let lower_k = to_lowercase k in
     lower_k \<noteq> to_lowercase (reserved TIER_FV_ID) \<and> lower_k \<noteq> to_lowercase (reserved TIER_FV_MARKER)
     \<and> \<not> (lower_k = to_lowercase AMZ_STORAGE_CLASS \<and> v = str_bytes ''STANDARD'')
     \<and> (prefix RESERVED_METADATA_PREFIX k \<or> prefix RESERVED_METADATA_PREFIX_LOWER k
        \<or> lower_k = to_lowercase VERSION_PURGE_STATUS_KEY))"

definition fm_keep :: "('k \<Rightarrow> 'v \<Rightarrow> bool) \<Rightarrow> ('k, 'v) fmap \<Rightarrow> ('k, 'v) fmap" where
  "fm_keep P m = fmfilter (\<lambda>k. P k (the (fmlookup m k))) m"

definition object_metadata :: "MetaObject \<Rightarrow> (string, string) fmap" where
  "object_metadata self =
    fmadd (fm_keep shown_user (meta_user self))
      (fmmap (\<lambda>v. case from_utf8 v of Some s \<Rightarrow> s | None \<Rightarrow> []) (fm_keep shown_sys (mo_meta_sys self)))"

definition sys_text :: "(string, bytes) fmap \<Rightarrow> string \<Rightarrow> string" where
  "sys_text sys k = (case fmlookup sys (reserved k) of Some v \<Rightarrow> from_utf8_lossy v | None \<Rightarrow> [])"

definition sys_uuid :: "(string, bytes) fmap \<Rightarrow> string \<Rightarrow> uuid option" where
  "sys_uuid sys k = map_option (\<lambda>v. case uuid_from_slice v of Some u \<Rightarrow> u | None \<Rightarrow> 0) (fmlookup sys (reserved k))"

definition non_nil :: "uuid option \<Rightarrow> uuid option" where
  "non_nil v = (case v of Some u \<Rightarrow> if u = 0 then None else Some u | None \<Rightarrow> None)"

definition object_into_fileinfo ::
  "time_lib \<Rightarrow> captures \<Rightarrow> string \<Rightarrow> string \<Rightarrow> bool \<Rightarrow> MetaObject \<Rightarrow> FileInfo option" where
  "object_into_fileinfo ck caps vol path all_parts self =
    (case object_parts self all_parts of
       None \<Rightarrow> None
     | Some ps \<Rightarrow>
         (let m0 = object_metadata self;
              rs = get_internal_replication_state ck caps m0;
              del = (case rs of Some v \<Rightarrow> composite_version_purge_status v \<noteq> VEmpty | None \<Rightarrow> False);
              m1 = (case rs of
                      Some v \<Rightarrow> (let st = composite_replication_status v in
                                 if st \<noteq> REmpty then fmupd AMZ_BUCKET_REPLICATION_STATUS (status_as_str st) m0 else m0)
                    | None \<Rightarrow> m0);
              er = ErasureInfo_default
                \<lparr>ei_algorithm := ea_to_string (erasure_algorithm self), data_blocks := erasure_m self,
                 parity_blocks := erasure_n self, ei_block_size := erasure_block_size self,
                 ei_index := erasure_index self, distribution := map unat (erasure_dist self)\<rparr>
          in Some (FileInfo_default
            \<lparr>fi_version_id := non_nil (mo_version_id self), erasure := er, fi_data_dir := mo_data_dir self,
             fi_mod_time := mo_mod_time self, fi_size := mo_size self, fi_name := path, volume := vol,
             parts := ps, metadata := m1, replication_state_internal := rs, deleted := del,
             fi_checksum := fmlookup (mo_meta_sys self) (reserved ''crc''),
             transition_status := sys_text (mo_meta_sys self) TRANSITION_STATUS,
             transitioned_objname := sys_text (mo_meta_sys self) TRANSITIONED_OBJECTNAME,
             transition_version_id := sys_uuid (mo_meta_sys self) TRANSITIONED_VERSION_ID,
             transition_tier := sys_text (mo_meta_sys self) TRANSITION_TIER\<rparr>)))"

definition marker_into_fileinfo :: "time_lib \<Rightarrow> captures \<Rightarrow> string \<Rightarrow> string \<Rightarrow> MetaDeleteMarker \<Rightarrow> FileInfo" where
  "marker_into_fileinfo ck caps vol path self =
    (let m = fmmap from_utf8_lossy (dm_meta_sys self);
         fi = FileInfo_default
           \<lparr>fi_version_id := non_nil (dm_version_id self), fi_name := path, volume := vol, deleted := True,
            fi_mod_time := dm_mod_time self, metadata := m,
            replication_state_internal := get_internal_replication_state ck caps m\<rparr>
     in if marker_free_version self then
          (set_tier_free_version fi)
            \<lparr>transition_tier := sys_text (dm_meta_sys self) TRANSITION_TIER,
             transitioned_objname := sys_text (dm_meta_sys self) TRANSITIONED_OBJECTNAME,
             transition_version_id := sys_uuid (dm_meta_sys self) TRANSITIONED_VERSION_ID\<rparr>
        else fi)"

definition version_into_fileinfo ::
  "time_lib \<Rightarrow> captures \<Rightarrow> string \<Rightarrow> string \<Rightarrow> bool \<Rightarrow> FileMetaVersion \<Rightarrow> FileInfo option" where
  "version_into_fileinfo ck caps vol path all_parts self =
    (case fv_version_type self of
       VtObject \<Rightarrow>
         object_into_fileinfo ck caps vol path all_parts
           (case fv_object self of Some v \<Rightarrow> v | None \<Rightarrow> MetaObject_default)
     | VtDelete \<Rightarrow>
         Some (marker_into_fileinfo ck caps vol path
           (case fv_delete_marker self of Some v \<Rightarrow> v | None \<Rightarrow> MetaDeleteMarker_default))
     | _ \<Rightarrow> Some (FileInfo_default\<lparr>fi_name := path, volume := vol\<rparr>))"

subsection \<open>Headers\<close>

record FileMetaVersionHeader =
  vh_version_id :: "uuid option"
  vh_mod_time :: "time option"
  signature :: bytes
  vh_version_type :: VersionType
  vh_flags :: u8
  ec_n :: u8
  ec_m :: u8

definition Header_default :: FileMetaVersionHeader where
  "Header_default = \<lparr>vh_version_id = None, vh_mod_time = None, signature = [0, 0, 0, 0],
     vh_version_type = VtInvalid, vh_flags = 0, ec_n = 0, ec_m = 0\<rparr>"

definition header_flags :: "time_lib \<Rightarrow> FileMetaVersion \<Rightarrow> u8" where
  "header_flags ck value =
    (if version_free_version value then Flags_FreeVersion else 0)
    OR (if fv_version_type value = VtObject
          \<and> (case fv_object value of Some v \<Rightarrow> object_uses_data_dir ck v | None \<Rightarrow> False)
        then Flags_UsesDataDir else 0)
    OR (if fv_version_type value = VtObject \<and> (case fv_object value of Some v \<Rightarrow> inlinedata v | None \<Rightarrow> False)
        then Flags_InlineData else 0)"

definition version_header :: "time_lib \<Rightarrow> FileMetaVersion \<Rightarrow> FileMetaVersionHeader" where
  "version_header ck value =
    (let ec = (case (fv_version_type value = VtObject, fv_object value) of
                 (True, Some obj) \<Rightarrow> (of_nat (erasure_n obj), of_nat (erasure_m obj))
               | _ \<Rightarrow> (0, 0)) in
     \<lparr>vh_version_id = get_version_id value, vh_mod_time = get_mod_time value, signature = [0, 0, 0, 0],
      vh_version_type = fv_version_type value, vh_flags = header_flags ck value, ec_n = fst ec, ec_m = snd ec\<rparr>)"

definition has_ec :: "FileMetaVersionHeader \<Rightarrow> bool" where
  "has_ec self \<longleftrightarrow> ec_m self > 0 \<and> ec_n self > 0"

definition matches_ec :: "FileMetaVersionHeader \<Rightarrow> FileMetaVersionHeader \<Rightarrow> bool" where
  "matches_ec self o1 =
    (if has_ec self \<and> has_ec o1 then ec_n self = ec_n o1 \<and> ec_m self = ec_m o1 else True)"

definition matches_not_strict :: "FileMetaVersionHeader \<Rightarrow> FileMetaVersionHeader \<Rightarrow> bool" where
  "matches_not_strict self o1 \<longleftrightarrow>
    (vh_version_id self = vh_version_id o1 \<and> vh_version_type self = vh_version_type o1 \<and> matches_ec self o1)
    \<and> (vh_version_id self = None \<longrightarrow> vh_mod_time self = vh_mod_time o1)"

definition header_free_version :: "FileMetaVersionHeader \<Rightarrow> bool" where
  "header_free_version self \<longleftrightarrow> vh_flags self AND Flags_FreeVersion \<noteq> 0"

definition header_uses_data_dir :: "FileMetaVersionHeader \<Rightarrow> bool" where
  "header_uses_data_dir self \<longleftrightarrow> vh_flags self AND Flags_UsesDataDir \<noteq> 0"

definition header_inline_data :: "FileMetaVersionHeader \<Rightarrow> bool" where
  "header_inline_data self \<longleftrightarrow> vh_flags self AND Flags_InlineData \<noteq> 0"

definition sorts_before :: "FileMetaVersionHeader \<Rightarrow> FileMetaVersionHeader \<Rightarrow> bool" where
  "sorts_before self o1 =
    (if self = o1 then False
     else if vh_mod_time self \<noteq> vh_mod_time o1 then vh_mod_time self > vh_mod_time o1
     else if vh_version_type self \<noteq> vh_version_type o1 then vh_version_type self < vh_version_type o1
     else if vh_version_id self > vh_version_id o1 then True
     else if vh_version_id self < vh_version_id o1 then False
     else if vh_flags self \<noteq> vh_flags o1 then vh_flags self > vh_flags o1
     else False)"

definition header_is_valid :: "time \<Rightarrow> FileMetaVersionHeader \<Rightarrow> bool" where
  "header_is_valid now self =
    (if \<not> vt_valid (vh_version_type self) then False
     else if (case vh_mod_time self of Some t \<Rightarrow> t > now + 24 * 3600 * 1000000000 | None \<Rightarrow> False) then False
     else if has_ec self \<and> (ec_n self = 0 \<or> ec_m self = 0 \<or> ec_m self < ec_n self) then False
     else True)"

subsection \<open>Versions with their encoded form\<close>

record FileMetaShallowVersion =
  header :: FileMetaVersionHeader
  meta :: bytes

definition Shallow_default :: FileMetaShallowVersion where
  "Shallow_default = \<lparr>header = Header_default, meta = []\<rparr>"

text \<open>The encoding of a version by the serialisation library.\<close>

record serde =
  to_vec :: "FileMetaVersion \<Rightarrow> bytes fm_result"
  from_slice :: "bytes \<Rightarrow> FileMetaVersion fm_result"

definition shallow_from :: "time_lib \<Rightarrow> serde \<Rightarrow> FileMetaVersion \<Rightarrow> FileMetaShallowVersion fm_result" where
  "shallow_from ck sd value =
    (case to_vec sd value of
       Inl e \<Rightarrow> Inl e
     | Inr b \<Rightarrow> Inr \<lparr>header = version_header ck value, meta = b\<rparr>)"

definition decode_data_dir_from_meta :: "serde \<Rightarrow> bytes \<Rightarrow> uuid option fm_result" where
  "decode_data_dir_from_meta sd buf =
    (case from_slice sd buf of
       Inl e \<Rightarrow> Inl e
     | Inr ver \<Rightarrow> Inr (case fv_object ver of Some v \<Rightarrow> mo_data_dir v | None \<Rightarrow> None))"

text \<open>None is a panic, Inl an error.\<close>

definition shallow_into_fileinfo ::
  "time_lib \<Rightarrow> captures \<Rightarrow> serde \<Rightarrow> string \<Rightarrow> string \<Rightarrow> bool \<Rightarrow> FileMetaShallowVersion \<Rightarrow> FileInfo fm_result option" where
  "shallow_into_fileinfo ck caps sd vol path all_parts self =
    (case from_slice sd (meta self) of
       Inl e \<Rightarrow> Some (Inl e)
     | Inr v \<Rightarrow> map_option Inr (version_into_fileinfo ck caps vol path all_parts v))"

subsection \<open>Facts\<close>

lemma bytes_str_str_bytes [simp]: "bytes_str (str_bytes s) = s"
  by (simp add: bytes_str_def str_bytes_def o_def unat_of_nat)

lemma utf8_char_length: "snd (utf8_char bs) \<Longrightarrow> bs \<noteq> [] \<Longrightarrow> fst (utf8_char bs) \<le> length bs"
  by (auto simp: utf8_char_def byte_at_def continuation_def Let_def Suc_le_eq split: if_splits)

lemma utf8_lossy_valid: "utf8_valid bs \<Longrightarrow> utf8_lossy bs = bs"
proof (induction bs rule: utf8_lossy.induct)
  case (1 bs)
  show ?case
  proof (cases "bs = []")
    case False
    then have "snd (utf8_char bs)" "utf8_valid (drop (fst (utf8_char bs)) bs)"
      using "1.prems" utf8_valid.simps [of bs] by (simp_all split: if_splits)
    then show ?thesis using False "1.IH" by (subst utf8_lossy.simps) (simp add: Let_def)
  qed (simp add: utf8_lossy.simps)
qed

text \<open>ASCII text is well formed.\<close>

lemma utf8_valid_ascii: "\<forall>b \<in> set bs. b < 0x80 \<Longrightarrow> utf8_valid bs"
proof (induction bs)
  case (Cons b bs)
  then have "utf8_char (b # bs) = (1, True)" by (simp add: utf8_char_def byte_at_def Let_def)
  then show ?case using Cons by (simp add: utf8_valid.simps)
qed (simp add: utf8_valid.simps)

definition is_utf8 :: "string \<Rightarrow> bool" where
  "is_utf8 s \<longleftrightarrow> utf8_valid (str_bytes s)"

lemma is_utf8_text [simp]:
  "is_utf8 s \<Longrightarrow> from_utf8_lossy (str_bytes s) = s" "is_utf8 s \<Longrightarrow> from_utf8 (str_bytes s) = Some s"
  by (simp_all add: is_utf8_def from_utf8_lossy_def utf8_lossy_valid from_utf8_def)

lemma all_some_map: "(\<And>i. i \<in> set xs \<Longrightarrow> f i = Some (g i)) \<Longrightarrow> all_some (map f xs) = Some (map g xs)"
  by (induction xs) auto

lemma fmlookup_fm_keep [simp]:
  "fmlookup (fm_keep P m) k = (case fmlookup m k of Some v \<Rightarrow> if P k v then Some v else None | None \<Rightarrow> None)"
  by (auto simp: fm_keep_def split: option.split)

lemma fmlookup_add_case:
  "fmlookup (fmadd m n) k = (case fmlookup n k of Some v \<Rightarrow> Some v | None \<Rightarrow> fmlookup m k)"
  by (cases "fmlookup n k") (auto dest: fmdom_notI fmdomI)

subsection \<open>A version is read back as it was stored\<close>

definition own_keys :: "string list" where
  "own_keys = map reserved [TRANSITION_STATUS, TRANSITIONED_OBJECTNAME, TRANSITIONED_VERSION_ID, TRANSITION_TIER, ''crc'']"

text \<open>
  A description that storing keeps: drive numbers are bytes, a part carries what the metadata
  file has room for, and the metadata does not use the keys of the transition state.
\<close>

definition storable :: "FileInfo \<Rightarrow> bool" where
  "storable fi \<longleftrightarrow>
    (\<forall>p \<in> set (parts fi). p_index p \<noteq> Some [] \<and> p_mod_time p = None \<and> p_checksums p = None \<and> p_error p = None)
    \<and> (\<forall>x \<in> set (distribution (erasure fi)). x < 256)
    \<and> is_utf8 (transition_status fi) \<and> is_utf8 (transitioned_objname fi) \<and> is_utf8 (transition_tier fi)
    \<and> (\<forall>k \<in> set own_keys. fmlookup (metadata fi) k = None)"

lemma reserved_key_reserved: "x \<noteq> [] \<Longrightarrow> reserved_key (reserved x)"
  by (simp add: reserved_key_def key_defs)

lemma reserved_inject [simp]: "reserved a = reserved b \<longleftrightarrow> a = b"
  by (simp add: reserved_def)

lemma own_names:
  shows "TRANSITION_STATUS \<noteq> TRANSITIONED_OBJECTNAME"
    "TRANSITION_STATUS \<noteq> TRANSITIONED_VERSION_ID"
    "TRANSITION_STATUS \<noteq> TRANSITION_TIER"
    "TRANSITION_STATUS \<noteq> ''crc''"
    "TRANSITIONED_OBJECTNAME \<noteq> TRANSITION_STATUS"
    "TRANSITIONED_OBJECTNAME \<noteq> TRANSITIONED_VERSION_ID"
    "TRANSITIONED_OBJECTNAME \<noteq> TRANSITION_TIER"
    "TRANSITIONED_OBJECTNAME \<noteq> ''crc''"
    "TRANSITIONED_VERSION_ID \<noteq> TRANSITION_STATUS"
    "TRANSITIONED_VERSION_ID \<noteq> TRANSITIONED_OBJECTNAME"
    "TRANSITIONED_VERSION_ID \<noteq> TRANSITION_TIER"
    "TRANSITIONED_VERSION_ID \<noteq> ''crc''"
    "TRANSITION_TIER \<noteq> TRANSITION_STATUS"
    "TRANSITION_TIER \<noteq> TRANSITIONED_OBJECTNAME"
    "TRANSITION_TIER \<noteq> TRANSITIONED_VERSION_ID"
    "TRANSITION_TIER \<noteq> ''crc''"
    "''crc'' \<noteq> TRANSITION_STATUS"
    "''crc'' \<noteq> TRANSITIONED_OBJECTNAME"
    "''crc'' \<noteq> TRANSITIONED_VERSION_ID"
    "''crc'' \<noteq> TRANSITION_TIER"
  by (simp_all add: key_defs)

lemma own_keys_reserved: "k \<in> set own_keys \<Longrightarrow> reserved_key k"
  by (auto simp: own_keys_def intro!: reserved_key_reserved) (simp_all add: key_defs)

lemma sys_own:
  assumes "storable fi"
  shows "fmlookup (sys_of_fileinfo fi) (reserved TRANSITION_STATUS) =
      (if transition_status fi = [] then None else Some (str_bytes (transition_status fi)))"
    "fmlookup (sys_of_fileinfo fi) (reserved TRANSITIONED_OBJECTNAME) =
      (if transitioned_objname fi = [] then None else Some (str_bytes (transitioned_objname fi)))"
    "fmlookup (sys_of_fileinfo fi) (reserved TRANSITION_TIER) =
      (if transition_tier fi = [] then None else Some (str_bytes (transition_tier fi)))"
    "fmlookup (sys_of_fileinfo fi) (reserved TRANSITIONED_VERSION_ID) = map_option uuid_bytes (transition_version_id fi)"
    "fmlookup (sys_of_fileinfo fi) (reserved ''crc'') = fi_checksum fi"
proof -
  have m: "fmlookup (sys_of_metadata (metadata fi)) k = None" if "k \<in> set own_keys" for k
    using assms that by (simp add: storable_def sys_of_metadata_def)
  have m': "fmlookup (sys_of_metadata (metadata fi)) (reserved k) = None"
    if "k \<in> {TRANSITION_STATUS, TRANSITIONED_OBJECTNAME, TRANSITIONED_VERSION_ID, TRANSITION_TIER, ''crc''}" for k
    by (rule m) (use that in \<open>auto simp: own_keys_def\<close>)
  show "fmlookup (sys_of_fileinfo fi) (reserved TRANSITION_STATUS) =
      (if transition_status fi = [] then None else Some (str_bytes (transition_status fi)))"
    "fmlookup (sys_of_fileinfo fi) (reserved TRANSITIONED_OBJECTNAME) =
      (if transitioned_objname fi = [] then None else Some (str_bytes (transitioned_objname fi)))"
    "fmlookup (sys_of_fileinfo fi) (reserved TRANSITION_TIER) =
      (if transition_tier fi = [] then None else Some (str_bytes (transition_tier fi)))"
    "fmlookup (sys_of_fileinfo fi) (reserved TRANSITIONED_VERSION_ID) = map_option uuid_bytes (transition_version_id fi)"
    "fmlookup (sys_of_fileinfo fi) (reserved ''crc'') = fi_checksum fi"
    by (simp_all add: sys_of_fileinfo_def Let_def m' own_names split: option.split)
qed

lemma sys_not_reserved:
  assumes "\<not> reserved_key k"
  shows "fmlookup (sys_of_fileinfo fi) k = None"
proof -
  have "k \<notin> set own_keys" using assms own_keys_reserved by blast
  then show ?thesis
    using assms by (auto simp: sys_of_fileinfo_def sys_of_metadata_def own_keys_def Let_def split: option.split)
qed

lemma parts_roundtrip:
  assumes "storable fi"
  shows "object_parts (MetaObject_from fi) True = Some (parts fi)"
proof -
  have "part_at (MetaObject_from fi) i = Some (parts fi ! i)" if i: "i < length (parts fi)" for i
  proof -
    have "p_index (parts fi ! i) \<noteq> Some []" "p_mod_time (parts fi ! i) = None" "p_checksums (parts fi ! i) = None"
      "p_error (parts fi ! i) = None" using assms i by (auto simp: storable_def)
    then show ?thesis using i
      by (cases "parts fi ! i") (auto simp: part_at_def MetaObject_from_def ObjectPartInfo_default_def split: option.split)
  qed
  then have "object_parts (MetaObject_from fi) True = Some (map (\<lambda>i. parts fi ! i) [0..<length (parts fi)])"
    by (auto simp: object_parts_def MetaObject_from_def intro!: all_some_map)
  then show ?thesis by (simp add: map_nth)
qed

lemma sys_text_own: "is_utf8 s \<Longrightarrow> fmlookup m (reserved k) = (if s = [] then None else Some (str_bytes s)) \<Longrightarrow> sys_text m k = s"
  by (auto simp: sys_text_def)

lemma user_key_shown:
  assumes "\<not> reserved_key k" "\<And>v. fmlookup (metadata fi) k = Some v \<Longrightarrow> shown_user k v"
  shows "fmlookup (object_metadata (MetaObject_from fi)) k = fmlookup (metadata fi) k"
  using assms sys_not_reserved [OF assms(1), of fi]
  by (auto simp: object_metadata_def fmlookup_add_case MetaObject_from_def user_of_metadata_def split: option.split)

lemma object_into_fileinfo_fields:
  assumes "object_into_fileinfo ck caps vol path all_parts self = Some fi"
  shows "object_parts self all_parts = Some (parts fi)"
    "fi_version_id fi = non_nil (mo_version_id self)" "fi_data_dir fi = mo_data_dir self"
    "fi_mod_time fi = mo_mod_time self" "fi_size fi = mo_size self"
    "erasure fi = ErasureInfo_default
        \<lparr>ei_algorithm := ea_to_string (erasure_algorithm self), data_blocks := erasure_m self,
         parity_blocks := erasure_n self, ei_block_size := erasure_block_size self,
         ei_index := erasure_index self, distribution := map unat (erasure_dist self)\<rparr>"
    "fi_checksum fi = fmlookup (mo_meta_sys self) (reserved ''crc'')"
    "transition_status fi = sys_text (mo_meta_sys self) TRANSITION_STATUS"
    "transitioned_objname fi = sys_text (mo_meta_sys self) TRANSITIONED_OBJECTNAME"
    "transition_tier fi = sys_text (mo_meta_sys self) TRANSITION_TIER"
    "transition_version_id fi = sys_uuid (mo_meta_sys self) TRANSITIONED_VERSION_ID"
    "k \<noteq> AMZ_BUCKET_REPLICATION_STATUS \<Longrightarrow> fmlookup (metadata fi) k = fmlookup (object_metadata self) k"
    "fi_data fi = None"
proof -
  obtain ps where ps: "object_parts self all_parts = Some ps"
    using assms by (auto simp: object_into_fileinfo_def split: option.splits)
  note fi = assms [unfolded object_into_fileinfo_def ps option.case Let_def option.inject, symmetric]
  show "object_parts self all_parts = Some (parts fi)" unfolding ps fi by simp
  show "fi_version_id fi = non_nil (mo_version_id self)" "fi_data_dir fi = mo_data_dir self"
    "fi_mod_time fi = mo_mod_time self" "fi_size fi = mo_size self"
    "erasure fi = ErasureInfo_default
        \<lparr>ei_algorithm := ea_to_string (erasure_algorithm self), data_blocks := erasure_m self,
         parity_blocks := erasure_n self, ei_block_size := erasure_block_size self,
         ei_index := erasure_index self, distribution := map unat (erasure_dist self)\<rparr>"
    "fi_checksum fi = fmlookup (mo_meta_sys self) (reserved ''crc'')"
    "transition_status fi = sys_text (mo_meta_sys self) TRANSITION_STATUS"
    "transitioned_objname fi = sys_text (mo_meta_sys self) TRANSITIONED_OBJECTNAME"
    "transition_tier fi = sys_text (mo_meta_sys self) TRANSITION_TIER"
    "transition_version_id fi = sys_uuid (mo_meta_sys self) TRANSITIONED_VERSION_ID"
    unfolding fi by simp_all
  show "fi_data fi = None" unfolding fi by (simp add: FileInfo_default_def)
  show "fmlookup (metadata fi) k = fmlookup (object_metadata self) k" if "k \<noteq> AMZ_BUCKET_REPLICATION_STATUS"
    unfolding fi using that by (simp split: option.split)
qed

text \<open>The description read back agrees with the one that was stored.\<close>

definition described :: "FileInfo \<Rightarrow> FileInfo \<Rightarrow> bool" where
  "described fi fi' \<longleftrightarrow>
    fi_version_id fi' = non_nil (fi_version_id fi) \<and> fi_data_dir fi' = fi_data_dir fi
    \<and> fi_mod_time fi' = fi_mod_time fi \<and> fi_size fi' = fi_size fi \<and> parts fi' = parts fi
    \<and> ErasureInfo_equals (erasure fi') (erasure fi) \<and> ei_index (erasure fi') = ei_index (erasure fi)
    \<and> transition_info_equals fi' fi \<and> fi_checksum fi' = fi_checksum fi
    \<and> (\<forall>k v. fmlookup (metadata fi) k = Some v \<longrightarrow> \<not> reserved_key k \<longrightarrow> shown_user k v \<longrightarrow>
        k \<noteq> AMZ_BUCKET_REPLICATION_STATUS \<longrightarrow> fmlookup (metadata fi') k = Some v)"

lemma version_described:
  assumes st: "storable fi" and alg: "ei_algorithm (erasure fi) = ERASURE_ALGORITHM" and live: "\<not> deleted fi"
  obtains fi' where "version_into_fileinfo ck caps vol path True (FileMetaVersion_from fi) = Some fi'" "described fi fi'"
    "fi_data fi' = None"
proof -
  let ?o = "MetaObject_from fi"
  obtain fi' where fi': "object_into_fileinfo ck caps vol path True ?o = Some fi'"
    by (simp add: object_into_fileinfo_def parts_roundtrip [OF st] Let_def)
  note f = object_into_fileinfo_fields [OF fi'] and own = sys_own [OF st]
  have u: "is_utf8 (transition_status fi)" "is_utf8 (transitioned_objname fi)" "is_utf8 (transition_tier fi)"
    "\<forall>x \<in> set (distribution (erasure fi)). x < 256" using st by (simp_all add: storable_def)
  have sys: "mo_meta_sys ?o = sys_of_fileinfo fi" by (simp add: MetaObject_from_def)
  have dist: "map unat (erasure_dist ?o) = distribution (erasure fi)"
    using u(4) by (simp add: MetaObject_from_def o_def unat_of_nat map_idI)
  have into: "version_into_fileinfo ck caps vol path True (FileMetaVersion_from fi) = Some fi'"
    using fi' live by (simp add: version_into_fileinfo_def FileMetaVersion_from_def)
  have "ErasureInfo_equals (erasure fi') (erasure fi)" "ei_index (erasure fi') = ei_index (erasure fi)"
    unfolding f(6) dist by (simp_all add: ErasureInfo_equals_def same_elements_eq MetaObject_from_def alg)
  moreover have "transition_info_equals fi' fi"
    using sys_text_own [OF u(1) own(1)] sys_text_own [OF u(2) own(2)] sys_text_own [OF u(3) own(3)] own(4)
    by (simp add: transition_info_equals_def f(8-11) sys sys_uuid_def uuid_from_slice_def option.map_comp o_def option.map_ident)
  moreover have "fmlookup (metadata fi') k = Some v"
    if "fmlookup (metadata fi) k = Some v" "\<not> reserved_key k" "shown_user k v" "k \<noteq> AMZ_BUCKET_REPLICATION_STATUS" for k v
    using f(12) [OF that(4)] user_key_shown [OF that(2), of fi] that by simp
  moreover have "parts fi' = parts fi" using f(1) parts_roundtrip [OF st] by simp
  ultimately have "described fi fi'"
    using f(2-5,7) own(5) unfolding sys described_def by (auto simp: MetaObject_from_def)
  moreover have "fi_data fi' = None" using f(13) .
  ultimately show thesis using that into by blast
qed



definition sample_fi :: FileInfo where
  "sample_fi = FileInfo_default
    \<lparr>fi_version_id := Some 7, fi_mod_time := Some 1000, fi_size := 5,
     parts := [ObjectPartInfo_default\<lparr>p_etag := ''e'', p_number := 1, p_size := 5, p_actual_size := 5\<rparr>],
     erasure := ErasureInfo_default\<lparr>ei_algorithm := ERASURE_ALGORITHM, data_blocks := 2, parity_blocks := 2,
       distribution := [1, 2, 3, 4]\<rparr>,
     transition_tier := ''cold'', fi_checksum := Some [1, 2],
     metadata := fmupd ''etag'' ''e'' fmempty\<rparr>"

lemma is_utf8_ascii: "\<forall>c \<in> set s. of_char c < (128 :: nat) \<Longrightarrow> is_utf8 s"
proof -
  assume a: "\<forall>c \<in> set s. of_char c < (128 :: nat)"
  have "of_nat (of_char c) < (0x80 :: u8)" if "c \<in> set s" for c
    using a that by (simp add: word_less_nat_alt unat_of_nat)
  then show ?thesis by (auto simp: is_utf8_def str_bytes_def intro!: utf8_valid_ascii)
qed

lemma sample_fi_storable: "storable sample_fi"
  by (simp add: storable_def sample_fi_def FileInfo_default_def ErasureInfo_default_def ObjectPartInfo_default_def
      own_keys_def key_defs is_utf8_ascii)

definition sample_clock :: time_lib where
  "sample_clock = \<lparr>now_utc = 0, unix_timestamp = (\<lambda>t. t div 1000000000), rfc3339 = (\<lambda>_. None)\<rparr>"


end
