(* ===== verification/InlineData.thy ===== *)
theory InlineData
  imports FileMetaVersion
begin

text \<open>
  The data of small objects kept inside the metadata file, crates/filemeta/src/filemeta_inline.rs:
  a version byte and a message-pack map from version names to bytes. The message-pack primitives
  are the library rmp, here the record \<^verbatim>\<open>rmp\<close>: writers give the bytes they append, readers the value
  and the bytes after it. A cursor is the list of bytes after its position. None is a panic, Inl an
  error; an operation that fails leaves the data as it was.
\<close>

record rmp =
  write_map_len :: "nat \<Rightarrow> bytes"
  write_str :: "string \<Rightarrow> bytes"
  write_bin :: "bytes \<Rightarrow> bytes"
  read_map_len :: "bytes \<Rightarrow> (nat \<times> bytes) fm_result"
  read_str_len :: "bytes \<Rightarrow> (nat \<times> bytes) fm_result"
  read_bin_len :: "bytes \<Rightarrow> (nat \<times> bytes) fm_result"

text \<open>What the format promises: a length is read back and the content follows it.\<close>

definition rmp_laws :: "rmp \<Rightarrow> bool" where
  "rmp_laws rm \<longleftrightarrow>
    (\<forall>n rest. n < 2 ^ 32 \<longrightarrow> write_map_len rm n \<noteq> [] \<and> read_map_len rm (write_map_len rm n @ rest) = Inr (n, rest))
    \<and> (\<forall>s rest. length s < 2 ^ 32 \<longrightarrow> read_str_len rm (write_str rm s @ rest) = Inr (length s, str_bytes s @ rest))
    \<and> (\<forall>b rest. length b < 2 ^ 32 \<longrightarrow> read_bin_len rm (write_bin rm b @ rest) = Inr (length b, b @ rest))"

subsection \<open>Messages of the UTF-8 decoder\<close>

definition lead_width :: "u8 \<Rightarrow> nat" where
  "lead_width a =
    (if a < 0x80 then 1 else if 0xC2 \<le> a \<and> a \<le> 0xDF then 2 else if 0xE0 \<le> a \<and> a \<le> 0xEF then 3
     else if 0xF0 \<le> a \<and> a \<le> 0xF4 then 4 else 0)"

function utf8_message :: "nat \<Rightarrow> bytes \<Rightarrow> string" where
  "utf8_message i bs =
    (if bs = [] then []
     else
       (let n = fst (utf8_char bs) in
        if snd (utf8_char bs) then utf8_message (i + n) (drop n bs)
        else if n = length bs \<and> lead_width (hd bs) > n then ''incomplete utf-8 byte sequence from index '' @ show_nat i
        else ''invalid utf-8 sequence of '' @ show_nat n @ '' bytes from index '' @ show_nat i))"
  by pat_completeness auto
termination
  by (relation "measure (\<lambda>(i, bs). length bs)") (auto simp: utf8_char_pos)

subsection \<open>Operations\<close>

definition INLINE_DATA_VER :: u8 where "INLINE_DATA_VER = 1"

definition version_ok :: "bytes \<Rightarrow> bool" where
  "version_ok d = (if d = [] then True else hd d > 0 \<and> hd d \<le> INLINE_DATA_VER)"

definition after_version :: "bytes \<Rightarrow> bytes" where
  "after_version d = (if d = [] then d else tl d)"

definition inline_entries :: "rmp \<Rightarrow> bytes \<Rightarrow> nat fm_result" where
  "inline_entries rm d =
    (if d = [] \<or> \<not> version_ok d then Inr 0
     else (case read_map_len rm (after_version d) of Inl e \<Rightarrow> Inl e | Inr (n, _) \<Rightarrow> Inr n))"

text \<open>The key of the next entry; with it the length of the value and the cursor at the value.\<close>

definition read_key :: "rmp \<Rightarrow> bytes \<Rightarrow> (string \<times> bytes) fm_result" where
  "read_key rm cur =
    (case read_str_len rm cur of
       Inl e \<Rightarrow> Inl e
     | Inr (str_len, c) \<Rightarrow>
         if length c < str_len then Inl (fm_from_io (IoError UnexpectedEof (Plain ''failed to fill whole buffer'')))
         else (case from_utf8 (take str_len c) of
                 None \<Rightarrow> Inl (FmFromUtf8 (utf8_message 0 (take str_len c)))
               | Some field \<Rightarrow> Inr (field, drop str_len c)))"

definition read_entry :: "rmp \<Rightarrow> bytes \<Rightarrow> (string \<times> nat \<times> bytes) fm_result" where
  "read_entry rm cur =
    (case read_key rm cur of
       Inl e \<Rightarrow> Inl e
     | Inr (field, c) \<Rightarrow>
         (case read_bin_len rm c of Inl e \<Rightarrow> Inl e | Inr (bin_len, c') \<Rightarrow> Inr (field, bin_len, c')))"

fun find_loop :: "rmp \<Rightarrow> string \<Rightarrow> nat \<Rightarrow> bytes \<Rightarrow> bytes option fm_result option" where
  "find_loop rm key 0 cur = Some (Inr None)"
| "find_loop rm key (Suc fields_len) cur =
    (case read_entry rm cur of
       Inl e \<Rightarrow> Some (Inl e)
     | Inr (field, bin_len, c) \<Rightarrow>
         if field = key then (if bin_len \<le> length c then Some (Inr (Some (take bin_len c))) else None)
         else find_loop rm key fields_len (drop bin_len c))"

definition inline_find :: "rmp \<Rightarrow> string \<Rightarrow> bytes \<Rightarrow> bytes option fm_result option" where
  "inline_find rm key d =
    (if d = [] \<or> \<not> version_ok d then Some (Inr None)
     else (case read_map_len rm (after_version d) of
             Inl e \<Rightarrow> Some (Inl e)
           | Inr (n, cur) \<Rightarrow> find_loop rm key n cur))"

fun validate_loop :: "rmp \<Rightarrow> nat \<Rightarrow> bytes \<Rightarrow> unit fm_result" where
  "validate_loop rm 0 cur = Inr ()"
| "validate_loop rm (Suc fields_len) cur =
    (case read_key rm cur of
       Inl e \<Rightarrow> Inl e
     | Inr (field, c) \<Rightarrow>
         if field = [] then Inl (fm_other ''InlineData key empty'')
         else (case read_bin_len rm c of
                 Inl e \<Rightarrow> Inl e
               | Inr (bin_len, c') \<Rightarrow> validate_loop rm fields_len (drop bin_len c')))"

definition inline_validate :: "rmp \<Rightarrow> bytes \<Rightarrow> unit fm_result" where
  "inline_validate rm d =
    (if d = [] then Inr ()
     else (case read_map_len rm (after_version d) of Inl e \<Rightarrow> Inl e | Inr (n, cur) \<Rightarrow> validate_loop rm n cur))"

text \<open>The keys and values of all entries, as the loops of replace and remove collect them.\<close>

fun read_entries :: "rmp \<Rightarrow> nat \<Rightarrow> bytes \<Rightarrow> (string \<times> bytes) list fm_result option" where
  "read_entries rm 0 cur = Some (Inr [])"
| "read_entries rm (Suc fields_len) cur =
    (case read_entry rm cur of
       Inl e \<Rightarrow> Some (Inl e)
     | Inr (field, bin_len, c) \<Rightarrow>
         if bin_len \<le> length c
         then map_option (map_sum id ((#) (field, take bin_len c))) (read_entries rm fields_len (drop bin_len c))
         else None)"

definition serialize :: "rmp \<Rightarrow> (string \<times> bytes) list \<Rightarrow> bytes" where
  "serialize rm kvs =
    (if kvs = [] then []
     else INLINE_DATA_VER # write_map_len rm (length kvs mod 2 ^ 32)
       @ concat (map (\<lambda>(k, v). write_str rm k @ write_bin rm v) kvs))"

definition replaced :: "string \<Rightarrow> bytes \<Rightarrow> (string \<times> bytes) list \<Rightarrow> (string \<times> bytes) list" where
  "replaced key value kvs =
    (let kvs' = map (\<lambda>(k, v). (k, if k = key then value else v)) kvs in
     if key \<in> fst ` set kvs then kvs' else kvs' @ [(key, value)])"

definition inline_replace :: "rmp \<Rightarrow> string \<Rightarrow> bytes \<Rightarrow> bytes \<Rightarrow> bytes fm_result option" where
  "inline_replace rm key value d =
    (if after_version d = [] then Some (Inr (serialize rm [(key, value)]))
     else (case read_map_len rm (after_version d) of
             Inl e \<Rightarrow> Some (Inl e)
           | Inr (n, cur) \<Rightarrow>
               map_option (map_sum id (\<lambda>kvs. serialize rm (replaced key value kvs))) (read_entries rm n cur)))"

text \<open>The identifiers to remove are compared by their text.\<close>

definition inline_remove :: "rmp \<Rightarrow> string list \<Rightarrow> bytes \<Rightarrow> (bool \<times> bytes) fm_result option" where
  "inline_remove rm remove_keys d =
    (if after_version d = [] then Some (Inr (False, d))
     else (case read_map_len rm (after_version d) of
             Inl e \<Rightarrow> Some (Inl e)
           | Inr (n, cur) \<Rightarrow>
               map_option (map_sum id (\<lambda>kvs.
                 let kept = filter (\<lambda>(k, v). k \<notin> set remove_keys) kvs in
                 if length kept = length kvs then (False, d) else (True, serialize rm kept))) (read_entries rm n cur)))"

subsection \<open>The bytes as a map\<close>

text \<open>Entries that the format can hold.\<close>

definition entry_fits :: "string \<times> bytes \<Rightarrow> bool" where
  "entry_fits e \<longleftrightarrow> is_utf8 (fst e) \<and> length (fst e) < 2 ^ 32 \<and> length (snd e) < 2 ^ 32"

definition fits :: "(string \<times> bytes) list \<Rightarrow> bool" where
  "fits kvs \<longleftrightarrow> length kvs < 2 ^ 32 \<and> list_all entry_fits kvs"

definition entry_bytes :: "rmp \<Rightarrow> string \<times> bytes \<Rightarrow> bytes" where
  "entry_bytes rm e = write_str rm (fst e) @ write_bin rm (snd e)"

lemma length_str_bytes [simp]: "length (str_bytes s) = length s"
  by (simp add: str_bytes_def)

lemma read_key_entry:
  assumes "rmp_laws rm" "entry_fits e"
  shows "read_key rm (entry_bytes rm e @ rest) = Inr (fst e, write_bin rm (snd e) @ rest)"
  using assms by (simp add: read_key_def entry_bytes_def rmp_laws_def entry_fits_def)

lemma read_bin_entry:
  assumes "rmp_laws rm" "entry_fits e"
  shows "read_bin_len rm (write_bin rm (snd e) @ rest) = Inr (length (snd e), snd e @ rest)"
  using assms by (simp add: rmp_laws_def entry_fits_def)

lemma read_entry_entry:
  assumes "rmp_laws rm" "entry_fits e"
  shows "read_entry rm (entry_bytes rm e @ rest) = Inr (fst e, length (snd e), snd e @ rest)"
  using assms by (simp add: read_entry_def read_key_entry read_bin_entry)

lemma find_loop_entries:
  assumes "rmp_laws rm" "list_all entry_fits kvs"
  shows "find_loop rm key (length kvs) (concat (map (entry_bytes rm) kvs)) = Some (Inr (map_of kvs key))"
  using assms by (induction kvs) (auto simp: read_entry_entry)

lemma read_entries_entries:
  assumes "rmp_laws rm" "list_all entry_fits kvs"
  shows "read_entries rm (length kvs) (concat (map (entry_bytes rm) kvs)) = Some (Inr kvs)"
  using assms by (induction kvs) (auto simp: read_entry_entry)

lemma validate_loop_entries:
  assumes "rmp_laws rm" "list_all entry_fits kvs"
  shows "validate_loop rm (length kvs) (concat (map (entry_bytes rm) kvs)) =
    (if [] \<in> fst ` set kvs then Inl (fm_other ''InlineData key empty'') else Inr ())"
  using assms by (induction kvs) (auto simp: read_key_entry read_bin_entry)

lemma serialize_reads:
  assumes "rmp_laws rm" "fits kvs" "kvs \<noteq> []"
  shows "serialize rm kvs \<noteq> []" "version_ok (serialize rm kvs)" "after_version (serialize rm kvs) \<noteq> []"
    "read_map_len rm (after_version (serialize rm kvs)) = Inr (length kvs, concat (map (entry_bytes rm) kvs))"
  using assms
  by (simp_all add: serialize_def version_ok_def after_version_def INLINE_DATA_VER_def rmp_laws_def fits_def
      entry_bytes_def [abs_def] case_prod_unfold)

lemma inline_find_serialize:
  assumes "rmp_laws rm" "fits kvs"
  shows "inline_find rm key (serialize rm kvs) = Some (Inr (map_of kvs key))"
proof (cases "kvs = []")
  case False
  then show ?thesis using serialize_reads [OF assms False] assms
    by (simp add: inline_find_def find_loop_entries fits_def)
qed (simp add: inline_find_def serialize_def)

lemma inline_entries_serialize:
  assumes "rmp_laws rm" "fits kvs"
  shows "inline_entries rm (serialize rm kvs) = Inr (length kvs)"
proof (cases "kvs = []")
  case False
  then show ?thesis using serialize_reads [OF assms False] by (simp add: inline_entries_def)
qed (simp add: inline_entries_def serialize_def)

lemma inline_validate_serialize:
  assumes "rmp_laws rm" "fits kvs"
  shows "inline_validate rm (serialize rm kvs) = Inr () \<longleftrightarrow> [] \<notin> fst ` set kvs"
proof (cases "kvs = []")
  case False
  then show ?thesis using serialize_reads [OF assms False] assms
    by (simp add: inline_validate_def validate_loop_entries fits_def)
qed (simp add: inline_validate_def serialize_def)

lemma inline_replace_serialize:
  assumes "rmp_laws rm" "fits kvs"
  shows "inline_replace rm key value (serialize rm kvs) = Some (Inr (serialize rm (replaced key value kvs)))"
proof (cases "kvs = []")
  case False
  then show ?thesis using serialize_reads [OF assms False] assms
    by (simp add: inline_replace_def read_entries_entries fits_def)
qed (simp add: inline_replace_def serialize_def after_version_def replaced_def)

lemma kept_all: "length (filter P kvs) = length kvs \<longleftrightarrow> list_all P kvs"
proof (induction kvs)
  case (Cons a kvs)
  have "length (filter P kvs) \<noteq> Suc (length kvs)" by (metis Suc_n_not_le_n length_filter_le)
  then show ?case using Cons by auto
qed simp

lemma inline_remove_serialize:
  assumes "rmp_laws rm" "fits kvs"
  shows "inline_remove rm ks (serialize rm kvs) =
    (let kept = filter (\<lambda>(k, v). k \<notin> set ks) kvs in Some (Inr (kept \<noteq> kvs, serialize rm kept)))"
proof (cases "kvs = []")
  case False
  let ?kept = "filter (\<lambda>(k, v). k \<notin> set ks) kvs"
  have "length ?kept = length kvs \<longleftrightarrow> ?kept = kvs"
    unfolding kept_all by (auto simp: list_all_iff filter_id_conv)
  then show ?thesis using serialize_reads [OF assms False] assms
    by (simp add: inline_remove_def read_entries_entries fits_def Let_def)
qed (simp add: inline_remove_def serialize_def after_version_def)

lemma map_of_replaced: "map_of (replaced key value kvs) = (map_of kvs)(key \<mapsto> value)"
proof -
  have "map_of (map (\<lambda>(k, v). (k, if k = key then value else v)) kvs) k =
    (if k = key then (if key \<in> fst ` set kvs then Some value else None) else map_of kvs k)" for k
    by (induction kvs) (auto, force)
  then show ?thesis by (auto simp: replaced_def Let_def map_add_def fun_eq_iff split: option.split)
qed

lemma fits_replaced:
  assumes "fits kvs" "entry_fits (key, value)" "Suc (length kvs) < 2 ^ 32"
  shows "fits (replaced key value kvs)"
  using assms by (auto simp: fits_def replaced_def Let_def list_all_iff entry_fits_def)

text \<open>
  C38: The inline data is a map from version names to bytes: storing a value makes exactly that
  name answer with it, removing names makes exactly those answer with nothing, and the number
  of entries and the validity of the bytes follow the entries.
\<close>

theorem inline_data_map:
  assumes "rmp_laws rm" "fits kvs" "entry_fits (key, value)" "Suc (length kvs) < 2 ^ 32"
  shows "(\<exists>d. inline_replace rm key value (serialize rm kvs) = Some (Inr d)
      \<and> (\<forall>k. inline_find rm k d = Some (Inr (if k = key then Some value else map_of kvs k)))
      \<and> inline_entries rm d = Inr (if key \<in> fst ` set kvs then length kvs else Suc (length kvs)))
    \<and> (\<exists>r d. inline_remove rm ks (serialize rm kvs) = Some (Inr (r, d))
      \<and> (\<forall>k. inline_find rm k d = Some (Inr (if k \<in> set ks then None else map_of kvs k)))
      \<and> (r \<longleftrightarrow> set ks \<inter> fst ` set kvs \<noteq> {}))
    \<and> (inline_validate rm (serialize rm kvs) = Inr () \<longleftrightarrow> [] \<notin> fst ` set kvs)"
proof -
  let ?kept = "filter (\<lambda>(k, v). k \<notin> set ks) kvs"
  have f: "fits ?kept" using assms(2)
    by (auto simp: fits_def list_all_iff intro: le_less_trans [OF length_filter_le])
  have m: "map_of ?kept k = (if k \<in> set ks then None else map_of kvs k)" for k by (induction kvs) auto
  have r: "?kept \<noteq> kvs \<longleftrightarrow> set ks \<inter> fst ` set kvs \<noteq> {}" by (force simp: filter_id_conv)
  have l: "length (replaced key value kvs) = (if key \<in> fst ` set kvs then length kvs else Suc (length kvs))"
    by (simp add: replaced_def Let_def)
  note g = fits_replaced [OF assms(2-4)]
  have "\<exists>d. inline_replace rm key value (serialize rm kvs) = Some (Inr d)
      \<and> (\<forall>k. inline_find rm k d = Some (Inr (if k = key then Some value else map_of kvs k)))
      \<and> inline_entries rm d = Inr (if key \<in> fst ` set kvs then length kvs else Suc (length kvs))"
    by (rule exI [where x = "serialize rm (replaced key value kvs)"])
      (simp add: inline_replace_serialize [OF assms(1,2)] inline_find_serialize [OF assms(1) g] map_of_replaced
        inline_entries_serialize [OF assms(1) g] l)
  moreover have "\<exists>b d. inline_remove rm ks (serialize rm kvs) = Some (Inr (b, d))
      \<and> (\<forall>k. inline_find rm k d = Some (Inr (if k \<in> set ks then None else map_of kvs k)))
      \<and> (b \<longleftrightarrow> set ks \<inter> fst ` set kvs \<noteq> {})"
    by (rule exI [where x = "?kept \<noteq> kvs"], rule exI [where x = "serialize rm ?kept"])
      (simp only: inline_remove_serialize [OF assms(1,2)] Let_def r inline_find_serialize [OF assms(1) f] m simp_thms)
  ultimately show ?thesis using inline_validate_serialize [OF assms(1,2)] by simp
qed

text \<open>A plain instance of the format: lengths as four bytes.\<close>

definition read_len4 :: "bytes \<Rightarrow> (nat \<times> bytes) fm_result" where
  "read_len4 b = (if length b < 4 then Inl FmUnexpected else Inr (be_nat (take 4 b), drop 4 b))"

definition rmp4 :: rmp where
  "rmp4 = \<lparr>write_map_len = be_bytes 4, write_str = (\<lambda>s. be_bytes 4 (length s) @ str_bytes s),
     write_bin = (\<lambda>b. be_bytes 4 (length b) @ b),
     read_map_len = read_len4, read_str_len = read_len4, read_bin_len = read_len4\<rparr>"

lemma rmp4_laws: "rmp_laws rmp4"
proof -
  have l: "length (be_bytes 4 n) = 4" for n by simp
  then have ne: "be_bytes 4 n \<noteq> []" for n by (metis list.size(3) zero_neq_numeral)
  have r: "read_len4 (be_bytes 4 n @ rest) = Inr (n, rest)" if "n < 2 ^ 32" for n rest
    using that by (simp add: read_len4_def be_nat_be_bytes)
  show ?thesis using ne r by (simp add: rmp_laws_def rmp4_def del: be_bytes.simps)
qed

theorem inline_data_map_witness:
  "(\<exists>d. inline_replace rmp4 ''v2'' [3] (serialize rmp4 [(''v1'', [1, 2])]) = Some (Inr d)
      \<and> inline_find rmp4 ''v2'' d = Some (Inr (Some [3])) \<and> inline_find rmp4 ''v1'' d = Some (Inr (Some [1, 2])))
    \<and> (\<exists>r d. inline_remove rmp4 [''v1''] (serialize rmp4 [(''v1'', [1, 2])]) = Some (Inr (r, d))
      \<and> r \<and> inline_find rmp4 ''v1'' d = Some (Inr None))"
proof -
  have "fits [(''v1'', [1, 2])]" "entry_fits (''v2'', [3])" "Suc (length [(''v1'', [1, 2 :: u8])]) < 2 ^ 32"
    by (simp_all add: fits_def entry_fits_def is_utf8_ascii)
  note t = inline_data_map [OF rmp4_laws this, of "[''v1'']"]
  show ?thesis using t [THEN conjunct1] t [THEN conjunct2, THEN conjunct1] by fastforce
qed

end
