(* ===== verification/FileMeta.thy ===== *)
theory FileMeta
  imports InlineData
begin

text \<open>
  The metadata file of an object, crates/filemeta/src/filemeta.rs with filemeta/inline_data.rs
  and filemeta/validation.rs: the list of its versions, newest first, and the operations that
  add, update, delete and describe versions. An operation gives the new file and its result,
  also when it fails; None is a panic. What the libraries for identifiers, times and
  serialisation do is the record \<^verbatim>\<open>libs\<close>.
\<close>

record libs =
  lb_time :: time_lib
  lb_caps :: captures
  lb_serde :: serde
  lb_rmp :: rmp
  uuid_text :: "uuid \<Rightarrow> string"
  parse_str :: "string \<Rightarrow> uuid fm_result"
  time_text :: "time \<Rightarrow> string"

record FileMeta =
  fm_versions :: "FileMetaShallowVersion list"
  fm_data :: bytes
  meta_ver :: u8

definition XL_META_VERSION :: u8 where "XL_META_VERSION = 2"

definition FileMeta_new :: FileMeta where
  "FileMeta_new = \<lparr>fm_versions = [], fm_data = [], meta_ver = XL_META_VERSION\<rparr>"

subsection \<open>Positions and sorting\<close>

fun position :: "('a \<Rightarrow> bool) \<Rightarrow> 'a list \<Rightarrow> nat option" where
  "position P [] = None"
| "position P (x # xs) = (if P x then Some 0 else map_option Suc (position P xs))"

definition insert_at :: "nat \<Rightarrow> 'a \<Rightarrow> 'a list \<Rightarrow> 'a list" where
  "insert_at i x xs = take i xs @ x # drop i xs"

definition remove_at :: "nat \<Rightarrow> 'a list \<Rightarrow> 'a list" where
  "remove_at i xs = take i xs @ drop (Suc i) xs"

text \<open>slice::sort_by is stable; its comparator is given as the test for not greater.\<close>

fun insert_by :: "('a \<Rightarrow> 'a \<Rightarrow> bool) \<Rightarrow> 'a \<Rightarrow> 'a list \<Rightarrow> 'a list" where
  "insert_by le x [] = [x]"
| "insert_by le x (y # ys) = (if le x y then x # y # ys else y # insert_by le x ys)"

definition sort_by :: "('a \<Rightarrow> 'a \<Rightarrow> bool) \<Rightarrow> 'a list \<Rightarrow> 'a list" where
  "sort_by le xs = foldr (insert_by le) xs []"

text \<open>The order of headers and of versions with their encoded form.\<close>

definition header_key :: "FileMetaVersionHeader \<Rightarrow> time option \<times> VersionType \<times> bytes \<times> uuid option \<times> u8" where
  "header_key h = (vh_mod_time h, vh_version_type h, signature h, vh_version_id h, vh_flags h)"

definition shallow_le :: "FileMetaShallowVersion \<Rightarrow> FileMetaShallowVersion \<Rightarrow> bool" where
  "shallow_le a b \<longleftrightarrow> (header_key (header a), meta a) \<le> (header_key (header b), meta b)"

definition newer_first :: "FileMetaShallowVersion \<Rightarrow> FileMetaShallowVersion \<Rightarrow> bool" where
  "newer_first a b =
    (if vh_mod_time (header a) \<noteq> vh_mod_time (header b) then vh_mod_time (header b) \<le> vh_mod_time (header a)
     else if vh_version_type (header a) \<noteq> vh_version_type (header b)
     then vh_version_type (header b) \<le> vh_version_type (header a)
     else if vh_version_id (header a) \<noteq> vh_version_id (header b)
     then vh_version_id (header b) \<le> vh_version_id (header a)
     else if vh_flags (header a) \<noteq> vh_flags (header b) then vh_flags (header b) \<le> vh_flags (header a)
     else shallow_le b a)"

definition sort_by_mod_time :: "FileMeta \<Rightarrow> FileMeta" where
  "sort_by_mod_time self =
    (if length (fm_versions self) \<le> 1 then self
     else self\<lparr>fm_versions := sort_by newer_first (fm_versions self)\<rparr>)"

subsection \<open>Access by index and by identifier\<close>

definition get_idx :: "libs \<Rightarrow> nat \<Rightarrow> FileMeta \<Rightarrow> FileMetaVersion fm_result option" where
  "get_idx lb idx self =
    (if idx > length (fm_versions self) then Some (Inl FmFileNotFound)
     else if idx = length (fm_versions self) then None
     else Some (from_slice (lb_serde lb) (meta (fm_versions self ! idx))))"

definition set_idx :: "libs \<Rightarrow> nat \<Rightarrow> FileMetaVersion \<Rightarrow> FileMeta \<Rightarrow> FileMeta \<times> unit fm_result" where
  "set_idx lb idx ver self =
    (if idx \<ge> length (fm_versions self) then (self, Inl FmFileNotFound)
     else
       (case to_vec (lb_serde lb) ver of
          Inl e \<Rightarrow> (self, Inl e)
        | Inr meta_buf \<Rightarrow>
            (let pre_mod_time = vh_mod_time (header (fm_versions self ! idx));
                 h = version_header (lb_time lb) ver;
                 self' = self\<lparr>fm_versions := (fm_versions self)[idx := \<lparr>header = h, meta = meta_buf\<rparr>]\<rparr>
             in (if pre_mod_time \<noteq> vh_mod_time h then sort_by_mod_time self' else self', Inr ()))))"

definition find_version :: "libs \<Rightarrow> uuid option \<Rightarrow> FileMeta \<Rightarrow> (nat \<times> FileMetaVersion) fm_result option" where
  "find_version lb vid self =
    (let vid' = (case vid of Some u \<Rightarrow> u | None \<Rightarrow> 0) in
     case position (\<lambda>v. vh_version_id (header v) = Some vid') (fm_versions self) of
       None \<Rightarrow> Some (Inl FmFileVersionNotFound)
     | Some i \<Rightarrow> map_option (map_sum id (Pair i)) (get_idx lb i self))"

definition find_version_str :: "libs \<Rightarrow> string \<Rightarrow> FileMeta \<Rightarrow> (nat \<times> FileMetaVersion) fm_result option" where
  "find_version_str lb version_id self =
    (if version_id = [] then Some (Inl (fm_other ''empty version ID''))
     else (case parse_str lb version_id of
             Inl e \<Rightarrow> Some (Inl e)
           | Inr u \<Rightarrow> find_version lb (Some u) self))"

subsection \<open>Updating the metadata of a version\<close>

definition update_meta :: "FileInfo \<Rightarrow> FileMetaVersion \<Rightarrow> FileMetaVersion" where
  "update_meta fi ver =
    ver\<lparr>fv_object := map_option (\<lambda>obj.
      (obj\<lparr>mo_meta_sys := fmadd (mo_meta_sys obj) (sys_of_metadata (metadata fi)),
           meta_user := fmadd (meta_user obj) (user_of_metadata (metadata fi)),
           mo_mod_time := (case fi_mod_time fi of Some t \<Rightarrow> Some t | None \<Rightarrow> mo_mod_time obj)\<rparr>)) (fv_object ver)\<rparr>"

definition or_nil :: "uuid option \<Rightarrow> uuid option" where
  "or_nil v = (case v of None \<Rightarrow> Some 0 | Some u \<Rightarrow> Some u)"

fun update_loop :: "libs \<Rightarrow> FileInfo \<Rightarrow> FileMetaShallowVersion list \<Rightarrow> FileMetaShallowVersion list \<times> unit fm_result" where
  "update_loop lb fi [] = ([], Inr ())"
| "update_loop lb fi (version # rest) =
    (let go = (\<lambda>v. let r = update_loop lb fi rest in (v # fst r, snd r)) in
     case vh_version_type (header version) of
       VtObject \<Rightarrow>
         (if or_nil (vh_version_id (header version)) = or_nil (fi_version_id fi) then
            (case from_slice (lb_serde lb) (meta version) of
               Inl e \<Rightarrow> (version # rest, Inl e)
             | Inr ver0 \<Rightarrow>
                 (let ver = update_meta fi ver0;
                      version' = version\<lparr>header := version_header (lb_time lb) ver\<rparr> in
                  case to_vec (lb_serde lb) ver of
                    Inl e \<Rightarrow> (version' # rest, Inl e)
                  | Inr b \<Rightarrow> go (version'\<lparr>meta := b\<rparr>)))
          else go version)
     | VtDelete \<Rightarrow>
         (if vh_version_id (header version) = fi_version_id fi then (version # rest, Inl FmMethodNotAllowed)
          else go version)
     | _ \<Rightarrow> go version)"

definition update_object_version :: "libs \<Rightarrow> FileInfo \<Rightarrow> FileMeta \<Rightarrow> FileMeta \<times> unit fm_result" where
  "update_object_version lb fi self =
    (case update_loop lb fi (fm_versions self) of
       (vs, Inl e) \<Rightarrow> (self\<lparr>fm_versions := vs\<rparr>, Inl e)
     | (vs, Inr _) \<Rightarrow> (self\<lparr>fm_versions := sort_by newer_first vs\<rparr>, Inr ()))"

subsection \<open>Adding a version\<close>

definition not_newer :: "time option \<Rightarrow> FileMetaShallowVersion \<Rightarrow> bool" where
  "not_newer mod_time exist =
    (case (vh_mod_time (header exist), mod_time) of (Some ex_mt, Some in_md) \<Rightarrow> ex_mt \<le> in_md | _ \<Rightarrow> False)"

definition add_version_filemata :: "libs \<Rightarrow> FileMetaVersion \<Rightarrow> FileMeta \<Rightarrow> FileMeta \<times> unit fm_result" where
  "add_version_filemata lb version self =
    (if \<not> version_valid version then (self, Inl (fm_other ''file meta version invalid''))
     else if fm_versions self = [] then
       (case shallow_from (lb_time lb) (lb_serde lb) version of
          Inl e \<Rightarrow> (self, Inl e)
        | Inr s \<Rightarrow> (self\<lparr>fm_versions := [s]\<rparr>, Inr ()))
     else
       (case position (\<lambda>v. vh_version_id (header v) = get_version_id version) (fm_versions self) of
          Some fidx \<Rightarrow> set_idx lb fidx version self
        | None \<Rightarrow>
            (case position (not_newer (get_mod_time version)) (fm_versions self) of
               None \<Rightarrow> (self, Inl (fm_other ''add_version failed''))
             | Some idx \<Rightarrow>
                 (case shallow_from (lb_time lb) (lb_serde lb) version of
                    Inl e \<Rightarrow> (self, Inl e)
                  | Inr s \<Rightarrow> (self\<lparr>fm_versions := insert_at idx s (fm_versions self)\<rparr>, Inr ())))))"

definition add_version :: "libs \<Rightarrow> FileInfo \<Rightarrow> FileMeta \<Rightarrow> (FileMeta \<times> unit fm_result) option" where
  "add_version lb fi0 self =
    (let fi = fi0\<lparr>fi_version_id := or_nil (fi_version_id fi0)\<rparr>;
         key = uuid_text lb (case fi_version_id fi of Some u \<Rightarrow> u | None \<Rightarrow> 0) in
     case fi_data fi of
       None \<Rightarrow> Some (add_version_filemata lb (FileMetaVersion_from fi) self)
     | Some d \<Rightarrow>
         (case inline_replace (lb_rmp lb) key d (fm_data self) of
            None \<Rightarrow> None
          | Some (Inl e) \<Rightarrow> Some (self, Inl e)
          | Some (Inr data') \<Rightarrow>
              Some (add_version_filemata lb (FileMetaVersion_from fi) (self\<lparr>fm_data := data'\<rparr>))))"

subsection \<open>Data directories\<close>

definition result_default :: "'a \<Rightarrow> 'a fm_result \<Rightarrow> 'a" where
  "result_default d r = (case r of Inl _ \<Rightarrow> d | Inr x \<Rightarrow> x)"

definition shard_data_dir_count :: "libs \<Rightarrow> uuid option \<Rightarrow> uuid option \<Rightarrow> FileMeta \<Rightarrow> nat" where
  "shard_data_dir_count lb vid data_dir self =
    (let u = (case vid of Some u \<Rightarrow> u | None \<Rightarrow> 0);
         vs = filter (\<lambda>v. vh_version_type (header v) = VtObject \<and> vh_version_id (header v) \<noteq> Some u
                \<and> header_uses_data_dir (header v)) (fm_versions self)
     in length (filter (\<lambda>v. result_default None (decode_data_dir_from_meta (lb_serde lb) (meta v)) = data_dir) vs))"

fun data_dirs_loop :: "libs \<Rightarrow> FileMetaShallowVersion list \<Rightarrow> uuid option list fm_result" where
  "data_dirs_loop lb [] = Inr []"
| "data_dirs_loop lb (v # vs) =
    (if vh_version_type (header v) = VtObject then
       (case from_slice (lb_serde lb) (meta v) of
          Inl e \<Rightarrow> Inl e
        | Inr ver \<Rightarrow> map_sum id ((#) (version_data_dir ver)) (data_dirs_loop lb vs))
     else data_dirs_loop lb vs)"

definition get_data_dirs :: "libs \<Rightarrow> FileMeta \<Rightarrow> uuid option list fm_result" where
  "get_data_dirs lb self = data_dirs_loop lb (fm_versions self)"

definition shares_dir :: "libs \<Rightarrow> uuid \<Rightarrow> uuid option \<Rightarrow> FileMetaShallowVersion \<Rightarrow> bool" where
  "shares_dir lb version_id data_dir v \<longleftrightarrow>
    vh_version_type (header v) = VtObject \<and> vh_version_id (header v) \<noteq> Some version_id
    \<and> header_uses_data_dir (header v)
    \<and> (case decode_data_dir_from_meta (lb_serde lb) (meta v) of
         Inl _ \<Rightarrow> False | Inr dir \<Rightarrow> dir \<noteq> None \<and> dir = data_dir)"

definition shared_data_dir_count :: "libs \<Rightarrow> uuid option \<Rightarrow> uuid option \<Rightarrow> FileMeta \<Rightarrow> nat option" where
  "shared_data_dir_count lb vid data_dir self =
    (let version_id = (case vid of Some u \<Rightarrow> u | None \<Rightarrow> 0);
         n = length (filter (shares_dir lb version_id data_dir) (fm_versions self)) in
     if result_default 0 (inline_entries (lb_rmp lb) (fm_data self)) > 0 then
       (case inline_find (lb_rmp lb) (uuid_text lb version_id) (fm_data self) of
          None \<Rightarrow> None
        | Some r \<Rightarrow> if result_default None r \<noteq> None then Some 0 else Some n)
     else Some n)"

subsection \<open>Deleting a version\<close>

definition repl_state :: "FileInfo \<Rightarrow> (ReplicationState \<Rightarrow> 'a) \<Rightarrow> 'a \<Rightarrow> 'a" where
  "repl_state fi f d = (case replication_state_internal fi of Some v \<Rightarrow> f v | None \<Rightarrow> d)"

definition text_or_empty :: "string option \<Rightarrow> string" where
  "text_or_empty v = (case v of Some s \<Rightarrow> s | None \<Rightarrow> [])"

definition time_or_epoch :: "time option \<Rightarrow> time" where
  "time_or_epoch v = (case v of Some t \<Rightarrow> t | None \<Rightarrow> 0)"

text \<open>The replication state a delete marker records in its metadata.\<close>

definition marker_replication :: "libs \<Rightarrow> FileInfo \<Rightarrow> (string, bytes) fmap \<Rightarrow> (string, bytes) fmap" where
  "marker_replication lb fi sys =
    (if delete_marker_replication_status fi = REmpty then sys
     else if delete_marker_replication_status fi = RReplica then
       fmupd (reserved ''replica-timestamp'')
         (str_bytes (repl_state fi (\<lambda>v. time_text lb (time_or_epoch (replica_timestamp v))) []))
       (fmupd (reserved ''replica-status'') (str_bytes (status_as_str (repl_state fi replica_status REmpty))) sys)
     else
       fmupd (reserved ''replication-timestamp'')
         (str_bytes (repl_state fi (\<lambda>v. time_text lb (time_or_epoch (replication_timestamp v))) []))
       (fmupd (reserved ''replication-status'')
         (str_bytes (repl_state fi (\<lambda>v. text_or_empty (replication_status_internal v)) [])) sys))"

definition purge_text :: "FileInfo \<Rightarrow> bytes" where
  "purge_text fi = str_bytes (repl_state fi (\<lambda>v. text_or_empty (version_purge_status_internal v)) [])"

definition reset_entries :: "FileInfo \<Rightarrow> (string, bytes) fmap" where
  "reset_entries fi = fmmap str_bytes (repl_state fi reset_statuses_map fmempty)"

definition delete_vid :: "FileInfo \<Rightarrow> uuid option" where
  "delete_vid fi = Some (case fi_version_id fi of Some u \<Rightarrow> u | None \<Rightarrow> 0)"

text \<open>The delete marker a deletion may add.\<close>

definition delete_entry :: "libs \<Rightarrow> FileInfo \<Rightarrow> FileMetaVersion" where
  "delete_entry lb fi =
    (if deleted fi then
       (let s1 = marker_replication lb fi fmempty;
            s2 = (if version_purge_status fi \<noteq> VEmpty then fmupd VERSION_PURGE_STATUS_KEY (purge_text fi) s1 else s1);
            s3 = fmadd s2 (reset_entries fi) in
        FileMetaVersion_default\<lparr>fv_version_type := VtDelete,
          fv_delete_marker := Some \<lparr>dm_version_id = delete_vid fi, dm_mod_time = fi_mod_time fi, dm_meta_sys = s3\<rparr>\<rparr>)
     else FileMetaVersion_default)"

definition update_version :: "FileInfo \<Rightarrow> bool" where
  "update_version fi =
    (let purge = version_purge_status fi; dm = delete_marker_replication_status fi in
     if purge = VEmpty \<and> (dm = RReplica \<or> dm = REmpty) then mark_deleted fi
     else deleted fi \<and> purge \<noteq> VComplete \<and> (purge \<noteq> VEmpty \<or> dm = REmpty)
       \<or> purge \<noteq> VEmpty \<and> purge \<noteq> VComplete)"

text \<open>
  The loop over the versions: the index and type of the version it acts on at once, or the
  last object with the identifier.
\<close>

fun delete_scan ::
  "uuid option \<Rightarrow> bool \<Rightarrow> nat \<Rightarrow> FileMetaShallowVersion list \<Rightarrow> nat option \<Rightarrow> (nat \<times> VersionType) + nat option" where
  "delete_scan vid upd i [] found = Inr found"
| "delete_scan vid upd i (ver # vs) found =
    (if vh_version_id (header ver) \<noteq> vid then delete_scan vid upd (Suc i) vs found
     else if vh_version_type (header ver) = VtObject \<and> \<not> upd then delete_scan vid upd (Suc i) vs (Some i)
     else Inl (i, vh_version_type (header ver)))"

definition update_marker :: "libs \<Rightarrow> FileInfo \<Rightarrow> FileMetaVersion \<Rightarrow> FileMetaVersion" where
  "update_marker lb fi v =
    (let m = (case fv_delete_marker v of
                Some m \<Rightarrow> m
              | None \<Rightarrow> \<lparr>dm_version_id = delete_vid fi, dm_mod_time = fi_mod_time fi, dm_meta_sys = fmempty\<rparr>)
     in v\<lparr>fv_delete_marker :=
          Some (m\<lparr>dm_meta_sys := fmadd (marker_replication lb fi (dm_meta_sys m)) (reset_entries fi)\<rparr>)\<rparr>)"

definition update_purge :: "FileInfo \<Rightarrow> FileMetaVersion \<Rightarrow> FileMetaVersion" where
  "update_purge fi v =
    v\<lparr>fv_object := map_option (\<lambda>obj. obj\<lparr>mo_meta_sys :=
        fmadd (fmupd VERSION_PURGE_STATUS_KEY (purge_text fi) (mo_meta_sys obj)) (reset_entries fi)\<rparr>) (fv_object v)\<rparr>"

text \<open>Adding the delete marker where the version is not there as an object.\<close>

definition add_marker :: "libs \<Rightarrow> FileInfo \<Rightarrow> FileMeta \<Rightarrow> FileMeta \<times> uuid option fm_result" where
  "add_marker lb fi self =
    (if deleted fi then map_prod id (map_sum id (\<lambda>_. None)) (add_version_filemata lb (delete_entry lb fi) self)
     else (self, Inl FmFileVersionNotFound))"

definition set_result :: "uuid option \<Rightarrow> FileMeta \<times> unit fm_result \<Rightarrow> FileMeta \<times> uuid option fm_result" where
  "set_result dir r = map_prod id (map_sum id (\<lambda>_. dir)) r"

definition err_of :: "FileMeta \<times> unit fm_result \<Rightarrow> FileMeta \<times> Error option" where
  "err_of r = map_prod id (\<lambda>x. case x of Inl e \<Rightarrow> Some e | Inr _ \<Rightarrow> None) r"

text \<open>Removing the object at an index: expiry of a restored copy, transition, or deletion proper.\<close>

definition delete_object :: "libs \<Rightarrow> FileInfo \<Rightarrow> nat \<Rightarrow> FileMetaVersion \<Rightarrow> MetaObject \<Rightarrow> FileMeta \<Rightarrow> (FileMeta \<times> Error option) option" where
  "delete_object lb fi i ver obj self =
    (if expire_restored fi then Some (err_of (set_idx lb i (ver\<lparr>fv_object := Some (remove_restore_hdrs obj)\<rparr>) self))
     else if transition_status fi = TRANSITION_COMPLETE then
       Some (err_of (set_idx lb i (ver\<lparr>fv_object := Some (reset_inline_data (set_transition fi obj))\<rparr>) self))
     else
       (let self1 = self\<lparr>fm_versions := remove_at i (fm_versions self)\<rparr> in
        case init_free_version (\<lambda>t. case parse_str lb t of Inl _ \<Rightarrow> None | Inr u \<Rightarrow> Some u) fi obj of
          None \<Rightarrow> None
        | Some (free_version, to_free) \<Rightarrow>
            if to_free then Some (err_of (add_version_filemata lb free_version self1)) else Some (self1, None)))"

definition delete_version :: "libs \<Rightarrow> FileInfo \<Rightarrow> FileMeta \<Rightarrow> (FileMeta \<times> uuid option fm_result) option" where
  "delete_version lb fi self =
    (if deleted fi \<and> \<not> FileInfo_is_valid fi then Some (self, Inl (fm_other ''invalid file meta version''))
     else
       (case delete_scan (delete_vid fi) (update_version fi \<and> \<not> deleted fi) 0 (fm_versions self) None of
          Inl (i, VtDelete) \<Rightarrow>
            (if update_version fi then
               (case get_idx lb i self of
                  None \<Rightarrow> None
                | Some (Inl e) \<Rightarrow> Some (self, Inl e)
                | Some (Inr v) \<Rightarrow> Some (set_result None (set_idx lb i (update_marker lb fi v) self)))
             else
               (let self1 = self\<lparr>fm_versions := remove_at i (fm_versions self)\<rparr> in
                if (mark_deleted fi \<and> version_purge_status fi \<noteq> VComplete) \<or> (deleted fi \<and> delete_vid fi = Some 0)
                then Some (set_result None (add_version_filemata lb (delete_entry lb fi) self1))
                else Some (self1, Inr None)))
        | Inl (i, VtObject) \<Rightarrow>
            (case get_idx lb i self of
               None \<Rightarrow> None
             | Some (Inl e) \<Rightarrow> Some (self, Inl e)
             | Some (Inr v) \<Rightarrow>
                 (let old_dir = (case fv_object v of Some obj \<Rightarrow> mo_data_dir obj | None \<Rightarrow> None) in
                  Some (set_result old_dir (set_idx lb i (update_purge fi v) self))))
        | Inl (i, _) \<Rightarrow> Some (self, Inl (fm_other ''invalid file meta version''))
        | Inr None \<Rightarrow> Some (add_marker lb fi self)
        | Inr (Some i) \<Rightarrow>
            (case get_idx lb i self of
               None \<Rightarrow> None
             | Some (Inl e) \<Rightarrow> Some (self, Inl e)
             | Some (Inr ver) \<Rightarrow>
                 (case fv_object ver of
                    None \<Rightarrow> Some (add_marker lb fi self)
                  | Some obj \<Rightarrow>
                      (case delete_object lb fi i ver obj self of
                         None \<Rightarrow> None
                       | Some (self1, err1) \<Rightarrow>
                           (let (self2, err) = (if deleted fi then err_of (add_version_filemata lb (delete_entry lb fi) self1)
                                                else (self1, err1)) in
                            case shared_data_dir_count lb (mo_version_id obj) (mo_data_dir obj) self2 of
                              None \<Rightarrow> None
                            | Some n \<Rightarrow>
                                if n > 0 then Some (self2, Inr None)
                                else (case err of Some e \<Rightarrow> Some (self2, Inl e)
                                                | None \<Rightarrow> Some (self2, Inr (mo_data_dir obj)))))))))"

subsection \<open>Describing one version\<close>

record into_state =
  it_latest :: bool
  it_succ :: "time option"
  it_non_free :: nat
  it_found :: bool
  it_free :: "FileInfo option"
  it_fi :: "FileInfo option"

text \<open>The first free version that decodes, when free versions are asked for.\<close>

definition free_description ::
  "libs \<Rightarrow> string \<Rightarrow> string \<Rightarrow> bool \<Rightarrow> FileMetaShallowVersion \<Rightarrow> FileInfo option option" where
  "free_description lb vol path all_parts ver =
    (case from_slice (lb_serde lb) (meta ver) of
       Inl _ \<Rightarrow> Some None
     | Inr v \<Rightarrow>
         if fv_version_type v \<noteq> VtInvalid
         then map_option (\<lambda>fi. Some (fi\<lparr>is_latest := True\<rparr>)) (version_into_fileinfo (lb_time lb) (lb_caps lb) vol path all_parts v)
         else Some None)"

definition inline_of :: "libs \<Rightarrow> FileMeta \<Rightarrow> FileInfo \<Rightarrow> FileInfo fm_result option" where
  "inline_of lb self fi =
    map_option (map_sum id (\<lambda>d. fi\<lparr>fi_data := d\<rparr>))
      (inline_find (lb_rmp lb) (uuid_text lb (case fi_version_id fi of Some u \<Rightarrow> u | None \<Rightarrow> 0)) (fm_data self))"

text \<open>One round of the loop; None is a panic, Inl an error.\<close>

definition into_step ::
  "libs \<Rightarrow> string \<Rightarrow> string \<Rightarrow> bool \<Rightarrow> uuid \<Rightarrow> bool \<Rightarrow> bool \<Rightarrow> bool \<Rightarrow> FileMeta \<Rightarrow>
    FileMetaShallowVersion \<Rightarrow> into_state \<Rightarrow> into_state fm_result option" where
  "into_step lb vol path any vid read_data include_free all_parts self ver st =
    (let st1 = (if header_free_version (header ver) then
           (let s = st\<lparr>it_non_free := it_non_free st - 1\<rparr> in
            if include_free \<and> it_free st = None
            then map_option (\<lambda>f. s\<lparr>it_free := f\<rparr>) (free_description lb vol path all_parts ver) else Some s)
         else Some st) in
     case st1 of
       None \<Rightarrow> None
     | Some s \<Rightarrow>
         if header_free_version (header ver) \<and> vh_version_id (header ver) \<noteq> Some vid then Some (Inr s)
         else if it_found s then Some (Inr s)
         else if \<not> any \<and> vh_version_id (header ver) \<noteq> Some vid then
           Some (Inr (s\<lparr>it_latest := False, it_succ := vh_mod_time (header ver)\<rparr>))
         else
           (case shallow_into_fileinfo (lb_time lb) (lb_caps lb) (lb_serde lb) vol path all_parts ver of
              None \<Rightarrow> None
            | Some (Inl e) \<Rightarrow> Some (Inl e)
            | Some (Inr fi0) \<Rightarrow>
                (let fi1 = fi0\<lparr>is_latest := it_latest s\<rparr>;
                     fi2 = (case it_succ s of Some _ \<Rightarrow> fi1\<lparr>successor_mod_time := it_succ s\<rparr> | None \<Rightarrow> fi1) in
                 case (if read_data then inline_of lb self fi2 else Some (Inr fi2)) of
                   None \<Rightarrow> None
                 | Some (Inl e) \<Rightarrow> Some (Inl e)
                 | Some (Inr fi3) \<Rightarrow> Some (Inr (s\<lparr>it_found := True, it_fi := Some fi3\<rparr>)))))"

fun into_loop ::
  "libs \<Rightarrow> string \<Rightarrow> string \<Rightarrow> bool \<Rightarrow> uuid \<Rightarrow> bool \<Rightarrow> bool \<Rightarrow> bool \<Rightarrow> FileMeta \<Rightarrow>
    FileMetaShallowVersion list \<Rightarrow> into_state \<Rightarrow> into_state fm_result option" where
  "into_loop lb vol path any vid rd fr ap self [] st = Some (Inr st)"
| "into_loop lb vol path any vid rd fr ap self (ver # vs) st =
    (case into_step lb vol path any vid rd fr ap self ver st of
       None \<Rightarrow> None
     | Some (Inl e) \<Rightarrow> Some (Inl e)
     | Some (Inr st') \<Rightarrow> into_loop lb vol path any vid rd fr ap self vs st')"

definition into_fileinfo ::
  "libs \<Rightarrow> string \<Rightarrow> string \<Rightarrow> string \<Rightarrow> bool \<Rightarrow> bool \<Rightarrow> bool \<Rightarrow> FileMeta \<Rightarrow> FileInfo fm_result option" where
  "into_fileinfo lb vol path version_id read_data include_free all_parts self =
    (case (if version_id \<noteq> [] then parse_str lb version_id else Inr 0) of
       Inl e \<Rightarrow> Some (Inl e)
     | Inr vid \<Rightarrow>
         (case into_loop lb vol path (version_id = []) vid read_data include_free all_parts self (fm_versions self)
             \<lparr>it_latest = True, it_succ = None, it_non_free = length (fm_versions self), it_found = False,
              it_free = None, it_fi = None\<rparr> of
            None \<Rightarrow> None
          | Some (Inl e) \<Rightarrow> Some (Inl e)
          | Some (Inr st) \<Rightarrow>
              Some (if \<not> it_found st then
                      (if version_id = [] then
                         (case it_free st of
                            Some fv \<Rightarrow> if include_free \<and> it_non_free st = 0 then Inr fv else Inl FmFileNotFound
                          | None \<Rightarrow> Inl FmFileNotFound)
                       else Inl FmFileVersionNotFound)
                    else
                      (case it_fi st of
                         Some fi \<Rightarrow> Inr (fi\<lparr>num_versions := it_non_free st\<rparr>)
                       | None \<Rightarrow> if version_id = [] then Inl FmFileNotFound else Inl FmFileVersionNotFound))))"

subsection \<open>Describing all versions\<close>

fun describe_all :: "libs \<Rightarrow> string \<Rightarrow> string \<Rightarrow> bool \<Rightarrow> FileMetaShallowVersion list \<Rightarrow> FileInfo list fm_result option" where
  "describe_all lb vol path all_parts [] = Some (Inr [])"
| "describe_all lb vol path all_parts (v # vs) =
    (case shallow_into_fileinfo (lb_time lb) (lb_caps lb) (lb_serde lb) vol path all_parts v of
       None \<Rightarrow> None
     | Some (Inl e) \<Rightarrow> Some (Inl e)
     | Some (Inr fi) \<Rightarrow> map_option (map_sum id ((#) fi)) (describe_all lb vol path all_parts vs))"

fun link_versions :: "nat \<Rightarrow> FileInfo list \<Rightarrow> FileInfo option \<Rightarrow> FileInfo list" where
  "link_versions num [] prev = []"
| "link_versions num (fi # fis) prev =
    (let fi' = (case prev of
                  None \<Rightarrow> fi\<lparr>is_latest := True, num_versions := num\<rparr>
                | Some p \<Rightarrow> fi\<lparr>successor_mod_time := fi_mod_time p, num_versions := num\<rparr>)
     in fi' # link_versions num fis (Some fi'))"

definition into_file_info_versions :: "libs \<Rightarrow> string \<Rightarrow> string \<Rightarrow> bool \<Rightarrow> FileMeta \<Rightarrow> FileInfoVersions fm_result option" where
  "into_file_info_versions lb vol path all_parts self =
    map_option (map_sum id (\<lambda>fis.
      let vs = link_versions (length fis) fis None;
          vs' = (if vs = [] then [FileInfo_default\<lparr>fi_name := path, volume := vol, deleted := True, is_latest := True\<rparr>] else vs)
      in \<lparr>fv_volume = vol, fv_name = path, fv_latest_mod_time = fi_mod_time (hd vs'), fv_versions = vs', fv_free_versions = []\<rparr>))
      (describe_all lb vol path all_parts (fm_versions self))"

definition get_all_file_info_versions :: "libs \<Rightarrow> string \<Rightarrow> string \<Rightarrow> bool \<Rightarrow> FileMeta \<Rightarrow> FileInfoVersions fm_result option" where
  "get_all_file_info_versions lb vol path all_parts self = into_file_info_versions lb vol path all_parts self"

definition get_file_info_versions :: "libs \<Rightarrow> string \<Rightarrow> string \<Rightarrow> bool \<Rightarrow> FileMeta \<Rightarrow> FileInfoVersions fm_result option" where
  "get_file_info_versions lb vol path include_free self =
    map_option (map_sum id (\<lambda>r.
      let free = filter tier_free_version (fv_versions r);
          rest = filter (\<lambda>fi. \<not> tier_free_version fi) (fv_versions r);
          n = length rest;
          fvs = (if include_free then fv_free_versions r else fv_free_versions r @ free)
      in r\<lparr>fv_versions := (if include_free then fv_versions r else rest),
           fv_free_versions := map (\<lambda>fi. fi\<lparr>num_versions := n\<rparr>) fvs\<rparr>))
      (into_file_info_versions lb vol path True self)"

definition latest_mod_time :: "FileMeta \<Rightarrow> time option" where
  "latest_mod_time self = (case fm_versions self of [] \<Rightarrow> None | v # _ \<Rightarrow> vh_mod_time (header v))"

definition list_versions :: "libs \<Rightarrow> string \<Rightarrow> string \<Rightarrow> bool \<Rightarrow> FileMeta \<Rightarrow> FileInfo list fm_result option" where
  "list_versions lb vol path all_parts self =
    map_option (map_sum id (\<lambda>fis. case fis of
        [] \<Rightarrow> []
      | fi # rest \<Rightarrow> fi\<lparr>is_latest := True\<rparr> # map (\<lambda>f. f\<lparr>is_latest := False\<rparr>) rest))
      (describe_all lb vol path all_parts (fm_versions self))"

definition all_hidden :: "bool \<Rightarrow> FileMeta \<Rightarrow> bool" where
  "all_hidden top_delete_marker self =
    (case fm_versions self of
       [] \<Rightarrow> True
     | v # _ \<Rightarrow>
         if top_delete_marker \<and> vh_version_type (header v) \<noteq> VtDelete then False
         else list_all (\<lambda>v. vh_version_type (header v) = VtDelete \<or> header_free_version (header v)) (fm_versions self))"

subsection \<open>Validation and statistics\<close>

definition is_compatible_with_meta :: "FileMeta \<Rightarrow> bool" where
  "is_compatible_with_meta self = (if meta_ver self \<noteq> XL_META_VERSION then False else True)"

fun sorted_times :: "time option list \<Rightarrow> bool" where
  "sorted_times (a # b # ts) =
    (case (a, b) of
       (Some prev, Some cur) \<Rightarrow> if prev < cur then False else sorted_times (b # ts)
     | (None, Some _) \<Rightarrow> False
     | _ \<Rightarrow> sorted_times (b # ts))"
| "sorted_times _ = True"

definition is_sorted_by_mod_time :: "FileMeta \<Rightarrow> bool" where
  "is_sorted_by_mod_time self = sorted_times (map (\<lambda>v. vh_mod_time (header v)) (fm_versions self))"

definition validate_integrity :: "libs \<Rightarrow> FileMeta \<Rightarrow> unit fm_result" where
  "validate_integrity lb self =
    (if \<not> is_sorted_by_mod_time self then Inl (fm_other ''versions not sorted by modification time'')
     else inline_validate (lb_rmp lb) (fm_data self))"

record VersionStats =
  total_versions :: nat
  object_versions :: nat
  delete_markers :: nat
  invalid_versions :: nat
  free_versions :: nat

definition get_version_stats :: "FileMeta \<Rightarrow> VersionStats" where
  "get_version_stats self =
    (let n = (\<lambda>P. length (filter P (fm_versions self))) in
     \<lparr>total_versions = length (fm_versions self),
      object_versions = n (\<lambda>v. vh_version_type (header v) = VtObject),
      delete_markers = n (\<lambda>v. vh_version_type (header v) = VtDelete),
      invalid_versions = n (\<lambda>v. vh_version_type (header v) = VtInvalid \<or> vh_version_type (header v) = VtLegacy),
      free_versions = n (\<lambda>v. header_free_version (header v))\<rparr>)"

record DetailedVersionStats = VersionStats +
  legacy_versions :: nat
  versions_with_data_dir :: nat
  versions_with_inline_data :: nat
  total_size :: int
  stats_latest :: "time option"

fun latest_of :: "time option list \<Rightarrow> time option \<Rightarrow> time option" where
  "latest_of [] t = t"
| "latest_of (x # xs) t = latest_of xs (if t = None \<or> (x \<noteq> None \<and> x > t) then x else t)"

definition decoded_object :: "libs \<Rightarrow> FileMetaShallowVersion \<Rightarrow> MetaObject option" where
  "decoded_object lb v =
    (if vh_version_type (header v) = VtObject
     then (case from_slice (lb_serde lb) (meta v) of Inl _ \<Rightarrow> None | Inr ver \<Rightarrow> fv_object ver) else None)"

definition get_detailed_version_stats :: "libs \<Rightarrow> FileMeta \<Rightarrow> DetailedVersionStats" where
  "get_detailed_version_stats lb self =
    (let n = (\<lambda>P. length (filter P (fm_versions self)));
         objs = List.map_filter (decoded_object lb) (fm_versions self) in
     \<lparr>total_versions = length (fm_versions self),
      object_versions = n (\<lambda>v. vh_version_type (header v) = VtObject),
      delete_markers = n (\<lambda>v. vh_version_type (header v) = VtDelete),
      invalid_versions = n (\<lambda>v. vh_version_type (header v) = VtInvalid),
      free_versions = n (\<lambda>v. header_free_version (header v)),
      legacy_versions = n (\<lambda>v. vh_version_type (header v) = VtLegacy),
      versions_with_data_dir = length (filter (object_uses_data_dir (lb_time lb)) objs),
      versions_with_inline_data = length (filter inlinedata objs),
      total_size = sum_list (map mo_size objs),
      stats_latest = latest_of (map (\<lambda>v. vh_mod_time (header v)) (fm_versions self)) None\<rparr>)"

end
