(* ===== verification/FileMetaSpec.thy ===== *)
theory FileMetaSpec
  imports FileMeta
begin

text \<open>
  What the operations on a metadata file do to the map from version identifiers to versions,
  and that they keep the list sorted, without duplicates and readable.
\<close>

subsection \<open>Sorting\<close>

lemma mset_insert_by [simp]: "mset (insert_by le x xs) = add_mset x (mset xs)"
  by (induction xs) auto

lemma mset_sort_by [simp]: "mset (sort_by le xs) = mset xs"
  by (induction xs) (auto simp: sort_by_def)

lemma set_sort_by [simp]: "set (sort_by le xs) = set xs"
  by (metis mset_sort_by set_mset_mset)

definition total_preorder :: "('a \<Rightarrow> 'a \<Rightarrow> bool) \<Rightarrow> bool" where
  "total_preorder le \<longleftrightarrow> (\<forall>a b. le a b \<or> le b a) \<and> transp le"

lemma sorted_insert_by:
  assumes "total_preorder le" "sorted_wrt le xs"
  shows "sorted_wrt le (insert_by le x xs)"
  using assms(2)
proof (induction xs)
  case (Cons y ys)
  have s: "set (insert_by le x ys) = insert x (set ys)"
    by (metis mset_insert_by set_mset_add_mset_insert set_mset_mset)
  show ?case
  proof (cases "le x y")
    case True
    then have "\<forall>z \<in> set (y # ys). le x z"
      using Cons.prems assms(1) by (auto simp: total_preorder_def dest: transpD)
    then show ?thesis using Cons.prems True by simp
  next
    case False
    then have "le y x" using assms(1) by (auto simp: total_preorder_def)
    then show ?thesis using False Cons s by simp
  qed
qed simp

lemma sorted_sort_by:
  assumes "total_preorder le"
  shows "sorted_wrt le (sort_by le xs)"
  by (induction xs) (simp_all add: sort_by_def sorted_insert_by [OF assms])

definition version_key :: "FileMetaShallowVersion \<Rightarrow> time option \<times> VersionType \<times> uuid option \<times> u8 \<times> bytes \<times> bytes" where
  "version_key v = (vh_mod_time (header v), vh_version_type (header v), vh_version_id (header v), vh_flags (header v),
     signature (header v), meta v)"

lemma newer_first_key: "newer_first a b \<longleftrightarrow> version_key b \<le> version_key a"
  by (auto simp: newer_first_def version_key_def shallow_le_def header_key_def less_eq_prod_def)

lemma newer_first_preorder: "total_preorder newer_first"
  by (auto simp: total_preorder_def newer_first_key transp_def)

lemma newer_first_time: "newer_first a b \<Longrightarrow> vh_mod_time (header b) \<le> vh_mod_time (header a)"
  by (simp add: newer_first_def split: if_splits)

subsection \<open>Lists of versions\<close>

definition ids :: "FileMetaShallowVersion list \<Rightarrow> uuid option list" where
  "ids vs = map (\<lambda>v. vh_version_id (header v)) vs"

definition times_of :: "FileMetaShallowVersion list \<Rightarrow> time option list" where
  "times_of vs = map (\<lambda>v. vh_mod_time (header v)) vs"

lemma sorted_times_sorted: "sorted_times ts \<longleftrightarrow> sorted_wrt (\<lambda>a b. b \<le> a) ts"
proof (induction ts rule: sorted_times.induct)
  case (1 a b ts)
  then show ?case by (cases a; cases b) (auto intro: order_trans)
qed auto

lemma is_sorted_times: "is_sorted_by_mod_time self \<longleftrightarrow> sorted_wrt (\<lambda>a b. b \<le> a) (times_of (fm_versions self))"
  by (simp add: is_sorted_by_mod_time_def sorted_times_sorted times_of_def)

lemma sort_by_mod_time_eq: "sort_by_mod_time self = self\<lparr>fm_versions := sort_by newer_first (fm_versions self)\<rparr>"
proof (cases "fm_versions self")
  case (Cons v vs)
  then show ?thesis by (cases vs) (simp_all add: sort_by_mod_time_def sort_by_def)
qed (simp add: sort_by_mod_time_def sort_by_def)

lemma times_sorted_sort: "sorted_wrt (\<lambda>a b. b \<le> a) (times_of (sort_by newer_first vs))"
  unfolding times_of_def sorted_wrt_map
  by (rule sorted_wrt_mono_rel [OF newer_first_time sorted_sort_by [OF newer_first_preorder]])

lemma distinct_ids_sort: "distinct (ids (sort_by newer_first vs)) \<longleftrightarrow> distinct (ids vs)"
  unfolding ids_def by (metis mset_map mset_sort_by mset_eq_imp_distinct_iff)

lemma position_Some:
  "position P xs = Some i \<longleftrightarrow> i < length xs \<and> P (xs ! i) \<and> (\<forall>j < i. \<not> P (xs ! j))"
proof (induction xs arbitrary: i)
  case (Cons x xs)
  show ?case
  proof (cases i)
    case (Suc k)
    then show ?thesis using Cons.IH [of k] by (auto simp: less_Suc_eq_0_disj)
  qed (auto)
qed simp

lemma position_None: "position P xs = None \<longleftrightarrow> list_all (\<lambda>x. \<not> P x) xs"
  by (induction xs) auto

subsection \<open>The invariant and the stored versions\<close>

text \<open>An entry that decodes to a valid version whose identity its header has.\<close>

definition holds :: "serde \<Rightarrow> FileMetaShallowVersion \<Rightarrow> FileMetaVersion \<Rightarrow> bool" where
  "holds sd v x \<longleftrightarrow> from_slice sd (meta v) = Inr x \<and> version_valid x \<and> vh_version_id (header v) = get_version_id x
    \<and> vh_mod_time (header v) = get_mod_time x \<and> vh_version_type (header v) = fv_version_type x
    \<and> header_free_version (header v) = version_free_version x"

definition readable :: "serde \<Rightarrow> FileMetaShallowVersion \<Rightarrow> bool" where
  "readable sd v \<longleftrightarrow> (\<exists>x. holds sd v x)"

definition meta_inv :: "libs \<Rightarrow> FileMeta \<Rightarrow> bool" where
  "meta_inv lb self \<longleftrightarrow> list_all (readable (lb_serde lb)) (fm_versions self)
    \<and> distinct (ids (fm_versions self)) \<and> is_sorted_by_mod_time self"

definition stored :: "libs \<Rightarrow> FileMeta \<Rightarrow> uuid option \<Rightarrow> FileMetaVersion option" where
  "stored lb self vid =
    (case position (\<lambda>v. vh_version_id (header v) = vid) (fm_versions self) of
       None \<Rightarrow> None
     | Some i \<Rightarrow> (case from_slice (lb_serde lb) (meta (fm_versions self ! i)) of Inl _ \<Rightarrow> None | Inr x \<Rightarrow> Some x))"

text \<open>The serialisation library reads back what it wrote of a version.\<close>

definition stores :: "serde \<Rightarrow> FileMetaVersion \<Rightarrow> bool" where
  "stores sd x \<longleftrightarrow> (\<exists>b. to_vec sd x = Inr b \<and> from_slice sd b = Inr x)"

lemma meta_inv_new: "meta_inv lb FileMeta_new"
  by (simp add: meta_inv_def FileMeta_new_def ids_def is_sorted_by_mod_time_def)

lemma valid_mod_time: "version_valid x \<Longrightarrow> get_mod_time x \<noteq> None"
  by (auto simp: version_valid_def get_mod_time_def split: if_splits VersionType.splits option.splits)

lemma holdsD: "holds sd v x \<Longrightarrow> readable sd v"
  by (auto simp: readable_def)

lemma stored_iff:
  assumes "meta_inv lb self"
  shows "stored lb self vid = Some x \<longleftrightarrow> (\<exists>v \<in> set (fm_versions self). vh_version_id (header v) = vid \<and> holds (lb_serde lb) v x)"
proof (cases "position (\<lambda>v. vh_version_id (header v) = vid) (fm_versions self)")
  case None
  then have "stored lb self vid = None" by (simp add: stored_def)
  then show ?thesis using None by (auto simp: position_None list_all_iff)
next
  case (Some i)
  then have i: "i < length (fm_versions self)" "vh_version_id (header (fm_versions self ! i)) = vid"
    by (simp_all add: position_Some)
  obtain y where y: "holds (lb_serde lb) (fm_versions self ! i) y"
    using assms i by (auto simp: meta_inv_def list_all_length readable_def)
  have u: "v = fm_versions self ! i" if "v \<in> set (fm_versions self)" "vh_version_id (header v) = vid" for v
  proof -
    obtain j where j: "j < length (fm_versions self)" "v = fm_versions self ! j" using \<open>v \<in> _\<close> by (metis in_set_conv_nth)
    then have "ids (fm_versions self) ! j = ids (fm_versions self) ! i" using i that(2) by (simp add: ids_def)
    then show ?thesis using assms i j by (auto simp: meta_inv_def distinct_conv_nth ids_def)
  qed
  have "stored lb self vid = Some y" using Some y by (simp add: stored_def holds_def)
  then show ?thesis using u i y by (auto simp: holds_def)
qed

lemma stored_eqI:
  assumes "meta_inv lb self" "meta_inv lb self'"
    and "\<And>v. vh_version_id (header v) = vid \<Longrightarrow> v \<in> set (fm_versions self) \<longleftrightarrow> v \<in> set (fm_versions self')"
  shows "stored lb self vid = stored lb self' vid"
proof -
  have "stored lb self vid = Some x \<longleftrightarrow> stored lb self' vid = Some x" for x
    unfolding stored_iff [OF assms(1)] stored_iff [OF assms(2)] using assms(3) by blast
  then show ?thesis by (metis not_Some_eq)
qed

subsection \<open>Putting a version into the list\<close>

lemma put_entry:
  assumes inv: "meta_inv lb self" and x: "holds (lb_serde lb) s x"
    and set: "set vs' = insert s {v \<in> set (fm_versions self). vh_version_id (header v) \<noteq> get_version_id x}"
    and ord: "distinct (ids vs')" "sorted_wrt (\<lambda>a b. b \<le> a) (times_of vs')"
  shows "meta_inv lb (self\<lparr>fm_versions := vs'\<rparr>)
    \<and> stored lb (self\<lparr>fm_versions := vs'\<rparr>) = (stored lb self)(get_version_id x \<mapsto> x)"
proof -
  let ?self = "self\<lparr>fm_versions := vs'\<rparr>"
  have inv': "meta_inv lb ?self"
    using inv ord holdsD [OF x] by (auto simp: meta_inv_def is_sorted_times list_all_iff set)
  have id: "vh_version_id (header s) = get_version_id x" using x by (simp add: holds_def)
  have "stored lb ?self vid = ((stored lb self)(get_version_id x \<mapsto> x)) vid" for vid
  proof (cases "vid = get_version_id x")
    case True
    have "stored lb ?self vid = Some x" unfolding stored_iff [OF inv'] using True x id by (auto simp: set)
    then show ?thesis using True by simp
  next
    case False
    then have "stored lb ?self vid = stored lb self vid"
      by (intro stored_eqI [OF inv' inv]) (use id in \<open>auto simp: set\<close>)
    then show ?thesis using False by simp
  qed
  then show ?thesis using inv' by blast
qed

lemma header_identity [simp]:
  "vh_version_id (version_header ck x) = get_version_id x" "vh_mod_time (version_header ck x) = get_mod_time x"
  "vh_version_type (version_header ck x) = fv_version_type x"
  "header_free_version (version_header ck x) = version_free_version x"
proof -
  have "header_flags ck x AND Flags_FreeVersion = (if version_free_version x then 1 else 0)"
    by (simp add: header_flags_def Flags_FreeVersion_def Flags_UsesDataDir_def Flags_InlineData_def)
  then show "header_free_version (version_header ck x) = version_free_version x"
    by (simp add: header_free_version_def version_header_def Let_def)
qed (simp_all add: version_header_def Let_def)

lemma shallow_holds:
  assumes "version_valid x" "stores (lb_serde lb) x"
  obtains s where "shallow_from (lb_time lb) (lb_serde lb) x = Inr s" "holds (lb_serde lb) s x"
    "s = \<lparr>header = version_header (lb_time lb) x, meta = meta s\<rparr>" "to_vec (lb_serde lb) x = Inr (meta s)"
proof -
  obtain b where b: "to_vec (lb_serde lb) x = Inr b" "from_slice (lb_serde lb) b = Inr x"
    using assms(2) by (auto simp: stores_def)
  let ?s = "\<lparr>header = version_header (lb_time lb) x, meta = b\<rparr>"
  have "holds (lb_serde lb) ?s x" using assms(1) b(2) by (simp add: holds_def header_identity)
  then show thesis using that [of ?s] b by (simp add: shallow_from_def)
qed

lemma set_list_update_ids:
  assumes "distinct (ids vs)" "i < length vs" "vh_version_id (header (vs ! i)) = vid"
  shows "set (vs[i := s]) = insert s {v \<in> set vs. vh_version_id (header v) \<noteq> vid}"
proof -
  have d: "distinct vs" using assms(1) by (simp add: ids_def distinct_map)
  have "v = vs ! i" if "v \<in> set vs" "vh_version_id (header v) = vid" for v
    using assms that unfolding ids_def distinct_map by (metis inj_onD nth_mem)
  then have "{v \<in> set vs. vh_version_id (header v) \<noteq> vid} = set vs - {vs ! i}" using assms by auto
  then show ?thesis using set_update_distinct [OF d assms(2)] by simp
qed

lemma ids_update:
  assumes "i < length vs" "vh_version_id (header (vs ! i)) = vh_version_id (header s)"
  shows "ids (vs[i := s]) = ids vs"
  using assms by (simp add: ids_def map_update list_update_same_conv)

lemma set_idx_spec:
  assumes inv: "meta_inv lb self" and i: "i < length (fm_versions self)"
    and vid: "vh_version_id (header (fm_versions self ! i)) = get_version_id x"
    and x: "version_valid x" "stores (lb_serde lb) x"
  shows "\<exists>self'. set_idx lb i x self = (self', Inr ()) \<and> meta_inv lb self'
    \<and> stored lb self' = (stored lb self)(get_version_id x \<mapsto> x) \<and> fm_data self' = fm_data self"
proof -
  obtain s where s: "shallow_from (lb_time lb) (lb_serde lb) x = Inr s" "holds (lb_serde lb) s x"
    "s = \<lparr>header = version_header (lb_time lb) x, meta = meta s\<rparr>" "to_vec (lb_serde lb) x = Inr (meta s)"
    using shallow_holds [OF x] by blast
  let ?vs = "(fm_versions self)[i := s]"
  have d: "distinct (ids (fm_versions self))" using inv by (simp add: meta_inv_def)
  have id: "vh_version_id (header s) = get_version_id x" and t: "vh_mod_time (header s) = get_mod_time x"
    using s(2) by (simp_all add: holds_def)
  have ids: "ids ?vs = ids (fm_versions self)" by (rule ids_update [OF i]) (simp add: vid id)
  note set = set_list_update_ids [OF d i vid, of s]
  show ?thesis
  proof (cases "vh_mod_time (header (fm_versions self ! i)) = vh_mod_time (header s)")
    case True
    have "times_of ?vs = times_of (fm_versions self)" using i True by (simp add: times_of_def map_update list_update_same_conv)
    then have "sorted_wrt (\<lambda>a b. b \<le> a) (times_of ?vs)" using inv by (simp add: meta_inv_def is_sorted_times)
    note p = put_entry [OF inv s(2) set _ this, unfolded ids, OF d]
    have "set_idx lb i x self = (self\<lparr>fm_versions := ?vs\<rparr>, Inr ())"
      using i True s(3,4) t by (simp add: set_idx_def Let_def)
    then show ?thesis using p by auto
  next
    case False
    let ?vs' = "sort_by newer_first ?vs"
    have set': "set ?vs' = insert s {v \<in> set (fm_versions self). vh_version_id (header v) \<noteq> get_version_id x}"
      using set by simp
    have d': "distinct (ids ?vs')" unfolding distinct_ids_sort ids by (rule d)
    note p = put_entry [OF inv s(2) set' d' times_sorted_sort]
    have "set_idx lb i x self = (self\<lparr>fm_versions := ?vs'\<rparr>, Inr ())"
      using i False s(3,4) t by (simp add: set_idx_def Let_def sort_by_mod_time_eq)
    then show ?thesis using p by auto
  qed
qed

definition older_than_all :: "libs \<Rightarrow> FileMetaVersion \<Rightarrow> FileMeta \<Rightarrow> bool" where
  "older_than_all lb x self \<longleftrightarrow> fm_versions self \<noteq> [] \<and> stored lb self (get_version_id x) = None
    \<and> list_all (\<lambda>t. get_mod_time x < t) (times_of (fm_versions self))"

lemma stored_None:
  assumes "meta_inv lb self"
  shows "stored lb self vid = None \<longleftrightarrow> position (\<lambda>v. vh_version_id (header v) = vid) (fm_versions self) = None"
proof
  assume a: "stored lb self vid = None"
  then have "\<not> (\<exists>v \<in> set (fm_versions self). vh_version_id (header v) = vid \<and> holds (lb_serde lb) v x)" for x
    using stored_iff [OF assms, of vid x] by simp
  then show "position (\<lambda>v. vh_version_id (header v) = vid) (fm_versions self) = None"
    using assms by (fastforce simp: position_None list_all_iff meta_inv_def readable_def)
qed (simp add: stored_def)

lemma readable_time: "readable sd v \<Longrightarrow> vh_mod_time (header v) \<noteq> None"
  by (auto simp: readable_def holds_def dest: valid_mod_time)

lemma not_newer_le:
  assumes "readable sd v" "version_valid x"
  shows "not_newer (get_mod_time x) v \<longleftrightarrow> vh_mod_time (header v) \<le> get_mod_time x"
  using readable_time [OF assms(1)] valid_mod_time [OF assms(2)] by (auto simp: not_newer_def)

lemma set_insert_at [simp]: "i \<le> length xs \<Longrightarrow> set (insert_at i x xs) = insert x (set xs)"
  by (metis append_take_drop_id insert_at_def list.simps(15) set_append Un_insert_right)

lemma map_insert_at: "map f (insert_at i x xs) = insert_at i (f x) (map f xs)"
  by (simp add: insert_at_def take_map drop_map)

lemma distinct_insert_at: "distinct (insert_at i x xs) \<longleftrightarrow> x \<notin> set xs \<and> distinct xs"
proof -
  have "mset (insert_at i x xs) = mset (x # xs)"
    by (metis append_take_drop_id insert_at_def mset_append union_mset_add_mset_right mset.simps(2))
  then have "distinct (insert_at i x xs) \<longleftrightarrow> distinct (x # xs)" by (rule mset_eq_imp_distinct_iff)
  then show ?thesis by simp
qed

lemma sorted_insert_at:
  assumes "sorted_wrt (\<lambda>a b. b \<le> a) ts" "i < length ts" "ts ! i \<le> t" "\<forall>j < i. \<not> ts ! j \<le> (t :: 'a :: linorder)"
  shows "sorted_wrt (\<lambda>a b. b \<le> a) (insert_at i t ts)"
proof -
  have ts: "take i ts @ drop i ts = ts" by simp
  have "\<forall>a \<in> set (take i ts). t \<le> a" using assms(4) by (force simp: in_set_conv_nth)
  moreover have "\<forall>a \<in> set (drop i ts). a \<le> t"
  proof
    fix a assume "a \<in> set (drop i ts)"
    then obtain k where "k < length (drop i ts)" "a = drop i ts ! k" by (metis in_set_conv_nth)
    then have k: "i + k < length ts" "a = ts ! (i + k)" using assms(2) by simp_all
    then have "a \<le> ts ! i" using assms(1,2) sorted_wrt_nth_less [OF assms(1), of i "i + k"] by (cases "k = 0") auto
    then show "a \<le> t" using assms(3) by simp
  qed
  ultimately show ?thesis using assms(1) unfolding insert_at_def
    by (metis (no_types, lifting) set_ConsD sorted_wrt.simps(2) sorted_wrt_append ts)
qed

lemma add_version_filemata_spec:
  assumes inv: "meta_inv lb self" and x: "version_valid x" "stores (lb_serde lb) x"
  shows "if older_than_all lb x self then add_version_filemata lb x self = (self, Inl (fm_other ''add_version failed''))
    else \<exists>self'. add_version_filemata lb x self = (self', Inr ()) \<and> meta_inv lb self'
      \<and> stored lb self' = (stored lb self)(get_version_id x \<mapsto> x) \<and> fm_data self' = fm_data self"
proof -
  obtain s where s: "shallow_from (lb_time lb) (lb_serde lb) x = Inr s" "holds (lb_serde lb) s x"
    using shallow_holds [OF x] by blast
  have id: "vh_version_id (header s) = get_version_id x" and t: "vh_mod_time (header s) = get_mod_time x"
    using s(2) by (simp_all add: holds_def)
  let ?vs = "fm_versions self"
  have r: "not_newer (get_mod_time x) v \<longleftrightarrow> vh_mod_time (header v) \<le> get_mod_time x" if "v \<in> set ?vs" for v
    using inv that by (auto simp: meta_inv_def list_all_iff intro!: not_newer_le x)
  consider (empty) "?vs = []" | (there) i where "?vs \<noteq> []" "position (\<lambda>v. vh_version_id (header v) = get_version_id x) ?vs = Some i"
    | (new) "?vs \<noteq> []" "position (\<lambda>v. vh_version_id (header v) = get_version_id x) ?vs = None" by fastforce
  then show ?thesis
  proof cases
    case empty
    have "set [s] = insert s {v \<in> set ?vs. vh_version_id (header v) \<noteq> get_version_id x}"
      "distinct (ids [s])" "sorted_wrt (\<lambda>a b. b \<le> a) (times_of [s])" using empty by (simp_all add: ids_def times_of_def)
    then show ?thesis using put_entry [OF inv s(2), of "[s]"] empty s(1) x(1)
      by (simp add: older_than_all_def add_version_filemata_def)
  next
    case there
    have o: "\<not> older_than_all lb x self" using there by (auto simp: older_than_all_def stored_None [OF inv])
    have i: "i < length ?vs" "vh_version_id (header (?vs ! i)) = get_version_id x" using there by (simp_all add: position_Some)
    show ?thesis using set_idx_spec [OF inv i x] there o x(1) by (simp add: add_version_filemata_def)
  next
    case new
    then have fresh: "get_version_id x \<notin> set (ids ?vs)" by (auto simp: position_None list_all_iff ids_def)
    show ?thesis
    proof (cases "position (not_newer (get_mod_time x)) ?vs")
      case None
      then have "older_than_all lb x self" using new r
        by (auto simp: older_than_all_def stored_None [OF inv] position_None list_all_iff times_of_def not_le)
      then show ?thesis using new None x(1) by (simp add: add_version_filemata_def)
    next
      case (Some i)
      then have i: "i < length ?vs" "times_of ?vs ! i \<le> get_mod_time x" "\<forall>j < i. \<not> times_of ?vs ! j \<le> get_mod_time x"
        using r by (auto simp: position_Some times_of_def)
      let ?vs' = "insert_at i s ?vs"
      have "{v \<in> set ?vs. vh_version_id (header v) \<noteq> get_version_id x} = set ?vs" using fresh by (force simp: ids_def)
      then have set: "set ?vs' = insert s {v \<in> set ?vs. vh_version_id (header v) \<noteq> get_version_id x}" using i by simp
      have d: "distinct (ids ?vs')" using inv fresh id
        by (simp add: ids_def map_insert_at distinct_insert_at meta_inv_def)
      have "sorted_wrt (\<lambda>a b. b \<le> a) (times_of ?vs)" using inv by (simp add: meta_inv_def is_sorted_times)
      then have st: "sorted_wrt (\<lambda>a b. b \<le> a) (times_of ?vs')"
        using sorted_insert_at [of "times_of ?vs" i "get_mod_time x"] i t by (simp add: times_of_def map_insert_at)
      have "\<not> older_than_all lb x self" using i by (auto simp: older_than_all_def list_all_length times_of_def)
      then show ?thesis using new Some x(1) s(1) put_entry [OF inv s(2) set d st]
        by (simp add: add_version_filemata_def)
    qed
  qed
qed

subsection \<open>Adding a version\<close>

text \<open>The version a description is stored as, and its identifier.\<close>

definition put_id :: "FileInfo \<Rightarrow> uuid" where
  "put_id fi = (case fi_version_id fi of Some u \<Rightarrow> u | None \<Rightarrow> 0)"

definition put_version :: "FileInfo \<Rightarrow> FileMetaVersion" where
  "put_version fi = FileMetaVersion_from (fi\<lparr>fi_version_id := Some (put_id fi)\<rparr>)"

text \<open>The inline data holds the entries, with room for one more.\<close>

definition data_holds :: "libs \<Rightarrow> FileMeta \<Rightarrow> (string \<times> bytes) list \<Rightarrow> bool" where
  "data_holds lb self kvs \<longleftrightarrow> fm_data self = serialize (lb_rmp lb) kvs \<and> fits kvs \<and> Suc (length kvs) < 2 ^ 32"

definition data_fits :: "libs \<Rightarrow> FileInfo \<Rightarrow> bool" where
  "data_fits lb fi \<longleftrightarrow> (case fi_data fi of None \<Rightarrow> True | Some d \<Rightarrow> entry_fits (uuid_text lb (put_id fi), d))"

definition put_data :: "libs \<Rightarrow> FileInfo \<Rightarrow> (string \<times> bytes) list \<Rightarrow> string \<Rightarrow> bytes option" where
  "put_data lb fi kvs k = (if fi_data fi \<noteq> None \<and> k = uuid_text lb (put_id fi) then fi_data fi else map_of kvs k)"

lemma or_nil_put: "or_nil (fi_version_id fi) = Some (put_id fi)"
  by (simp add: or_nil_def put_id_def split: option.split)

lemma put_version_simps:
  "get_version_id (put_version fi) = Some (put_id fi)" "get_mod_time (put_version fi) = fi_mod_time fi"
  "fv_version_type (put_version fi) = (if deleted fi then VtDelete else VtObject)"
  by (simp_all add: put_version_def FileMetaVersion_from_def get_version_id_def get_mod_time_def
      MetaObject_from_def MetaDeleteMarker_from_def)

lemma put_version_valid: "fi_mod_time fi = Some t \<Longrightarrow> 0 < t \<Longrightarrow> version_valid (put_version fi)"
  by (simp add: put_version_def FileMetaVersion_from_def version_valid_def vt_valid_def MetaObject_from_def
      MetaDeleteMarker_from_def ea_valid_def ca_valid_def)

lemma add_version_data:
  assumes "rmp_laws (lb_rmp lb)" "data_holds lb self kvs" "data_fits lb fi"
  shows "\<exists>data'. add_version lb fi self = Some (add_version_filemata lb (put_version fi) (self\<lparr>fm_data := data'\<rparr>))
    \<and> (\<forall>k. inline_find (lb_rmp lb) k data' = Some (Inr (put_data lb fi kvs k)))"
proof -
  have d: "fm_data self = serialize (lb_rmp lb) kvs" "fits kvs" "Suc (length kvs) < 2 ^ 32"
    using assms(2) by (simp_all add: data_holds_def)
  show ?thesis
  proof (cases "fi_data fi")
    case None
    have "add_version lb fi self = Some (add_version_filemata lb (put_version fi) (self\<lparr>fm_data := fm_data self\<rparr>))"
      using None by (simp add: add_version_def or_nil_put put_version_def Let_def)
    moreover have "inline_find (lb_rmp lb) k (fm_data self) = Some (Inr (put_data lb fi kvs k))" for k
      using inline_find_serialize [OF assms(1) d(2)] None by (simp add: d(1) put_data_def)
    ultimately show ?thesis by blast
  next
    case (Some v)
    let ?kvs = "replaced (uuid_text lb (put_id fi)) v kvs"
    have e: "entry_fits (uuid_text lb (put_id fi), v)" using assms(3) Some by (simp add: data_fits_def)
    have "add_version lb fi self =
      Some (add_version_filemata lb (put_version fi) (self\<lparr>fm_data := serialize (lb_rmp lb) ?kvs\<rparr>))"
      using Some by (simp add: add_version_def or_nil_put put_version_def Let_def d(1) inline_replace_serialize [OF assms(1) d(2)])
    moreover have "inline_find (lb_rmp lb) k (serialize (lb_rmp lb) ?kvs) = Some (Inr (put_data lb fi kvs k))" for k
      using inline_find_serialize [OF assms(1) fits_replaced [OF d(2) e d(3)]] Some by (simp add: put_data_def map_of_replaced)
    ultimately show ?thesis by blast
  qed
qed

lemma data_irrelevant [simp]:
  "meta_inv lb (self\<lparr>fm_data := d\<rparr>) = meta_inv lb self" "stored lb (self\<lparr>fm_data := d\<rparr>) = stored lb self"
  "older_than_all lb x (self\<lparr>fm_data := d\<rparr>) = older_than_all lb x self"
proof -
  have v: "fm_versions (self\<lparr>fm_data := d\<rparr>) = fm_versions self" by simp
  show "meta_inv lb (self\<lparr>fm_data := d\<rparr>) = meta_inv lb self" "stored lb (self\<lparr>fm_data := d\<rparr>) = stored lb self"
    "older_than_all lb x (self\<lparr>fm_data := d\<rparr>) = older_than_all lb x self"
    unfolding meta_inv_def stored_def older_than_all_def is_sorted_by_mod_time_def v by (rule refl)+
qed

lemma add_version_ok:
  assumes "meta_inv lb self" "rmp_laws (lb_rmp lb)" "data_holds lb self kvs" "data_fits lb fi"
    and "fi_mod_time fi = Some t" "0 < t" "stores (lb_serde lb) (put_version fi)"
    and "\<not> older_than_all lb (put_version fi) self"
  obtains self' where "add_version lb fi self = Some (self', Inr ())" "meta_inv lb self'"
    "stored lb self' = (stored lb self)(Some (put_id fi) \<mapsto> put_version fi)"
    "\<forall>k. inline_find (lb_rmp lb) k (fm_data self') = Some (Inr (put_data lb fi kvs k))"
proof -
  obtain d where d: "add_version lb fi self = Some (add_version_filemata lb (put_version fi) (self\<lparr>fm_data := d\<rparr>))"
    "\<forall>k. inline_find (lb_rmp lb) k d = Some (Inr (put_data lb fi kvs k))"
    using add_version_data [OF assms(2-4)] by blast
  have "meta_inv lb (self\<lparr>fm_data := d\<rparr>)" using assms(1) by simp
  from add_version_filemata_spec [OF this put_version_valid [OF assms(5,6)] assms(7)]
  show thesis using d assms(8) that by (auto simp: put_version_simps)
qed

subsection \<open>Reading a version\<close>

lemma into_step_found:
  assumes "it_found st"
  shows "\<exists>st'. into_step lb vol path any vid rd False ap self ver st = Some (Inr st') \<and> it_found st' \<and> it_fi st' = it_fi st"
  using assms by (simp add: into_step_def Let_def)

lemma into_loop_found:
  assumes "it_found st"
  shows "\<exists>st'. into_loop lb vol path any vid rd False ap self vs st = Some (Inr st') \<and> it_found st' \<and> it_fi st' = it_fi st"
  using assms
proof (induction vs arbitrary: st)
  case (Cons v vs)
  obtain st1 where st1: "into_step lb vol path any vid rd False ap self v st = Some (Inr st1)" "it_found st1" "it_fi st1 = it_fi st"
    using into_step_found [OF Cons.prems] by blast
  then show ?case using Cons.IH [OF st1(2)] by simp
qed simp

lemma into_step_skip:
  assumes "\<not> it_found st" "vh_version_id (header ver) \<noteq> Some vid"
  shows "\<exists>st'. into_step lb vol path False vid rd False ap self ver st = Some (Inr st') \<and> \<not> it_found st'"
  using assms by (auto simp: into_step_def Let_def)

text \<open>What the loop adds to the description of the version it finds.\<close>

definition completed :: "libs \<Rightarrow> bool \<Rightarrow> FileMeta \<Rightarrow> FileInfo \<Rightarrow> FileInfo \<Rightarrow> bool" where
  "completed lb rd self fi0 fi \<longleftrightarrow> (\<exists>l s d. fi = fi0\<lparr>is_latest := l, successor_mod_time := s, fi_data := d\<rparr>
    \<and> (if rd then inline_find (lb_rmp lb) (uuid_text lb (put_id fi0)) (fm_data self) = Some (Inr d) else d = fi_data fi0))"

lemma into_step_here:
  assumes "\<not> it_found st" "any \<or> vh_version_id (header ver) = Some vid" "\<not> header_free_version (header ver)"
    and fi: "shallow_into_fileinfo (lb_time lb) (lb_caps lb) (lb_serde lb) vol path ap ver = Some (Inr fi0)"
    and d: "inline_find (lb_rmp lb) (uuid_text lb (put_id fi0)) (fm_data self) = Some (Inr d)"
  shows "\<exists>st' fi. into_step lb vol path any vid rd False ap self ver st = Some (Inr st') \<and> it_found st'
    \<and> it_fi st' = Some fi \<and> completed lb rd self fi0 fi \<and> is_latest fi = it_latest st"
proof -
  let ?fi = "\<lambda>s d. fi0\<lparr>is_latest := it_latest st, successor_mod_time := s, fi_data := d\<rparr>"
  obtain s where s: "(case it_succ st of Some _ \<Rightarrow> fi0\<lparr>is_latest := it_latest st, successor_mod_time := it_succ st\<rparr>
      | None \<Rightarrow> fi0\<lparr>is_latest := it_latest st\<rparr>) = fi0\<lparr>is_latest := it_latest st, successor_mod_time := s\<rparr>"
    by (cases "it_succ st"; cases fi0) auto
  have p: "put_id (fi0\<lparr>is_latest := l, successor_mod_time := s\<rparr>) = put_id fi0" for l by (simp add: put_id_def)
  let ?d = "if rd then d else fi_data fi0"
  have "into_step lb vol path any vid rd False ap self ver st = Some (Inr (st\<lparr>it_found := True, it_fi := Some (?fi s ?d)\<rparr>))"
    using assms(1-3) s d p by (auto simp: into_step_def Let_def fi inline_of_def put_id_def [symmetric])
  then show ?thesis using d by (auto simp: completed_def)
qed

lemma into_loop_here:
  assumes "\<not> it_found st" "any \<or> vh_version_id (header ver) = Some vid" "\<not> header_free_version (header ver)"
    and "shallow_into_fileinfo (lb_time lb) (lb_caps lb) (lb_serde lb) vol path ap ver = Some (Inr fi0)"
    and "inline_find (lb_rmp lb) (uuid_text lb (put_id fi0)) (fm_data self) = Some (Inr d)"
  shows "\<exists>st' fi. into_loop lb vol path any vid rd False ap self (ver # vs) st = Some (Inr st') \<and> it_found st'
    \<and> it_fi st' = Some fi \<and> completed lb rd self fi0 fi \<and> is_latest fi = it_latest st"
proof -
  obtain st1 fi where st1: "into_step lb vol path any vid rd False ap self ver st = Some (Inr st1)" "it_found st1"
    "it_fi st1 = Some fi" "completed lb rd self fi0 fi" "is_latest fi = it_latest st"
    using into_step_here [OF assms] by blast
  obtain st2 where "into_loop lb vol path any vid rd False ap self vs st1 = Some (Inr st2)" "it_found st2" "it_fi st2 = it_fi st1"
    using into_loop_found [OF st1(2)] by blast
  then show ?thesis using st1 by simp
qed

lemma into_loop_finds:
  assumes "\<not> it_found st" "position (\<lambda>v. vh_version_id (header v) = Some vid) vs = Some i"
    and "\<not> header_free_version (header (vs ! i))"
    and "shallow_into_fileinfo (lb_time lb) (lb_caps lb) (lb_serde lb) vol path ap (vs ! i) = Some (Inr fi0)"
    and "inline_find (lb_rmp lb) (uuid_text lb (put_id fi0)) (fm_data self) = Some (Inr d)"
  shows "\<exists>st' fi. into_loop lb vol path False vid rd False ap self vs st = Some (Inr st') \<and> it_found st'
    \<and> it_fi st' = Some fi \<and> completed lb rd self fi0 fi"
  using assms(1-4)
proof (induction vs arbitrary: st i)
  case (Cons v vs)
  show ?case
  proof (cases "vh_version_id (header v) = Some vid")
    case True
    then have "i = 0" using Cons.prems(2) by simp
    then have "\<not> header_free_version (header v)"
      "shallow_into_fileinfo (lb_time lb) (lb_caps lb) (lb_serde lb) vol path ap v = Some (Inr fi0)"
      using Cons.prems by simp_all
    from into_loop_here [OF Cons.prems(1) disjI2 [OF True] this assms(5)] show ?thesis by blast
  next
    case False
    obtain st1 where st1: "into_step lb vol path False vid rd False ap self v st = Some (Inr st1)" "\<not> it_found st1"
      using into_step_skip [OF Cons.prems(1) False] by blast
    obtain k where k: "i = Suc k" "position (\<lambda>v. vh_version_id (header v) = Some vid) vs = Some k"
      using Cons.prems(2) False by auto
    then show ?thesis using Cons.IH [OF st1(2) k(2)] Cons.prems(3,4) st1(1) by simp
  qed
qed simp

lemma into_fileinfo_finds:
  assumes "version_id \<noteq> []" "parse_str lb version_id = Inr vid"
    and "position (\<lambda>v. vh_version_id (header v) = Some vid) (fm_versions self) = Some i"
    and "\<not> header_free_version (header (fm_versions self ! i))"
    and "shallow_into_fileinfo (lb_time lb) (lb_caps lb) (lb_serde lb) vol path ap (fm_versions self ! i) = Some (Inr fi0)"
    and "inline_find (lb_rmp lb) (uuid_text lb (put_id fi0)) (fm_data self) = Some (Inr d)"
  shows "\<exists>fi n. into_fileinfo lb vol path version_id rd False ap self = Some (Inr (fi\<lparr>num_versions := n\<rparr>))
    \<and> completed lb rd self fi0 fi"
proof -
  have "\<not> it_found \<lparr>it_latest = True, it_succ = None, it_non_free = length (fm_versions self), it_found = False,
      it_free = None, it_fi = None\<rparr>" by simp
  from into_loop_finds [OF this assms(3-6), of rd] show ?thesis
    using assms(1,2) by (auto simp: into_fileinfo_def) blast
qed

lemma stored_position:
  assumes "meta_inv lb self" "stored lb self vid = Some x"
  obtains i where "position (\<lambda>v. vh_version_id (header v) = vid) (fm_versions self) = Some i"
    "i < length (fm_versions self)" "holds (lb_serde lb) (fm_versions self ! i) x"
proof -
  obtain i where i: "position (\<lambda>v. vh_version_id (header v) = vid) (fm_versions self) = Some i"
    using assms(2) by (auto simp: stored_def split: option.splits)
  then have "i < length (fm_versions self)" by (simp add: position_Some)
  then have "\<exists>y. holds (lb_serde lb) (fm_versions self ! i) y" using assms(1) by (auto simp: meta_inv_def list_all_length readable_def)
  moreover have "from_slice (lb_serde lb) (meta (fm_versions self ! i)) = Inr x"
    using assms(2) i by (auto simp: stored_def split: sum.splits)
  ultimately show thesis using i that \<open>i < _\<close> by (auto simp: holds_def)
qed

lemma storable_version_id [simp]: "storable (fi\<lparr>fi_version_id := v\<rparr>) = storable fi"
  by (simp add: storable_def)

lemma described_version_id: "described (fi\<lparr>fi_version_id := Some (put_id fi)\<rparr>) fi' \<longleftrightarrow> described fi fi'"
proof -
  have "non_nil (Some (put_id fi)) = non_nil (fi_version_id fi)" by (simp add: put_id_def non_nil_def split: option.split)
  then show ?thesis by (simp add: described_def transition_info_equals_def)
qed

lemma put_id_described: "described fi fi' \<Longrightarrow> put_id fi' = put_id fi"
  by (auto simp: described_def put_id_def non_nil_def split: option.splits)

lemma completed_described:
  assumes "completed lb rd self fi0 fi1" "described fi fi0"
  shows "described fi (fi1\<lparr>num_versions := n\<rparr>)"
proof -
  obtain l s d where "fi1 = fi0\<lparr>is_latest := l, successor_mod_time := s, fi_data := d\<rparr>"
    using assms(1) by (auto simp: completed_def)
  then show ?thesis using assms(2) by (simp add: described_def transition_info_equals_def)
qed

lemma add_newest:
  assumes inv: "meta_inv lb self" and x: "version_valid x" "stores (lb_serde lb) x"
    and new: "stored lb self (get_version_id x) = None" "list_all (\<lambda>t. t \<le> get_mod_time x) (times_of (fm_versions self))"
  obtains s where "add_version_filemata lb x self = (self\<lparr>fm_versions := s # fm_versions self\<rparr>, Inr ())" "holds (lb_serde lb) s x"
proof -
  obtain s where s: "shallow_from (lb_time lb) (lb_serde lb) x = Inr s" "holds (lb_serde lb) s x"
    using shallow_holds [OF x] by blast
  have p: "position (\<lambda>v. vh_version_id (header v) = get_version_id x) (fm_versions self) = None"
    using new(1) stored_None [OF inv] by simp
  have "add_version_filemata lb x self = (self\<lparr>fm_versions := s # fm_versions self\<rparr>, Inr ())"
  proof (cases "fm_versions self")
    case (Cons v vs)
    have "readable (lb_serde lb) v" using inv Cons by (simp add: meta_inv_def)
    then have "not_newer (get_mod_time x) v" using new(2) Cons by (simp add: not_newer_le [OF _ x(1)] times_of_def)
    then have "position (not_newer (get_mod_time x)) (fm_versions self) = Some 0" using Cons by simp
    then show ?thesis using p s(1) x(1) Cons by (simp add: add_version_filemata_def insert_at_def)
  qed (use s(1) x(1) in \<open>simp add: add_version_filemata_def\<close>)
  then show thesis using that s(2) by blast
qed

lemma into_fileinfo_latest:
  assumes "fm_versions self = v # vs" "\<not> header_free_version (header v)"
    and "shallow_into_fileinfo (lb_time lb) (lb_caps lb) (lb_serde lb) vol path ap v = Some (Inr fi0)"
    and "inline_find (lb_rmp lb) (uuid_text lb (put_id fi0)) (fm_data self) = Some (Inr d)"
  shows "\<exists>fi n. into_fileinfo lb vol path [] rd False ap self = Some (Inr (fi\<lparr>num_versions := n\<rparr>))
    \<and> completed lb rd self fi0 fi \<and> is_latest fi"
proof -
  let ?st = "\<lparr>it_latest = True, it_succ = None, it_non_free = length (fm_versions self), it_found = False,
      it_free = None, it_fi = None\<rparr>"
  have "\<not> it_found ?st" by simp
  from into_loop_here [OF this disjI1 [OF TrueI] assms(2-4), of 0 rd vs] show ?thesis
    using assms(1) by (auto simp: into_fileinfo_def) blast
qed

lemma put_described:
  assumes "holds (lb_serde lb) s (put_version fi)"
    and fi: "storable fi" "ei_algorithm (erasure fi) = ERASURE_ALGORITHM" "\<not> deleted fi"
  obtains fi0 where "shallow_into_fileinfo (lb_time lb) (lb_caps lb) (lb_serde lb) vol path True s = Some (Inr fi0)"
    "described fi fi0" "fi_data fi0 = None" "\<not> header_free_version (header s)"
proof -
  obtain fi0 where fi0: "version_into_fileinfo (lb_time lb) (lb_caps lb) vol path True (put_version fi) = Some fi0"
    "described fi fi0" "fi_data fi0 = None"
    by (rule version_described [of "fi\<lparr>fi_version_id := Some (put_id fi)\<rparr>" "lb_time lb" "lb_caps lb" vol path])
      (use fi in \<open>simp_all add: put_version_def described_version_id\<close>)
  moreover have "\<not> header_free_version (header s)"
    using assms(1) fi(3) by (simp add: holds_def version_free_version_def put_version_simps)
  ultimately show thesis using that assms(1) by (simp add: shallow_into_fileinfo_def holds_def)
qed

lemma completed_data:
  assumes "completed lb rd self fi0 fi1" "described fi fi0" "fi_data fi0 = None"
    and "\<forall>k. inline_find (lb_rmp lb) k (fm_data self) = Some (Inr (put_data lb fi kvs k))"
  shows "fi_data fi1 = (if rd then put_data lb fi kvs (uuid_text lb (put_id fi)) else None)"
  using assms put_id_described [OF assms(2)] by (auto simp: completed_def)

subsection \<open>Properties\<close>

text \<open>
  C7: Adding a version to a metadata file puts exactly that version under its identifier, and
  its inline data under the text of the identifier, keeping the file sorted, readable and
  without duplicates; it fails exactly when the identifier is new and every version there is
  newer, and then no version changes.
\<close>

theorem add_version_refines:
  assumes "meta_inv lb self" "rmp_laws (lb_rmp lb)" "data_holds lb self kvs" "data_fits lb fi"
    and "fi_mod_time fi = Some t" "0 < t" "stores (lb_serde lb) (put_version fi)"
  shows "\<exists>self' r. add_version lb fi self = Some (self', r) \<and> meta_inv lb self'
    \<and> (if older_than_all lb (put_version fi) self
        then r = Inl (fm_other ''add_version failed'') \<and> stored lb self' = stored lb self
        else r = Inr () \<and> stored lb self' = (stored lb self)(Some (put_id fi) \<mapsto> put_version fi))
    \<and> (\<forall>k. inline_find (lb_rmp lb) k (fm_data self') = Some (Inr (put_data lb fi kvs k)))"
proof (cases "older_than_all lb (put_version fi) self")
  case True
  obtain d where d: "add_version lb fi self = Some (add_version_filemata lb (put_version fi) (self\<lparr>fm_data := d\<rparr>))"
    "\<forall>k. inline_find (lb_rmp lb) k d = Some (Inr (put_data lb fi kvs k))"
    using add_version_data [OF assms(2-4)] by blast
  have "meta_inv lb (self\<lparr>fm_data := d\<rparr>)" using assms(1) by simp
  from add_version_filemata_spec [OF this put_version_valid [OF assms(5,6)] assms(7)]
  show ?thesis using d assms(1) True by simp
next
  case False
  from add_version_ok [OF assms False] show ?thesis using False by metis
qed



subsection \<open>An instance\<close>

definition sample_serde :: "FileMetaVersion \<Rightarrow> serde" where
  "sample_serde x = \<lparr>to_vec = (\<lambda>v. if v = x then Inr [1] else Inl (FmRmpSerdeEncode [])),
     from_slice = (\<lambda>b. if b = [1] then Inr x else Inl (FmRmpSerdeDecode []))\<rparr>"

definition sample_libs :: "FileMetaVersion \<Rightarrow> libs" where
  "sample_libs x = \<lparr>lb_time = sample_clock, lb_caps = (\<lambda>_. []), lb_serde = sample_serde x, lb_rmp = rmp4,
     uuid_text = (\<lambda>u. if u = 7 then ''7'' else ''0''), parse_str = (\<lambda>s. if s = ''7'' then Inr 7 else Inl (FmUuidParse [])),
     time_text = (\<lambda>_. [])\<rparr>"

definition sample_object :: FileInfo where
  "sample_object = sample_fi\<lparr>fi_data := Some [5, 6]\<rparr>"

lemma sample_object_simps:
  "put_id sample_object = 7" "fi_mod_time sample_object = Some 1000" "fi_data sample_object = Some [5, 6]"
  "ei_algorithm (erasure sample_object) = ERASURE_ALGORITHM" "\<not> deleted sample_object" "storable sample_object"
proof -
  show "storable sample_object" using sample_fi_storable by (simp add: sample_object_def storable_def)
qed (simp_all add: sample_object_def sample_fi_def put_id_def FileInfo_default_def)

lemma sample_libs_simps [simp]:
  "lb_rmp (sample_libs x) = rmp4" "uuid_text (sample_libs x) 7 = ''7''" "parse_str (sample_libs x) ''7'' = Inr 7"
  "stores (lb_serde (sample_libs x)) x"
  by (simp_all add: sample_libs_def sample_serde_def stores_def)

lemma sample_ready:
  "data_holds (sample_libs x) FileMeta_new []" "data_fits (sample_libs x) sample_object"
  "\<not> older_than_all (sample_libs x) y FileMeta_new"
  by (simp_all add: data_holds_def FileMeta_new_def serialize_def fits_def data_fits_def sample_object_simps
      entry_fits_def is_utf8_ascii older_than_all_def)

lemmas sample_facts = meta_inv_new [of "sample_libs (put_version sample_object)"]
  rmp4_laws [folded sample_libs_simps(1) [of "put_version sample_object"]]
  sample_ready(1,2) [of "put_version sample_object"] sample_object_simps(2)

theorem add_version_refines_witness:
  "\<exists>self' r. add_version (sample_libs (put_version sample_object)) sample_object FileMeta_new = Some (self', r)
    \<and> r = Inr () \<and> stored (sample_libs (put_version sample_object)) self' (Some 7) = Some (put_version sample_object)
    \<and> inline_find rmp4 ''7'' (fm_data self') = Some (Inr (Some [5, 6]))"
  using add_version_refines [OF sample_facts _ sample_libs_simps(4)] sample_ready(3)
  by (fastforce simp: sample_object_simps put_data_def)



end
