(* ===== verification/FileMetaDelete.thy ===== *)
theory FileMetaDelete
  imports FileMetaSpec
begin

text \<open>
  Deletion of a version: what is removed, which delete marker is added, and when the data
  directory is given back to be deleted.
\<close>

subsection \<open>The scan and the removal\<close>

lemma delete_scan_absent:
  assumes "list_all (\<lambda>v. vh_version_id (header v) \<noteq> vid) vs"
  shows "delete_scan vid upd k vs f = Inr f"
  using assms by (induction vs arbitrary: k) auto

lemma delete_scan_object:
  assumes "position (\<lambda>v. vh_version_id (header v) = vid) vs = Some i" "vh_version_type (header (vs ! i)) = VtObject"
    and "distinct (ids vs)"
  shows "delete_scan vid False k vs f = Inr (Some (k + i))"
  using assms
proof (induction vs arbitrary: k i)
  case (Cons v vs)
  show ?case
  proof (cases "vh_version_id (header v) = vid")
    case True
    then have "i = 0" using Cons.prems(1) by simp
    moreover have "list_all (\<lambda>u. vh_version_id (header u) \<noteq> vid) vs"
      using Cons.prems(3) True by (auto simp: ids_def list_all_iff image_iff)
    ultimately show ?thesis using True Cons.prems(2) by (simp add: delete_scan_absent)
  next
    case False
    then show ?thesis using Cons.prems Cons.IH by (auto simp: ids_def)
  qed
qed simp

lemma remove_at_nth: "i < length xs \<Longrightarrow> xs = take i xs @ xs ! i # drop (Suc i) xs"
  by (rule id_take_nth_drop)

lemma sorted_wrt_remove_at: "sorted_wrt P xs \<Longrightarrow> sorted_wrt P (remove_at i xs)"
proof (cases "i < length xs")
  case True
  assume "sorted_wrt P xs"
  then have "sorted_wrt P (take i xs @ xs ! i # drop (Suc i) xs)" using remove_at_nth [OF True] by simp
  then show ?thesis by (auto simp: remove_at_def sorted_wrt_append)
qed (simp add: remove_at_def)

lemma map_remove_at: "map f (remove_at i xs) = remove_at i (map f xs)"
  by (simp add: remove_at_def take_map drop_map)

lemma distinct_remove_at: "distinct xs \<Longrightarrow> distinct (remove_at i xs)"
  by (simp add: remove_at_def set_take_disj_set_drop_if_distinct)

lemma set_remove_at_ids:
  assumes "distinct (ids vs)" "i < length vs" "vh_version_id (header (vs ! i)) = vid"
  shows "set (remove_at i vs) = {v \<in> set vs. vh_version_id (header v) \<noteq> vid}"
proof -
  have vs: "vs = take i vs @ vs ! i # drop (Suc i) vs" by (rule remove_at_nth [OF assms(2)])
  have "distinct (ids (take i vs @ vs ! i # drop (Suc i) vs))" using assms(1) vs by simp
  then have "\<forall>v \<in> set (take i vs) \<union> set (drop (Suc i) vs). vh_version_id (header v) \<noteq> vid"
    using assms(3) by (auto simp: ids_def image_iff)
  moreover have "set vs = insert (vs ! i) (set (take i vs) \<union> set (drop (Suc i) vs))" by (subst vs) auto
  ultimately show ?thesis using assms(3) by (auto simp: remove_at_def)
qed

lemma remove_entry:
  assumes inv: "meta_inv lb self" and i: "i < length (fm_versions self)" "vh_version_id (header (fm_versions self ! i)) = vid"
  shows "meta_inv lb (self\<lparr>fm_versions := remove_at i (fm_versions self)\<rparr>)
    \<and> stored lb (self\<lparr>fm_versions := remove_at i (fm_versions self)\<rparr>) = (stored lb self)(vid := None)"
proof -
  let ?self = "self\<lparr>fm_versions := remove_at i (fm_versions self)\<rparr>"
  have d: "distinct (ids (fm_versions self))" using inv by (simp add: meta_inv_def)
  note set = set_remove_at_ids [OF d i]
  have "distinct (ids (remove_at i (fm_versions self)))"
    using d by (simp add: ids_def map_remove_at distinct_remove_at)
  moreover have "sorted_wrt (\<lambda>a b. b \<le> a) (times_of (remove_at i (fm_versions self)))"
    using inv by (simp add: times_of_def map_remove_at sorted_wrt_remove_at meta_inv_def is_sorted_times)
  ultimately have inv': "meta_inv lb ?self" using inv by (auto simp: meta_inv_def is_sorted_times list_all_iff set)
  have "stored lb ?self v = ((stored lb self)(vid := None)) v" for v
  proof (cases "v = vid")
    case True
    have "stored lb ?self v \<noteq> Some x" for x unfolding stored_iff [OF inv'] using True by (auto simp: set)
    then show ?thesis using True by auto
  next
    case False
    then have "stored lb ?self v = stored lb self v" by (intro stored_eqI [OF inv' inv]) (auto simp: set)
    then show ?thesis using False by simp
  qed
  then show ?thesis using inv' by blast
qed

lemma shared_count_total:
  assumes "rmp_laws (lb_rmp lb)" "data_holds lb self kvs" "fm_data self' = fm_data self"
  shows "\<exists>n. shared_data_dir_count lb vid dir self' = Some n"
proof -
  have "fits kvs" "fm_data self' = serialize (lb_rmp lb) kvs" using assms(2,3) by (simp_all add: data_holds_def)
  then show ?thesis using inline_find_serialize [OF assms(1)] by (simp add: shared_data_dir_count_def Let_def)
qed

lemma find_version_absent:
  assumes "meta_inv lb self" "stored lb self (Some (case vid of Some u \<Rightarrow> u | None \<Rightarrow> 0)) = None"
  shows "find_version lb vid self = Some (Inl FmFileVersionNotFound)"
  using assms by (simp add: find_version_def Let_def stored_None)

subsection \<open>Deleting an object version\<close>

text \<open>A plain request to delete an object: no marker, no replication, no tiering.\<close>

definition plain_delete :: "FileInfo \<Rightarrow> MetaObject \<Rightarrow> bool" where
  "plain_delete fi obj \<longleftrightarrow> \<not> deleted fi \<and> \<not> update_version fi \<and> \<not> expire_restored fi
    \<and> transition_status fi \<noteq> TRANSITION_COMPLETE \<and> (skip_tier_free_version fi \<or> \<not> transitioned obj)"

lemma plain_delete_run:
  assumes inv: "meta_inv lb self" and ver: "stored lb self (delete_vid fi) = Some ver"
    "fv_version_type ver = VtObject" "fv_object ver = Some obj" and fi: "plain_delete fi obj"
  obtains self' where "meta_inv lb self'" "stored lb self' = (stored lb self)(delete_vid fi := None)"
    "set (fm_versions self') \<subseteq> set (fm_versions self)" "fm_data self' = fm_data self"
    "\<And>n. shared_data_dir_count lb (mo_version_id obj) (mo_data_dir obj) self' = Some n \<Longrightarrow>
      delete_version lb fi self = Some (self', Inr (if n > 0 then None else mo_data_dir obj))"
proof -
  obtain i where i: "position (\<lambda>v. vh_version_id (header v) = delete_vid fi) (fm_versions self) = Some i"
    "i < length (fm_versions self)" "holds (lb_serde lb) (fm_versions self ! i) ver" using stored_position [OF inv ver(1)] by blast
  let ?self = "self\<lparr>fm_versions := remove_at i (fm_versions self)\<rparr>"
  have id: "vh_version_id (header (fm_versions self ! i)) = delete_vid fi" using i(1) by (simp add: position_Some)
  have d: "distinct (ids (fm_versions self))" using inv by (simp add: meta_inv_def)
  have "vh_version_type (header (fm_versions self ! i)) = VtObject" using i(3) ver(2) by (simp add: holds_def)
  from delete_scan_object [OF i(1) this d, of 0 None]
  have scan: "delete_scan (delete_vid fi) False 0 (fm_versions self) None = Inr (Some i)" by simp
  have g: "get_idx lb i self = Some (Inr ver)" using i(2,3) by (simp add: get_idx_def holds_def)
  have o: "delete_object lb fi i ver obj self = Some (?self, None)"
    using fi by (auto simp: delete_object_def plain_delete_def init_free_version_def Let_def)
  have del: "delete_version lb fi self = Some (?self, Inr (if n > 0 then None else mo_data_dir obj))"
    if "shared_data_dir_count lb (mo_version_id obj) (mo_data_dir obj) ?self = Some n" for n
    using fi scan g o that ver(3) by (simp add: delete_version_def plain_delete_def)
  have sub: "set (fm_versions ?self) \<subseteq> set (fm_versions self)" using set_remove_at_ids [OF d i(2) id] by auto
  show thesis using that [of ?self] remove_entry [OF inv i(2) id] sub del by simp
qed


subsection \<open>Shared data directories\<close>

text \<open>
  Objects without a restore header, with the header they were written with at whatever time.
\<close>

definition ordinary :: "FileMetaShallowVersion \<Rightarrow> bool" where
  "ordinary v \<longleftrightarrow> (\<exists>ck x. header v = version_header ck x
    \<and> (\<forall>obj. fv_object x = Some obj \<longrightarrow> fmlookup (meta_user obj) X_AMZ_RESTORE = None))"

lemma ordinary_no_data_dir:
  assumes "ordinary v"
  shows "\<not> header_uses_data_dir (header v)"
proof -
  obtain ck x where x: "header v = version_header ck x"
    "\<And>obj. fv_object x = Some obj \<Longrightarrow> fmlookup (meta_user obj) X_AMZ_RESTORE = None"
    using assms by (auto simp: ordinary_def)
  then have "\<not> (case fv_object x of Some obj \<Rightarrow> object_uses_data_dir ck obj | None \<Rightarrow> False)"
    by (auto simp: object_uses_data_dir_def is_restored_object_on_disk_def split: option.split)
  then have "header_flags ck x AND Flags_UsesDataDir = 0"
    by (simp add: header_flags_def Flags_FreeVersion_def Flags_UsesDataDir_def Flags_InlineData_def)
  then show ?thesis by (simp add: x(1) header_uses_data_dir_def version_header_def Let_def)
qed

lemma ordinary_shared_count:
  assumes "list_all ordinary (fm_versions self)" "shared_data_dir_count lb vid dir self = Some n"
  shows "n = 0"
proof -
  have "filter (shares_dir lb u dir) (fm_versions self) = []" for u
    using assms(1) ordinary_no_data_dir by (auto simp: filter_empty_conv list_all_iff shares_dir_def)
  then show ?thesis using assms(2) by (auto simp: shared_data_dir_count_def Let_def split: if_splits option.splits)
qed

text \<open>
  Deleting a version gives back its data directory for removal even when another version
  that stays in the file has the same data directory, as long as no object has a restore header.
\<close>

theorem delete_gives_back_shared_dir:
  assumes "meta_inv lb self" "stored lb self (delete_vid fi) = Some ver"
    "fv_version_type ver = VtObject" "fv_object ver = Some obj" "plain_delete fi obj"
    and "rmp_laws (lb_rmp lb)" "data_holds lb self kvs" "list_all ordinary (fm_versions self)"
    and "stored lb self vid' = Some ver'" "vid' \<noteq> delete_vid fi" "version_data_dir ver' = mo_data_dir obj"
  shows "\<exists>self'. delete_version lb fi self = Some (self', Inr (mo_data_dir obj))
    \<and> stored lb self' vid' = Some ver' \<and> version_data_dir ver' = mo_data_dir obj"
proof -
  obtain self' where s: "stored lb self' = (stored lb self)(delete_vid fi := None)"
    "set (fm_versions self') \<subseteq> set (fm_versions self)" "fm_data self' = fm_data self"
    "\<And>n. shared_data_dir_count lb (mo_version_id obj) (mo_data_dir obj) self' = Some n \<Longrightarrow>
      delete_version lb fi self = Some (self', Inr (if n > 0 then None else mo_data_dir obj))"
    using plain_delete_run [OF assms(1-5)] by metis
  obtain n where n: "shared_data_dir_count lb (mo_version_id obj) (mo_data_dir obj) self' = Some n"
    using shared_count_total [OF assms(6,7) s(3)] by blast
  have "list_all ordinary (fm_versions self')" using assms(8) s(2) by (auto simp: list_all_iff)
  then have "n = 0" using ordinary_shared_count n by blast
  then show ?thesis using s(1) s(4) [OF n] assms(9-11) by auto
qed

subsection \<open>Adding a delete marker\<close>

lemma delete_entry_plain:
  assumes "deleted fi" "replication_state_internal fi = None"
  shows "delete_entry lb fi = put_version fi"
proof -
  have r: "version_purge_status fi = VEmpty" "delete_marker_replication_status fi = REmpty" "reset_entries fi = fmempty"
    using assms by (simp_all add: version_purge_status_def delete_marker_replication_status_def reset_entries_def repl_state_def)
  show ?thesis using assms(1) r
    by (simp add: delete_entry_def marker_replication_def put_version_def FileMetaVersion_from_def
        MetaDeleteMarker_from_def FileMetaVersion_default_def delete_vid_def put_id_def)
qed

lemma delete_vid_put: "delete_vid fi = Some (put_id fi)"
  by (simp add: delete_vid_def put_id_def)

lemma marker_run:
  assumes inv: "meta_inv lb self" and fi: "deleted fi" "replication_state_internal fi = None"
    and new: "stored lb self (Some (put_id fi)) = None"
  shows "delete_version lb fi self = Some (set_result None (add_version_filemata lb (put_version fi) self))"
proof -
  have "list_all (\<lambda>v. vh_version_id (header v) \<noteq> delete_vid fi) (fm_versions self)"
    using new stored_None [OF inv] by (simp add: position_None delete_vid_put)
  from delete_scan_absent [OF this] show ?thesis
    using fi by (simp add: delete_version_def FileInfo_is_valid_def add_marker_def set_result_def delete_entry_plain [OF fi])
qed

lemma marker_described:
  assumes "holds (lb_serde lb) s (put_version fi)" "deleted fi"
  obtains fi0 where "shallow_into_fileinfo (lb_time lb) (lb_caps lb) (lb_serde lb) vol path ap s = Some (Inr fi0)"
    "deleted fi0" "fi_mod_time fi0 = fi_mod_time fi" "\<not> header_free_version (header s)"
proof -
  have v: "fv_version_type (put_version fi) = VtDelete" "fv_delete_marker (put_version fi) = Some
      \<lparr>dm_version_id = Some (put_id fi), dm_mod_time = fi_mod_time fi, dm_meta_sys = fmempty\<rparr>"
    using assms(2) by (simp_all add: put_version_def FileMetaVersion_from_def MetaDeleteMarker_from_def)
  then have "\<not> version_free_version (put_version fi)" by (simp add: version_free_version_def marker_free_version_def)
  moreover have "\<exists>fi0. version_into_fileinfo (lb_time lb) (lb_caps lb) vol path ap (put_version fi) = Some fi0
    \<and> deleted fi0 \<and> fi_mod_time fi0 = fi_mod_time fi"
    using v by (simp add: version_into_fileinfo_def marker_into_fileinfo_def marker_free_version_def Let_def)
  ultimately show thesis using that assms(1) by (auto simp: shallow_into_fileinfo_def holds_def)
qed


subsection \<open>An instance\<close>

text \<open>Two versions with the same data directory.\<close>

definition sample_a :: FileInfo where
  "sample_a = sample_fi\<lparr>fi_data_dir := Some 9\<rparr>"

definition sample_b :: FileInfo where
  "sample_b = sample_a\<lparr>fi_version_id := Some 8, fi_mod_time := Some 900\<rparr>"

definition two_serde :: serde where
  "two_serde =
    \<lparr>to_vec = (\<lambda>v. if v = put_version sample_a then Inr [1] else if v = put_version sample_b then Inr [2]
       else Inl (FmRmpSerdeEncode [])),
     from_slice = (\<lambda>b. if b = [1] then Inr (put_version sample_a) else if b = [2] then Inr (put_version sample_b)
       else Inl (FmRmpSerdeDecode []))\<rparr>"

definition two_libs :: libs where
  "two_libs = (sample_libs FileMetaVersion_default)\<lparr>lb_serde := two_serde\<rparr>"

definition two_entries :: "FileMetaShallowVersion list" where
  "two_entries = [\<lparr>header = version_header sample_clock (put_version sample_a), meta = [1]\<rparr>,
     \<lparr>header = version_header sample_clock (put_version sample_b), meta = [2]\<rparr>]"

definition two_versions :: FileMeta where
  "two_versions = FileMeta_new\<lparr>fm_versions := two_entries\<rparr>"

definition delete_a :: FileInfo where
  "delete_a = FileInfo_default\<lparr>fi_version_id := Some 7\<rparr>"

lemma two_simps:
  "put_id sample_a = 7" "put_id sample_b = 8" "fi_mod_time sample_a = Some 1000" "fi_mod_time sample_b = Some 900"
  "\<not> deleted sample_a" "\<not> deleted sample_b" "fi_data_dir sample_a = Some 9" "fi_data_dir sample_b = Some 9"
  "storable sample_a" "storable sample_b" "transition_status sample_a = []"
proof -
  show "storable sample_a" "storable sample_b" using sample_fi_storable by (simp_all add: sample_a_def sample_b_def storable_def)
qed (simp_all add: sample_a_def sample_b_def sample_fi_def put_id_def FileInfo_default_def)

lemma two_valid: "version_valid (put_version sample_a)" "version_valid (put_version sample_b)"
  using put_version_valid [OF two_simps(3)] put_version_valid [OF two_simps(4)] by simp_all

lemma two_holds:
  "list_all2 (holds (lb_serde two_libs)) two_entries [put_version sample_a, put_version sample_b]"
  using two_valid by (simp add: two_entries_def holds_def two_libs_def two_serde_def)

lemma two_inv: "meta_inv two_libs two_versions"
proof -
  have "list_all (readable (lb_serde two_libs)) two_entries"
    using two_holds by (auto simp: two_entries_def readable_def)
  then show ?thesis
    by (simp add: meta_inv_def two_versions_def two_entries_def ids_def is_sorted_by_mod_time_def put_version_simps two_simps)
qed

lemma two_stored:
  "stored two_libs two_versions (Some 7) = Some (put_version sample_a)"
  "stored two_libs two_versions (Some 8) = Some (put_version sample_b)"
  by (simp_all add: stored_def two_versions_def two_entries_def put_version_simps two_simps two_libs_def two_serde_def)

lemma two_object: "fv_object (put_version f) = Some (MetaObject_from (f\<lparr>fi_version_id := Some (put_id f)\<rparr>))" if "\<not> deleted f"
  using that by (simp add: put_version_def FileMetaVersion_from_def)

lemma delete_a_plain: "plain_delete delete_a (MetaObject_from (sample_a\<lparr>fi_version_id := Some (put_id sample_a)\<rparr>))"
proof -
  have "storable (sample_a\<lparr>fi_version_id := Some (put_id sample_a)\<rparr>)" using two_simps by simp
  from sys_own(1) [OF this] have "\<not> transitioned (MetaObject_from (sample_a\<lparr>fi_version_id := Some (put_id sample_a)\<rparr>))"
    by (simp add: transitioned_def MetaObject_from_def two_simps)
  then show ?thesis
    by (simp add: plain_delete_def delete_a_def FileInfo_default_def update_version_def version_purge_status_def
        delete_marker_replication_status_def TRANSITION_COMPLETE_def Let_def)
qed

lemma two_data: "rmp_laws (lb_rmp two_libs)" "data_holds two_libs two_versions []"
  using rmp4_laws by (simp_all add: two_libs_def data_holds_def two_versions_def FileMeta_new_def serialize_def fits_def)

lemma delete_a_vid: "delete_vid delete_a = Some 7"
  by (simp add: delete_vid_def delete_a_def)

lemma two_ordinary: "list_all ordinary (fm_versions two_versions)"
proof -
  have "fmlookup (meta_user obj) X_AMZ_RESTORE = None"
    if "fv_object (put_version f) = Some obj" "f = sample_a \<or> f = sample_b" for f obj
    using that two_object [of f] two_simps
    by (auto simp: MetaObject_from_def user_of_metadata_def sample_a_def sample_b_def sample_fi_def X_AMZ_RESTORE_def)
  then show ?thesis by (auto simp: two_versions_def two_entries_def ordinary_def)
qed


theorem delete_gives_back_shared_dir_witness:
  "\<exists>self'. delete_version two_libs delete_a two_versions = Some (self', Inr (Some 9))
    \<and> stored two_libs self' (Some 8) = Some (put_version sample_b) \<and> version_data_dir (put_version sample_b) = Some 9"
proof -
  have s: "stored two_libs two_versions (delete_vid delete_a) = Some (put_version sample_a)"
    "fv_version_type (put_version sample_a) = VtObject" using two_stored by (simp_all add: delete_a_vid put_version_simps two_simps)
  have d: "version_data_dir (put_version sample_b) = Some 9" "mo_data_dir (MetaObject_from (sample_a\<lparr>fi_version_id := v\<rparr>)) = Some 9" for v
    using two_valid(2) by (simp_all add: version_data_dir_def two_object two_simps put_version_simps MetaObject_from_def)
  have n: "Some 8 \<noteq> delete_vid delete_a" by (simp add: delete_a_vid)
  from delete_gives_back_shared_dir [OF two_inv s two_object [OF two_simps(5)] delete_a_plain two_data two_ordinary two_stored(2) n]
  show ?thesis using d by simp
qed

definition sample_marker :: FileInfo where
  "sample_marker = FileInfo_default\<lparr>fi_version_id := Some 7, deleted := True, fi_mod_time := Some 2000\<rparr>"


end
