(* ===== verification/FileMetaMerge.thy ===== *)
theory FileMetaMerge
  imports FileMetaVersion Tally "HOL-Library.Sublist"
begin

text \<open>
  Merging the version lists of the drives of a set, crates/filemeta/src/filemeta/version.rs,
  merge_file_meta_versions. In each round the first versions of all lists are compared; the
  newest one that enough lists agree on is emitted, and the lists are cut. The order in which
  the hash map of headers is visited is the argument \<^verbatim>\<open>ord\<close>. The loop is a partial function that
  is shown to return.
\<close>

type_synonym version_stream = "FileMetaShallowVersion list"

text \<open>The first versions of the lists and whether they agree.\<close>

fun scan_tops :: "version_stream list \<Rightarrow> FileMetaShallowVersion list \<Rightarrow> FileMetaVersionHeader \<Rightarrow> bool \<Rightarrow>
    FileMetaShallowVersion list \<times> bool" where
  "scan_tops [] tops top_sig consistent = (tops, consistent)"
| "scan_tops ([] # rest) tops top_sig consistent = scan_tops rest tops top_sig False"
| "scan_tops ((v # _) # rest) tops top_sig consistent =
    (if tops = [] then scan_tops rest [v] (header v) True
     else scan_tops rest (tops @ [v]) top_sig (consistent \<and> header v = top_sig))"

definition strip_signature :: "bool \<Rightarrow> FileMetaVersionHeader \<Rightarrow> FileMetaVersionHeader" where
  "strip_signature strict h = (if strict then h else h\<lparr>signature := [0, 0, 0, 0]\<rparr>)"

text \<open>The count over all first versions with the identifier that two of them disagree on.\<close>

fun vote_loop :: "bool \<Rightarrow> FileMetaShallowVersion list \<Rightarrow> FileMetaVersionHeader counts \<Rightarrow> FileMetaShallowVersion \<Rightarrow> nat \<Rightarrow>
    FileMetaShallowVersion \<times> nat" where
  "vote_loop strict tops [] latest latest_count = (latest, latest_count)"
| "vote_loop strict tops ((k, v) # x) latest latest_count =
    (if v < latest_count then vote_loop strict tops x latest latest_count
     else if v = latest_count \<and> sorts_before (header latest) k then vote_loop strict tops x latest latest_count
     else
       vote_loop strict tops x
         (fold (\<lambda>a l. if strip_signature strict (header a) = k then a else l) tops latest) v)"

definition vote :: "(FileMetaVersionHeader counts \<Rightarrow> FileMetaVersionHeader counts) \<Rightarrow> bool \<Rightarrow> FileMetaShallowVersion list \<Rightarrow>
    uuid option \<Rightarrow> FileMetaShallowVersion \<Rightarrow> FileMetaShallowVersion \<times> nat" where
  "vote ord strict tops vid latest =
    (let same = filter (\<lambda>a. vh_version_id (header a) = vid) tops;
         x = tally (=) (\<lambda>h. h) (map (\<lambda>a. strip_signature strict (header a)) same)
     in vote_loop strict tops (ord x) latest 0)"

fun pick_loop :: "(FileMetaVersionHeader counts \<Rightarrow> FileMetaVersionHeader counts) \<Rightarrow> bool \<Rightarrow> FileMetaShallowVersion list \<Rightarrow>
    bool \<Rightarrow> FileMetaShallowVersion list \<Rightarrow> FileMetaShallowVersion \<Rightarrow> nat \<Rightarrow> FileMetaShallowVersion \<times> nat" where
  "pick_loop ord strict tops first [] latest latest_count = (latest, latest_count)"
| "pick_loop ord strict tops first (ver # rest) latest latest_count =
    (if header ver = header latest then pick_loop ord strict tops False rest latest (latest_count + 1)
     else if first \<or> sorts_before (header ver) (header latest) then
       pick_loop ord strict tops False rest ver
         (if first \<or> latest_count = 0 then 1
          else if \<not> strict \<and> matches_not_strict (header ver) (header latest) then latest_count + 1
          else 1)
     else if latest_count > 0 \<and> \<not> strict \<and> matches_not_strict (header ver) (header latest) then
       pick_loop ord strict tops False rest latest (latest_count + 1)
     else if latest_count > 0 \<and> vh_version_id (header ver) = vh_version_id (header latest) then
       vote ord strict tops (vh_version_id (header ver)) latest
     else pick_loop ord strict tops False rest latest latest_count)"

text \<open>Which version of a list is taken out: the first one of these, and no other.\<close>

definition taken_out :: "FileMetaVersionHeader \<Rightarrow> FileMetaShallowVersion list \<Rightarrow> FileMetaVersionHeader \<Rightarrow> bool" where
  "taken_out latest merged ver \<longleftrightarrow>
    vh_mod_time ver > vh_mod_time latest \<or> ver = latest \<or> vh_version_id latest = vh_version_id ver
    \<or> list_ex (\<lambda>m. vh_version_id ver = vh_version_id (header m)) merged"

fun retain_stream :: "FileMetaVersionHeader \<Rightarrow> FileMetaShallowVersion list \<Rightarrow> version_stream \<Rightarrow> version_stream" where
  "retain_stream latest merged [] = []"
| "retain_stream latest merged (ver # vers) =
    (if taken_out latest merged (header ver) then vers else ver # retain_stream latest merged vers)"

text \<open>
  One round: the version it may emit, the version that decides the cut, given the first
  versions of the lists.
\<close>

definition merge_round :: "(FileMetaVersionHeader counts \<Rightarrow> FileMetaVersionHeader counts) \<Rightarrow> nat \<Rightarrow> bool \<Rightarrow>
    FileMetaShallowVersion list \<Rightarrow> bool \<Rightarrow> FileMetaShallowVersion list \<times> FileMetaShallowVersion" where
  "merge_round ord quorum strict tops consistent =
    (if consistent then ([hd tops], Shallow_default)
     else (let (latest, latest_count) = pick_loop ord strict tops True tops Shallow_default 0 in
           (if latest_count \<ge> quorum then [latest] else [], latest)))"

definition count_live :: "FileMetaShallowVersion list \<Rightarrow> nat" where
  "count_live vs = length (filter (\<lambda>v. \<not> header_free_version (header v)) vs)"

partial_function (option) merge_loop :: "(FileMetaVersionHeader counts \<Rightarrow> FileMetaVersionHeader counts) \<Rightarrow> nat \<Rightarrow> bool \<Rightarrow> nat \<Rightarrow>
    version_stream list \<Rightarrow> nat \<Rightarrow> FileMetaShallowVersion list \<Rightarrow> FileMetaShallowVersion list option" where
  "merge_loop ord quorum strict requested streams n_versions merged =
    (let (tops, consistent) = scan_tops streams [] Header_default True in
     if length tops < quorum then Some merged
     else
       (let (emitted, latest) = merge_round ord quorum strict tops consistent;
            merged' = merged @ emitted;
            n' = n_versions + count_live emitted;
            streams' = map (retain_stream (header latest) merged') streams
        in if requested > 0 \<and> requested = n' then Some (merged' @ hd streams')
           else merge_loop ord quorum strict requested streams' n' merged'))"

definition merge_file_meta_versions :: "(FileMetaVersionHeader counts \<Rightarrow> FileMetaVersionHeader counts) \<Rightarrow> nat \<Rightarrow> bool \<Rightarrow> nat \<Rightarrow>
    version_stream list \<Rightarrow> FileMetaShallowVersion list option" where
  "merge_file_meta_versions ord quorum strict requested versions =
    (let q = (if quorum = 0 then 1 else quorum) in
     if length versions < q \<or> versions = [] then Some []
     else if length versions = 1 then Some (hd versions)
     else merge_loop ord q (if q = 1 then True else strict) requested versions 0 [])"

subsection \<open>The loop returns\<close>

lemma scan_tops_eq: "fst (scan_tops ss tops sig c) = tops @ map hd (filter (\<lambda>s. s \<noteq> []) ss)"
  by (induction ss tops sig c rule: scan_tops.induct) auto

lemma scan_tops_consistent:
  assumes "snd (scan_tops ss tops sig c)" "tops \<noteq> [] \<Longrightarrow> c \<Longrightarrow> list_all (\<lambda>t. header t = sig) tops"
  shows "\<exists>h. list_all (\<lambda>t. header t = h) (fst (scan_tops ss tops sig c))"
  using assms
proof (induction ss tops sig c rule: scan_tops.induct)
  case (1 tops sig c)
  then show ?case by (cases "tops = []") auto
qed (auto split: if_splits)

definition tops_of :: "version_stream list \<Rightarrow> FileMetaShallowVersion list" where
  "tops_of ss = map hd (filter (\<lambda>s. s \<noteq> []) ss)"

lemma fold_last_member: "fold (\<lambda>a l. if P a then a else l) as l \<in> set as \<or> fold (\<lambda>a l. if P a then a else l) as l = l"
proof (induction "as" arbitrary: l)
  case (Cons a xs)
  then show ?case using Cons [of "if P a then a else l"] by auto
qed simp

lemma vote_loop_member:
  assumes "header latest \<in> header ` set tops"
  shows "header (fst (vote_loop strict tops x latest n)) \<in> header ` set tops"
  using assms
proof (induction strict tops x latest n rule: vote_loop.induct)
  case (2 strict tops k v x latest n)
  have "header (fold (\<lambda>a l. if strip_signature strict (header a) = k then a else l) tops latest) \<in> header ` set tops"
    using fold_last_member [of "\<lambda>a. strip_signature strict (header a) = k" tops latest] "2.prems" by auto
  then show ?case using 2 by simp
qed simp

lemma pick_loop_member:
  assumes "set rest \<subseteq> set tops" "first \<and> rest \<noteq> [] \<or> header latest \<in> header ` set tops"
  shows "header (fst (pick_loop ord strict tops first rest latest n)) \<in> header ` set tops"
  using assms
proof (induction ord strict tops first rest latest n rule: pick_loop.induct)
  case (2 ord strict tops first ver rest latest n)
  have ver: "header ver \<in> header ` set tops" using "2.prems" by simp
  show ?case
  proof (cases "first \<or> sorts_before (header ver) (header latest)")
    case True
    then show ?thesis using "2.IH"(1,2) "2.prems" ver by (cases "header ver = header latest") auto
  next
    case False
    then show ?thesis using "2.IH"(1,3,4) "2.prems" ver by (auto simp: vote_def Let_def intro!: vote_loop_member)
  qed
qed auto

lemma retain_length: "length (retain_stream latest merged s) \<le> length s"
  by (induction s) auto

lemma retain_subset: "set (retain_stream latest merged s) \<subseteq> set s"
  by (induction s) auto

lemma retain_shrinks: "s \<noteq> [] \<Longrightarrow> taken_out latest merged (header (hd s)) \<Longrightarrow> length (retain_stream latest merged s) < length s"
  by (cases s) auto

definition total_length :: "version_stream list \<Rightarrow> nat" where
  "total_length ss = sum_list (map length ss)"

lemma total_length_shrinks:
  assumes "s \<in> set ss" "length (f s) < length s" "\<And>s. length (f s) \<le> length s"
  shows "total_length (map f ss) < total_length ss"
  using assms(1)
proof (induction ss)
  case (Cons a ss)
  have "total_length (map f ss) \<le> total_length ss"
    unfolding total_length_def map_map o_def by (rule sum_list_mono) (rule assms(3))
  then show ?case using Cons assms(2) assms(3) [of a]
    by (cases "s = a") (auto simp: total_length_def add_le_less_mono add_less_le_mono)
qed simp

lemma merge_round_cuts:
  assumes "tops \<noteq> []" "merge_round ord quorum strict tops consistent = (emitted, latest)"
  shows "\<exists>t \<in> set tops. taken_out (header latest) (merged @ emitted) (header t)"
proof (cases consistent)
  case True
  then have "emitted = [hd tops]" using assms(2) by (simp add: merge_round_def)
  then show ?thesis using assms(1) by (intro bexI [of _ "hd tops"]) (auto simp: taken_out_def)
next
  case False
  have "header (fst (pick_loop ord strict tops True tops Shallow_default 0)) \<in> header ` set tops"
    using pick_loop_member [of tops tops True Shallow_default] assms(1) by simp
  then have "header latest \<in> header ` set tops" using False assms(2) by (auto simp: merge_round_def split: prod.splits)
  then show ?thesis by (auto simp: taken_out_def)
qed

lemma merge_step_shrinks:
  assumes "tops_of ss \<noteq> []" "merge_round ord quorum strict (tops_of ss) consistent = (emitted, latest)"
  shows "total_length (map (retain_stream (header latest) (merged @ emitted)) ss) < total_length ss"
proof -
  obtain t where t: "t \<in> set (tops_of ss)" "taken_out (header latest) (merged @ emitted) (header t)"
    using merge_round_cuts [OF assms] by blast
  then obtain s where s: "s \<in> set ss" "s \<noteq> []" "t = hd s" by (auto simp: tops_of_def)
  then show ?thesis using t(2) by (intro total_length_shrinks [OF s(1)] retain_shrinks retain_length) simp_all
qed

text \<open>One unfolding of the loop.\<close>

lemma merge_loop_step:
  obtains (finished) "length (tops_of ss) < quorum" "\<And>n merged. merge_loop ord quorum strict req ss n merged = Some merged"
  | (step) c where "quorum \<le> length (tops_of ss)" "c \<longrightarrow> (\<exists>h. list_all (\<lambda>t. header t = h) (tops_of ss))"
    "\<And>n merged emitted latest. merge_round ord quorum strict (tops_of ss) c = (emitted, latest) \<Longrightarrow>
      merge_loop ord quorum strict req ss n merged =
        (let ss' = map (retain_stream (header latest) (merged @ emitted)) ss; n' = n + count_live emitted in
         if req > 0 \<and> req = n' then Some (merged @ emitted @ hd ss') else merge_loop ord quorum strict req ss' n' (merged @ emitted))"
proof (cases "length (tops_of ss) < quorum")
  case True
  obtain c where c: "scan_tops ss [] Header_default True = (tops_of ss, c)"
    using scan_tops_eq [of ss "[]" Header_default True] by (metis append_Nil prod.collapse tops_of_def)
  show thesis by (rule finished [OF True]) (use True c in \<open>subst merge_loop.simps, simp\<close>)
next
  case False
  obtain c where c: "scan_tops ss [] Header_default True = (tops_of ss, c)"
    using scan_tops_eq [of ss "[]" Header_default True] by (metis append_Nil prod.collapse tops_of_def)
  have h: "c \<longrightarrow> (\<exists>h. list_all (\<lambda>t. header t = h) (tops_of ss))"
    using scan_tops_consistent [of ss "[]" Header_default True] c by auto
  have "quorum \<le> length (tops_of ss)" using False by simp
  then show thesis
    by (rule step [OF _ h]) (subst merge_loop.simps, use False c in \<open>auto simp: Let_def\<close>)
qed

lemma merge_loop_returns:
  assumes "1 \<le> quorum"
  shows "\<exists>r. merge_loop ord quorum strict req ss n merged = Some r"
proof (induction "total_length ss" arbitrary: ss n merged rule: less_induct)
  case less
  show ?case
  proof (cases rule: merge_loop_step [of ss quorum ord strict req])
    case (step c)
    obtain emitted latest where r: "merge_round ord quorum strict (tops_of ss) c = (emitted, latest)" by fastforce
    have "tops_of ss \<noteq> []" using step(1) assms by auto
    from less [OF merge_step_shrinks [OF this r]] show ?thesis by (simp add: step(3) [OF r] Let_def)
  qed auto
qed

text \<open>
  C37: Merging the version lists of any number of drives returns, for every quorum, mode and
  order of the hash map.
\<close>

theorem merge_returns:
  "\<exists>r. merge_file_meta_versions ord quorum strict requested versions = Some r"
  using merge_loop_returns [of "if quorum = 0 then 1 else quorum"]
  by (simp add: merge_file_meta_versions_def Let_def)

subsection \<open>Every emitted version has a quorum\<close>

text \<open>
  Headers of one version: equal in strict mode, otherwise of the same identifier and type, and
  of the same time when there is no identifier.
\<close>

definition similar :: "bool \<Rightarrow> FileMetaVersionHeader \<Rightarrow> FileMetaVersionHeader \<Rightarrow> bool" where
  "similar strict a b \<longleftrightarrow>
    (if strict then a = b
     else vh_version_id a = vh_version_id b \<and> vh_version_type a = vh_version_type b
       \<and> (vh_version_id a = None \<longrightarrow> vh_mod_time a = vh_mod_time b))"

definition votes :: "bool \<Rightarrow> FileMetaVersionHeader \<Rightarrow> FileMetaShallowVersion list \<Rightarrow> nat" where
  "votes strict h tops = length (filter (\<lambda>t. similar strict h (header t)) tops)"

definition backers :: "bool \<Rightarrow> FileMetaVersionHeader \<Rightarrow> version_stream list \<Rightarrow> nat" where
  "backers strict h ss = length (filter (\<lambda>s. list_ex (\<lambda>v. similar strict h (header v)) s) ss)"

lemma similar_refl [simp]: "similar strict a a"
  by (simp add: similar_def)

lemma similar_sym: "similar strict a b \<Longrightarrow> similar strict b a"
  by (auto simp: similar_def split: if_splits)

lemma similar_trans: "similar strict a b \<Longrightarrow> similar strict b c \<Longrightarrow> similar strict a c"
  by (auto simp: similar_def split: if_splits)

lemma matches_similar: "matches_not_strict a b \<Longrightarrow> similar False a b"
  by (auto simp: matches_not_strict_def similar_def)

lemma stripped_similar: "strip_signature strict a = strip_signature strict b \<Longrightarrow> similar strict a b"
  by (cases a; cases b) (auto simp: strip_signature_def similar_def split: if_splits)

lemma votes_append [simp]: "votes strict h (xs @ ys) = votes strict h xs + votes strict h ys"
  by (simp add: votes_def)

lemma votes_self [simp]: "votes strict (header v) [v] = 1"
  by (simp add: votes_def)

lemma votes_similar: "similar strict a b \<Longrightarrow> votes strict a xs = votes strict b xs"
  unfolding votes_def by (rule arg_cong [where f = length], rule filter_cong) (auto intro: similar_sym similar_trans)

interpretation header_counts: tally_key "(=) :: FileMetaVersionHeader \<Rightarrow> FileMetaVersionHeader \<Rightarrow> bool" "\<lambda>h. h"
  by unfold_locales auto

lemma fold_last_satisfies:
  "t \<in> set xs \<Longrightarrow> P t \<Longrightarrow> P (fold (\<lambda>a l. if P a then a else l) xs l)"
proof (induction xs arbitrary: l t)
  case (Cons a xs)
  show ?case
  proof (cases "\<exists>t \<in> set xs. P t")
    case True
    then show ?thesis using Cons.IH by auto
  next
    case False
    then have "P a" and "fold (\<lambda>a l. if P a then a else l) xs l' = l'" for l'
      using Cons.prems by (auto, induction xs arbitrary: l') auto
    then show ?thesis by simp
  qed
qed simp

text \<open>The entries of the count over the first versions with one identifier.\<close>

definition counted_in :: "bool \<Rightarrow> FileMetaShallowVersion list \<Rightarrow> FileMetaVersionHeader counts \<Rightarrow> bool" where
  "counted_in strict tops x \<longleftrightarrow>
    (\<forall>k v. (k, v) \<in> set x \<longrightarrow> (\<exists>t \<in> set tops. strip_signature strict (header t) = k)
      \<and> v \<le> length (filter (\<lambda>t. strip_signature strict (header t) = k) tops))"

lemma tally_counted:
  assumes "iteration_order ord"
  shows "counted_in strict tops (ord (tally (=) (\<lambda>h. h) (map (\<lambda>a. strip_signature strict (header a)) (filter P tops))))"
proof -
  let ?hs = "map (\<lambda>a. strip_signature strict (header a)) (filter P tops)"
  have "(\<exists>t \<in> set tops. strip_signature strict (header t) = k)
      \<and> v \<le> length (filter (\<lambda>t. strip_signature strict (header t) = k) tops)"
    if "(k, v) \<in> set (tally (=) (\<lambda>h. h) ?hs)" for k v
  proof -
    have e: "v = occurrences (=) k ?hs" "\<exists>x \<in> set ?hs. k = x" using header_counts.tally_entry [OF that] by auto
    have "occurrences (=) k ?hs = length (filter (\<lambda>t. P t \<and> strip_signature strict (header t) = k) tops)"
      by (induction tops) auto
    also have "\<dots> \<le> length (filter (\<lambda>t. strip_signature strict (header t) = k) tops)"
      by (induction tops) auto
    finally show ?thesis using e by auto
  qed
  then show ?thesis unfolding counted_in_def iteration_order_set [OF assms] by blast
qed

lemma vote_loop_backed:
  assumes "counted_in strict tops x" "n \<le> votes strict (header latest) tops"
    "vote_loop strict tops x latest n = (l, m)"
  shows "m \<le> votes strict (header l) tops"
  using assms
proof (induction strict tops x latest n rule: vote_loop.induct)
  case (2 strict tops k v x latest n)
  have c: "counted_in strict tops x" using "2.prems"(1) by (auto simp: counted_in_def)
  let ?l = "fold (\<lambda>a l. if strip_signature strict (header a) = k then a else l) tops latest"
  obtain t where t: "t \<in> set tops" "strip_signature strict (header t) = k"
    and v: "v \<le> length (filter (\<lambda>t. strip_signature strict (header t) = k) tops)"
    using "2.prems"(1) by (auto simp: counted_in_def)
  have sl: "strip_signature strict (header ?l) = k"
    using fold_last_satisfies [of t tops "\<lambda>a. strip_signature strict (header a) = k" latest] t by simp
  have "length (filter (\<lambda>t. strip_signature strict (header t) = k) tops) \<le> votes strict (header ?l) tops"
    unfolding votes_def by (rule filter_length_le) (use sl in \<open>auto intro: stripped_similar\<close>)
  then have "v \<le> votes strict (header ?l) tops" using v by simp
  then show ?case using 2 c by (auto split: if_splits)
qed simp

lemma pick_loop_backed:
  assumes "iteration_order ord" "n \<le> votes strict (header latest) seen"
    "pick_loop ord strict (seen @ rest) first rest latest n = (l, m)" "first \<Longrightarrow> seen = []"
  shows "m \<le> votes strict (header l) (seen @ rest)"
  using assms(2-4)
proof (induction rest arbitrary: seen first latest n)
  case (Cons ver rest)
  let ?h = "header latest" and ?v = "header ver"
  have IH: "m \<le> votes strict (header l) (seen @ ver # rest)"
    if "n' \<le> votes strict (header latest') (seen @ [ver])"
      "pick_loop ord strict (seen @ ver # rest) False rest latest' n' = (l, m)" for latest' n'
    using Cons.IH [of n' latest' "seen @ [ver]" False] that by simp
  have more: "n + 1 \<le> votes strict h (seen @ [ver])" if "similar strict h ?v" "similar strict h ?h" for h
    using Cons.prems(1) that votes_similar [OF that(2)] by (simp add: votes_def)
  consider (eq) "?v = ?h" | (newer) "?v \<noteq> ?h" "first \<or> sorts_before ?v ?h"
    | (older) "?v \<noteq> ?h" "\<not> (first \<or> sorts_before ?v ?h)" by blast
  then show ?case
  proof cases
    case eq
    then show ?thesis using Cons.prems(2) more [of ?h] by (intro IH) auto
  next
    case newer
    let ?n = "if first \<or> n = 0 then 1 else if \<not> strict \<and> matches_not_strict ?v ?h then n + 1 else 1"
    have "?n \<le> votes strict ?v (seen @ [ver])"
    proof (cases "\<not> first \<and> n \<noteq> 0 \<and> \<not> strict \<and> matches_not_strict ?v ?h")
      case True
      then show ?thesis using more [of ?v] matches_similar [of ?v ?h] by simp
    qed auto
    then show ?thesis using Cons.prems(2) newer by (intro IH) auto
  next
    case older
    show ?thesis
    proof (cases "n > 0 \<and> \<not> strict \<and> matches_not_strict ?v ?h")
      case True
      then have "similar strict ?h ?v" using matches_similar [of ?v ?h] similar_sym by auto
      then show ?thesis using Cons.prems(2) older True more [of ?h] by (intro IH) auto
    next
      case False
      show ?thesis
      proof (cases "n > 0 \<and> vh_version_id ?v = vh_version_id ?h")
        case True
        let ?tops = "seen @ ver # rest"
        have "vote ord strict ?tops (vh_version_id ?v) latest = (l, m)" using Cons.prems(2) older False True by auto
        then show ?thesis unfolding vote_def Let_def by (rule vote_loop_backed [OF tally_counted [OF assms(1)] le0])
      next
        case no: False
        have "n \<le> votes strict ?h (seen @ [ver])" using Cons.prems(1) by simp
        then show ?thesis using Cons.prems(2) older False no by (intro IH) auto
      qed
    qed
  qed
qed simp

lemma merge_round_backed:
  assumes "iteration_order ord" "quorum \<le> length tops" "consistent \<longrightarrow> (\<exists>h. list_all (\<lambda>t. header t = h) tops)"
    and "merge_round ord quorum strict tops consistent = (emitted, latest)" "m \<in> set emitted"
  shows "quorum \<le> votes strict (header m) tops"
proof (cases consistent)
  case True
  then obtain h where h: "list_all (\<lambda>t. header t = h) tops" using assms(3) by blast
  have m: "m = hd tops" using assms(4,5) True by (auto simp: merge_round_def)
  show ?thesis
  proof (cases tops)
    case (Cons t ts)
    then have "header m = h" using h m by simp
    then have "filter (\<lambda>t. similar strict (header m) (header t)) tops = tops" using h by (auto simp: filter_id_conv list_all_iff)
    then show ?thesis using assms(2) by (simp add: votes_def)
  qed (use assms(2) in simp)
next
  case False
  obtain l n where p: "pick_loop ord strict tops True tops Shallow_default 0 = (l, n)" by fastforce
  then have "m = l" "quorum \<le> n" using assms(4,5) False by (auto simp: merge_round_def split: if_splits)
  then show ?thesis using pick_loop_backed [OF assms(1), of 0 strict Shallow_default "[]" tops True l n] p by auto
qed

lemma votes_backers: "votes strict h (tops_of ss) \<le> backers strict h ss"
proof (induction ss)
  case (Cons s ss)
  then show ?case by (cases s) (auto simp: votes_def tops_of_def backers_def)
qed (simp add: votes_def tops_of_def backers_def)

lemma backers_mono:
  assumes "list_all2 (\<lambda>s s0. set s \<subseteq> set s0) ss ss0"
  shows "backers strict h ss \<le> backers strict h ss0"
  using assms by (induction rule: list_all2_induct) (auto simp: backers_def list_ex_iff)

lemma retain_all2:
  assumes "list_all2 (\<lambda>s s0. set s \<subseteq> set s0) ss ss0"
  shows "list_all2 (\<lambda>s s0. set s \<subseteq> set s0) (map (retain_stream latest merged) ss) ss0"
  using assms retain_subset by (induction rule: list_all2_induct) (auto, blast)

lemma merge_loop_backed:
  assumes "iteration_order ord" "1 \<le> quorum"
    and "merge_loop ord quorum strict 0 ss n merged = Some r"
    and "list_all2 (\<lambda>s s0. set s \<subseteq> set s0) ss ss0" "list_all (\<lambda>m. quorum \<le> backers strict (header m) ss0) merged"
  shows "list_all (\<lambda>m. quorum \<le> backers strict (header m) ss0) r"
  using assms(3-5)
proof (induction "total_length ss" arbitrary: ss n merged rule: less_induct)
  case less
  show ?case
  proof (cases rule: merge_loop_step [of ss quorum ord strict 0])
    case finished
    then show ?thesis using less.prems by auto
  next
    case (step c)
    obtain emitted latest where r: "merge_round ord quorum strict (tops_of ss) c = (emitted, latest)" by fastforce
    have ne: "tops_of ss \<noteq> []" using step(1) assms(2) by auto
    have "quorum \<le> backers strict (header m) ss0" if "m \<in> set emitted" for m
      using merge_round_backed [OF assms(1) step(1,2) r that] votes_backers backers_mono [OF less.prems(2)] le_trans by metis
    then have m: "list_all (\<lambda>m. quorum \<le> backers strict (header m) ss0) (merged @ emitted)"
      using less.prems(3) by (auto simp: list_all_iff)
    show ?thesis
      using less.hyps [OF merge_step_shrinks [OF ne r] _ retain_all2 [OF less.prems(2)] m] less.prems(1)
      by (simp add: step(3) [OF r] Let_def)
  qed
qed


subsection \<open>A history that a quorum has is merged to itself\<close>

text \<open>Versions from the newest to the oldest, with different identifiers and with times.\<close>

definition history :: "version_stream \<Rightarrow> bool" where
  "history vs \<longleftrightarrow>
    sorted_wrt (\<lambda>a b. vh_mod_time (header b) < vh_mod_time (header a) \<and> vh_version_id (header b) \<noteq> vh_version_id (header a)) vs
    \<and> list_all (\<lambda>v. vh_mod_time (header v) \<noteq> None) vs"

lemma history_Cons:
  assumes "history (v # ws)"
  shows "history ws" "vh_mod_time (header v) \<noteq> None"
    "\<And>w. w \<in> set ws \<Longrightarrow> vh_mod_time (header w) < vh_mod_time (header v) \<and> vh_version_id (header w) \<noteq> vh_version_id (header v)"
  using assms by (simp_all add: history_def)

lemma history_ids:
  assumes "history vs" "a \<in> set vs" "b \<in> set vs" "vh_version_id (header a) = vh_version_id (header b)"
  shows "a = b"
  using assms
proof (induction vs)
  case (Cons v vs)
  then show ?case using history_Cons [OF Cons.prems(1)] by (metis set_ConsD)
qed simp

lemma history_default: "history vs \<Longrightarrow> v \<in> set vs \<Longrightarrow> header v \<noteq> header Shallow_default"
  by (auto simp: history_def list_all_iff Shallow_default_def Header_default_def)

lemma newer_sorts_before: "vh_mod_time b < vh_mod_time a \<Longrightarrow> sorts_before a b \<and> \<not> sorts_before b a"
  by (auto simp: sorts_before_def)

lemma pick_keeps_newest:
  assumes h: "history (v # ws)" and "set rest \<subseteq> set (v # ws)"
  shows "pick_loop ord strict tops False rest v n = (v, n + count_list rest v)"
  using assms(2)
proof (induction rest arbitrary: n)
  case (Cons ver rest)
  show ?case
  proof (cases "ver = v")
    case False
    then have w: "ver \<in> set ws" using Cons.prems by auto
    note o = history_Cons(3) [OF h w]
    have "header ver \<noteq> header v" using o by auto
    then show ?thesis using Cons False o newer_sorts_before [of "header ver" "header v"]
      by (auto simp: matches_not_strict_def)
  qed (use Cons in simp)
qed simp

lemma pick_finds_newest:
  assumes h: "history (v # ws)" and "set rest \<subseteq> set (v # ws)" "v \<in> set rest"
    and "latest \<in> set ws \<or> first \<and> latest = Shallow_default"
  shows "pick_loop ord strict tops first rest latest n = (v, count_list rest v)"
  using assms(2-4)
proof (induction rest arbitrary: n latest first)
  case (Cons ver rest)
  have all: "ver \<in> set (v # ws)" using Cons.prems(1) by simp
  have differ: "header a \<noteq> header b" if "a \<in> set (v # ws)" "b \<in> set (v # ws)" "a \<noteq> b" for a b
    using history_ids [OF h that(1,2)] that(3) by metis
  have ld: "header ver \<noteq> header latest" if "ver \<noteq> latest"
    using Cons.prems(3) differ [OF all, of latest] history_default [OF h all] that by auto
  show ?case
  proof (cases "ver = v")
    case True
    have ne: "header v \<noteq> header latest" using ld True Cons.prems(3) history_Cons(3) [OF h] history_default [OF h all] by fastforce
    have "first \<or> sorts_before (header v) (header latest)"
      using Cons.prems(3) history_Cons(3) [OF h, of latest] newer_sorts_before by blast
    moreover have "first \<or> \<not> matches_not_strict (header v) (header latest)"
      using Cons.prems(3) history_Cons(3) [OF h, of latest] by (auto simp: matches_not_strict_def)
    ultimately show ?thesis using ne True pick_keeps_newest [OF h, of rest] Cons.prems(1) by auto
  next
    case False
    then have w: "ver \<in> set ws" and v: "v \<in> set rest" and sub: "set rest \<subseteq> set (v # ws)" using Cons.prems all by auto
    show ?thesis
    proof (cases "ver = latest")
      case True
      have "latest \<in> set ws \<or> False \<and> latest = Shallow_default" using w True by simp
      from Cons.IH [OF sub v this, of "n + 1"] show ?thesis using True False by simp
    next
      case nl: False
      have ids: "latest \<in> set ws \<Longrightarrow> vh_version_id (header ver) \<noteq> vh_version_id (header latest)"
        using history_ids [OF h all, of latest] nl by auto
      have "ver \<in> set ws \<or> False \<and> ver = Shallow_default" using w by simp
      note taken = Cons.IH [OF sub v this]
      show ?thesis
      proof (cases "first \<or> sorts_before (header ver) (header latest)")
        case True
        then show ?thesis using taken ld [OF nl] False by simp
      next
        case skip: False
        then have "latest \<in> set ws" using Cons.prems(3) by auto
        moreover from this have "latest \<in> set ws \<or> False \<and> latest = Shallow_default" by simp
        note kept = Cons.IH [OF sub v this]
        ultimately show ?thesis using kept skip ld [OF nl] ids False by (auto simp: matches_not_strict_def)
      qed
    qed
  qed
qed simp

text \<open>Lists that miss some of the newest versions, with the whole history on at least a quorum of drives.\<close>

definition quorum_history :: "nat \<Rightarrow> version_stream \<Rightarrow> version_stream list \<Rightarrow> bool" where
  "quorum_history quorum vs ss \<longleftrightarrow> list_all (\<lambda>s. suffix s vs) ss \<and> quorum \<le> length (filter (\<lambda>s. s = vs) ss)"

lemma quorum_history_tops:
  assumes "quorum_history quorum (v # ws) ss"
  shows "set (tops_of ss) \<subseteq> set (v # ws)" "quorum \<le> count_list (tops_of ss) v"
proof -
  have "hd s \<in> set (v # ws)" if "s \<in> set ss" "s \<noteq> []" for s
    using assms that set_mono_suffix [of s "v # ws"] hd_in_set by (fastforce simp: quorum_history_def list_all_iff)
  then show "set (tops_of ss) \<subseteq> set (v # ws)" by (auto simp: tops_of_def)
  have "length (filter (\<lambda>s. s = v # ws) ss) \<le> count_list (tops_of ss) v" for ss
    by (induction ss) (auto simp: tops_of_def)
  from this [of ss] show "quorum \<le> count_list (tops_of ss) v" using assms by (simp add: quorum_history_def)
qed

lemma newest_round:
  assumes h: "history (v # ws)" and q: "1 \<le> quorum" "quorum_history quorum (v # ws) ss"
    and c: "c \<longrightarrow> (\<exists>h. list_all (\<lambda>t. header t = h) (tops_of ss))"
  shows "\<exists>latest. merge_round ord quorum strict (tops_of ss) c = ([v], latest)
    \<and> (latest = v \<or> latest = Shallow_default \<and> list_all (\<lambda>t. t = v) (tops_of ss))"
proof -
  note t = quorum_history_tops [OF q(2)]
  have v: "v \<in> set (tops_of ss)" using t(2) q(1) by (cases "v \<in> set (tops_of ss)") (auto simp: count_notin)
  show ?thesis
  proof (cases c)
    case True
    then obtain k where k: "list_all (\<lambda>t. header t = k) (tops_of ss)" using c by blast
    have "x = v" if x: "x \<in> set (tops_of ss)" for x
    proof -
      have e: "header x = header v" using k x v by (simp add: list_all_iff)
      have "x \<in> set (v # ws)" using t(1) x by blast
      then show ?thesis by (rule history_ids [OF h]) (simp_all add: e)
    qed
    then have "list_all (\<lambda>t. t = v) (tops_of ss)" by (simp add: list_all_iff)
    moreover have "hd (tops_of ss) = v" using calculation v by (cases "tops_of ss") auto
    ultimately show ?thesis using True by (simp add: merge_round_def)
  next
    case False
    have "pick_loop ord strict (tops_of ss) True (tops_of ss) Shallow_default 0 = (v, count_list (tops_of ss) v)"
      by (rule pick_finds_newest [OF h t(1) v]) simp
    then show ?thesis using False t(2) by (simp add: merge_round_def)
  qed
qed

lemma retain_none: "list_all (\<lambda>w. \<not> taken_out latest merged (header w)) s \<Longrightarrow> retain_stream latest merged s = s"
  by (induction s) auto

definition apart :: "FileMetaShallowVersion list \<Rightarrow> version_stream \<Rightarrow> bool" where
  "apart merged vs \<longleftrightarrow> (\<forall>m \<in> set merged. \<forall>w \<in> set vs. vh_version_id (header w) \<noteq> vh_version_id (header m))"

lemma newest_cut:
  assumes h: "history (v # ws)" and q: "quorum_history quorum (v # ws) ss" and a: "apart merged (v # ws)"
    and l: "latest = v \<or> latest = Shallow_default \<and> list_all (\<lambda>t. t = v) (tops_of ss)"
  shows "quorum_history quorum ws (map (retain_stream (header latest) (merged @ [v])) ss)"
proof -
  let ?f = "retain_stream (header latest) (merged @ [v])"
  have full: "?f (v # ws) = ws" by (simp add: taken_out_def)
  have f: "?f s = s \<and> suffix s ws" if "s \<in> set ss" "s \<noteq> v # ws" for s
  proof -
    have s: "suffix s ws" using q that by (auto simp: quorum_history_def list_all_iff suffix_Cons)
    show ?thesis
    proof (cases "latest = v")
      case True
      have "\<not> taken_out (header latest) (merged @ [v]) (header w)" if "w \<in> set s" for w
      proof -
        have w: "w \<in> set ws" using that s by (meson set_mono_suffix subsetD)
        show ?thesis using history_Cons(3) [OF h w] a w True by (auto simp: taken_out_def apart_def list_ex_iff)
      qed
      then show ?thesis using s by (simp add: retain_none list_all_iff)
    next
      case False
      have "s = []"
      proof (rule ccontr)
        assume "s \<noteq> []"
        then have "hd s = v" using l False that(1) by (auto simp: list_all_iff tops_of_def)
        then have "v \<in> set ws" using s \<open>s \<noteq> []\<close> by (metis hd_in_set set_mono_suffix subsetD)
        then show False using history_Cons(3) [OF h] by blast
      qed
      then show ?thesis by simp
    qed
  qed
  have "suffix (?f s) ws" if "s \<in> set ss" for s using f [OF that] full by (cases "s = v # ws") auto
  moreover have "length (filter (\<lambda>s. s = v # ws) ss) \<le> length (filter (\<lambda>s. s = ws) (map ?f ss))"
    using full by (induction ss) auto
  ultimately show ?thesis using q by (auto simp: quorum_history_def list_all_iff)
qed

lemma merge_loop_history:
  assumes "1 \<le> quorum" "history vs" "quorum_history quorum vs ss" "apart merged vs"
  shows "merge_loop ord quorum strict 0 ss n merged = Some (merged @ vs)"
  using assms(2-4)
proof (induction vs arbitrary: ss n merged)
  case Nil
  then have "tops_of ss = []" by (auto simp: quorum_history_def tops_of_def list_all_iff filter_empty_conv)
  then show ?case using assms(1)
    by (cases rule: merge_loop_step [of ss quorum ord strict 0]) auto
next
  case (Cons v ws)
  note t = quorum_history_tops(2) [OF Cons.prems(2)]
  have len: "quorum \<le> length (tops_of ss)" using t count_le_length [of "tops_of ss" v] by linarith
  show ?case
  proof (cases rule: merge_loop_step [of ss quorum ord strict 0])
    case finished
    then show ?thesis using len by simp
  next
    case (step c)
    obtain latest where r: "merge_round ord quorum strict (tops_of ss) c = ([v], latest)"
      "latest = v \<or> latest = Shallow_default \<and> list_all (\<lambda>t. t = v) (tops_of ss)"
      using newest_round [OF Cons.prems(1) assms(1) Cons.prems(2) step(2)] by blast
    have ap: "apart (merged @ [v]) ws" using Cons.prems(3) history_Cons(3) [OF Cons.prems(1)] by (auto simp: apart_def)
    note IH = Cons.IH [OF history_Cons(1) [OF Cons.prems(1)] newest_cut [OF Cons.prems r(2)] ap]
    show ?thesis unfolding step(3) [OF r(1)] Let_def by (simp add: IH)
  qed
qed


subsection \<open>An instance\<close>

definition sample_entry :: "uuid \<Rightarrow> time \<Rightarrow> FileMetaShallowVersion" where
  "sample_entry u t = \<lparr>header = Header_default\<lparr>vh_version_id := Some u, vh_mod_time := Some t, vh_version_type := VtObject\<rparr>, meta = []\<rparr>"

definition sample_streams :: "version_stream list" where
  "sample_streams = [[sample_entry 2 6, sample_entry 1 5], [sample_entry 1 5], [sample_entry 2 6, sample_entry 1 5], []]"

lemma sample_history:
  "history [sample_entry 2 6, sample_entry 1 5]"
  "quorum_history 2 [sample_entry 2 6, sample_entry 1 5] sample_streams"
  by (simp_all add: history_def sample_entry_def quorum_history_def sample_streams_def suffix_Cons)



end
