(* ===== verification/SetMetadata.thy ===== *)
theory SetMetadata
  imports FileInfo Quorum
begin

text \<open>
  Decisions of an erasure set over the metadata its drives return, crates/ecstore/src/set_disk/
  metadata.rs: the common time, entity tag and parity, the read and write quorum of an object,
  the description that a quorum of drives agrees on, and the order of the drives by shard. The
  iteration order of each HashMap is an argument. SHA-256 with its hexadecimal form is the
  argument \<^verbatim>\<open>sha\<close>; drives are of any type. None is a panic, Inl an error.
\<close>

type_synonym 'a disk_result = "DiskError + 'a"

text \<open>The conversion of a length to a signed 32-bit number.\<close>

definition as_i32 :: "nat \<Rightarrow> int" where
  "as_i32 n = sint (word_of_nat n :: 32 word)"

subsection \<open>What most drives agree on\<close>

definition reduce_common_data_dir :: "(uuid option counts \<Rightarrow> uuid option counts) \<Rightarrow> uuid option list \<Rightarrow> nat \<Rightarrow> uuid option" where
  "reduce_common_data_dir ord data_dirs write_quorum =
    (let (dir, mx) = max_above (ord (tally (=) (\<lambda>d. d) data_dirs)) None 0 in
     if mx \<ge> write_quorum then (case dir of Some d \<Rightarrow> d | None \<Rightarrow> None) else None)"

fun parity_loop :: "int \<Rightarrow> int \<Rightarrow> int counts \<Rightarrow> nat \<Rightarrow> int \<Rightarrow> nat \<times> int" where
  "parity_loop n default_parity_count [] max_occ cparity = (max_occ, cparity)"
| "parity_loop n default_parity_count ((parity, occ) # m) max_occ cparity =
    (if parity = -1 then parity_loop n default_parity_count m max_occ cparity
     else
       (let read_quorum = (if default_parity_count > 0 \<and> parity = 0 then n div 2 + 1 else n - parity) in
        if int occ < read_quorum then parity_loop n default_parity_count m max_occ cparity
        else if occ > max_occ then parity_loop n default_parity_count m occ parity
        else parity_loop n default_parity_count m max_occ cparity))"

definition common_parity :: "(int counts \<Rightarrow> int counts) \<Rightarrow> int list \<Rightarrow> int \<Rightarrow> int" where
  "common_parity ord parities default_parity_count =
    (let (max_occ, cparity) =
       parity_loop (as_i32 (length parities)) default_parity_count (ord (tally (=) (\<lambda>p. p) parities)) 0 0
     in if max_occ = 0 then -1 else cparity)"

definition list_object_modtimes :: "FileInfo list \<Rightarrow> DiskError option list \<Rightarrow> time option list option" where
  "list_object_modtimes metas errs =
    (if length errs < length metas then None
     else Some (map2 (\<lambda>m e. if e \<noteq> None then None else fi_mod_time m) metas errs))"

fun time_loop :: "int counts \<Rightarrow> nat \<Rightarrow> int \<Rightarrow> nat \<times> int" where
  "time_loop [] maxima latest = (maxima, latest)"
| "time_loop ((nano, occ) # m) maxima latest =
    (if occ < maxima then time_loop m maxima latest
     else if occ > maxima \<or> nano > latest then time_loop m occ nano
     else time_loop m maxima latest)"

text \<open>Iterator::flatten over options.\<close>

definition flatten :: "'a option list \<Rightarrow> 'a list" where
  "flatten xs = List.map_filter (\<lambda>x. x) xs"

definition common_time_and_occurrence :: "(int counts \<Rightarrow> int counts) \<Rightarrow> time option list \<Rightarrow> time option \<times> nat" where
  "common_time_and_occurrence ord mod_times =
    (let (maxima, latest) = time_loop (ord (tally (=) (\<lambda>t. t) (flatten mod_times))) 0 0 in
     if latest = 0 then (None, maxima) else (Some latest, maxima))"

definition common_time :: "(int counts \<Rightarrow> int counts) \<Rightarrow> time option list \<Rightarrow> nat \<Rightarrow> time option" where
  "common_time ord mod_times quorum =
    (let (time, occ) = common_time_and_occurrence ord mod_times in if occ \<ge> quorum then time else None)"

definition common_etags :: "(string counts \<Rightarrow> string counts) \<Rightarrow> string option list \<Rightarrow> string option \<times> nat" where
  "common_etags ord etags = max_above (ord (tally (=) (\<lambda>e. e) (flatten etags))) None 0"

definition common_etag :: "(string counts \<Rightarrow> string counts) \<Rightarrow> string option list \<Rightarrow> nat \<Rightarrow> string option" where
  "common_etag ord etags quorum =
    (let (etag, occ) = common_etags ord etags in if occ \<ge> quorum then etag else None)"

definition list_object_etags :: "FileInfo list \<Rightarrow> DiskError option list \<Rightarrow> string option list option" where
  "list_object_etags metas errs =
    (if length errs < length metas then None
     else Some (map2 (\<lambda>m e. if e \<noteq> None then None else fmlookup (metadata m) ''etag'') metas errs))"

definition parity_of :: "int \<Rightarrow> FileInfo \<Rightarrow> DiskError option \<Rightarrow> int" where
  "parity_of half m e =
    (if e \<noteq> None then -1 else if \<not> FileInfo_is_valid m then -1
     else if deleted m \<or> fi_size m = 0 then half else as_i32 (parity_blocks (erasure m)))"

definition list_object_parities :: "FileInfo list \<Rightarrow> DiskError option list \<Rightarrow> int list option" where
  "list_object_parities metas errs =
    (if length errs < length metas then None
     else Some (map2 (parity_of (as_i32 (length metas) div 2)) metas errs))"

subsection \<open>The quorums of an object\<close>

definition object_quorum_from_meta ::
  "(DiskError counts \<Rightarrow> DiskError counts) \<Rightarrow> (int counts \<Rightarrow> int counts) \<Rightarrow> FileInfo list \<Rightarrow> DiskError option list \<Rightarrow> nat \<Rightarrow>
    (int \<times> int) disk_result option" where
  "object_quorum_from_meta eord ord metas errs default_parity_count =
    (let expected_rquorum = (if default_parity_count = 0 then length metas else length metas div 2) in
     case reduce_read_quorum_errs eord errs OBJECT_OP_IGNORED_ERRS expected_rquorum of
       Some err \<Rightarrow> Some (Inl err)
     | None \<Rightarrow>
         if default_parity_count = 0 then Some (Inr (as_i32 (length metas), as_i32 (length metas)))
         else
           (case list_object_parities metas errs of
              None \<Rightarrow> None
            | Some parities \<Rightarrow>
                (let parity_blocks = common_parity ord parities (as_i32 default_parity_count) in
                 if parity_blocks < 0 then Some (Inl ErasureReadQuorum)
                 else
                   (let data_blocks = as_i32 (length metas) - parity_blocks;
                        write_quorum = (if data_blocks = parity_blocks then data_blocks + 1 else data_blocks)
                    in Some (Inr (data_blocks, write_quorum))))))"

definition list_online_disks ::
  "(int counts \<Rightarrow> int counts) \<Rightarrow> (string counts \<Rightarrow> string counts) \<Rightarrow> 'd option list \<Rightarrow> FileInfo list \<Rightarrow> DiskError option list \<Rightarrow> nat \<Rightarrow>
    ('d option list \<times> time option \<times> string option) option" where
  "list_online_disks tord eord disks metas errs quorum =
    (case (list_object_modtimes metas errs, list_object_etags metas errs) of
       (Some mod_times, Some etags) \<Rightarrow>
         (let mod_time = common_time tord mod_times quorum;
              etag = common_etag eord etags quorum;
              online = (\<lambda>i. i < length metas \<and> FileInfo_is_valid (metas ! i) \<and> mod_time = mod_times ! i) in
          if list_all (\<lambda>i. online i \<longrightarrow> i < length disks) [0..<length metas]
          then Some (map (\<lambda>i. if online i then disks ! i else None) [0..<length disks], mod_time, etag)
          else None)
     | _ \<Rightarrow> None)"

subsection \<open>The description a quorum agrees on\<close>

definition debug_list :: "nat list \<Rightarrow> string" where
  "debug_list xs = ''['' @ concat (map (\<lambda>i. (if i = 0 then [] else '', '') @ show_nat (xs ! i)) [0..<length xs]) @ '']''"

text \<open>The text that is hashed for one drive.\<close>

definition meta_text :: "FileInfo \<Rightarrow> string" where
  "meta_text m =
    concat (map (\<lambda>p. ''part.'' @ show_nat (p_number p) @ ''part.'' @ show_nat (p_size p)) (parts m))
    @ (if \<not> deleted m \<and> fi_size m \<noteq> 0
       then show_nat (data_blocks (erasure m)) @ ''+'' @ show_nat (parity_blocks (erasure m)) @ debug_list (distribution (erasure m))
       else [])"

definition meta_matches :: "time option \<Rightarrow> string option \<Rightarrow> FileInfo \<Rightarrow> bool" where
  "meta_matches mod_time etag m \<longleftrightarrow>
    FileInfo_is_valid m \<and> (mod_time = None \<and> etag \<noteq> None \<and> get_etag m = etag \<or> mod_time = fi_mod_time m)"

definition meta_hash :: "(string \<Rightarrow> string) \<Rightarrow> time option \<Rightarrow> string option \<Rightarrow> FileInfo \<Rightarrow> string option" where
  "meta_hash sha mod_time etag m = (if meta_matches mod_time etag m then Some (sha (meta_text m)) else None)"

type_synonym obj_props = "time option \<times> nat"

fun first_above :: "nat \<Rightarrow> obj_props counts \<Rightarrow> obj_props option" where
  "first_above quorum [] = None"
| "first_above quorum ((val, occ) # m) = (if occ > quorum then Some val else first_above quorum m)"

definition find_file_info_in_quorum ::
  "(string \<Rightarrow> string) \<Rightarrow> (string counts \<Rightarrow> string counts) \<Rightarrow> (obj_props counts \<Rightarrow> obj_props counts) \<Rightarrow> FileInfo list \<Rightarrow>
    time option \<Rightarrow> string option \<Rightarrow> nat \<Rightarrow> FileInfo disk_result" where
  "find_file_info_in_quorum sha hord pord metas mod_time etag quorum =
    (if quorum < 1 then Inl ErasureReadQuorum
     else
       (let meta_hashes = map (meta_hash sha mod_time etag) metas;
            (max_val, max_count) = max_above (hord (tally (=) (\<lambda>h. h) (flatten meta_hashes))) None 0 in
        if max_count < quorum then Inl ErasureReadQuorum
        else
          (let agreeing = filter (\<lambda>m. meta_hash sha mod_time etag m \<noteq> None \<and> meta_hash sha mod_time etag m = max_val) metas;
               valid_obj_map = tally (=) (\<lambda>p. p) (map (\<lambda>m. (fi_mod_time m, num_versions m)) agreeing) in
           case filter FileInfo_is_valid agreeing of
             [] \<Rightarrow> Inl ErasureReadQuorum
           | fi # _ \<Rightarrow>
               (case first_above quorum (pord valid_obj_map) of
                  None \<Rightarrow> Inr fi
                | Some (t, n) \<Rightarrow> Inr (fi\<lparr>fi_mod_time := t, num_versions := n, is_latest := (t = None)\<rparr>)))))"

definition pick_valid_fileinfo ::
  "(string \<Rightarrow> string) \<Rightarrow> (string counts \<Rightarrow> string counts) \<Rightarrow> (obj_props counts \<Rightarrow> obj_props counts) \<Rightarrow> FileInfo list \<Rightarrow>
    time option \<Rightarrow> string option \<Rightarrow> nat \<Rightarrow> FileInfo disk_result" where
  "pick_valid_fileinfo sha hord pord metas mod_time etag quorum = find_file_info_in_quorum sha hord pord metas mod_time etag quorum"

subsection \<open>The order of the drives\<close>

text \<open>Writing at a position counted from one; another position is a panic.\<close>

definition put_at :: "nat \<Rightarrow> 'a \<Rightarrow> 'a list \<Rightarrow> 'a list option" where
  "put_at idx x xs = (if 0 < idx \<and> idx \<le> length xs then Some (xs[idx - 1 := x]) else None)"

fun shuffle_loop :: "nat list \<Rightarrow> (nat \<times> 'a) list \<Rightarrow> 'a list \<Rightarrow> 'a list option" where
  "shuffle_loop dist [] acc = Some acc"
| "shuffle_loop dist ((k, x) # xs) acc =
    (if k < length dist then
       (case put_at (dist ! k) x acc of None \<Rightarrow> None | Some acc' \<Rightarrow> shuffle_loop dist xs acc')
     else None)"

definition shuffle_list :: "'a \<Rightarrow> nat list \<Rightarrow> 'a list \<Rightarrow> 'a list option" where
  "shuffle_list d dist xs =
    (if dist = [] then Some xs else shuffle_loop dist (zip [0..<length xs] xs) (replicate (length xs) d))"

definition shuffle_disks :: "'d option list \<Rightarrow> nat list \<Rightarrow> 'd option list option" where
  "shuffle_disks disks dist = shuffle_list None dist disks"

definition shuffle_parts_metadata :: "FileInfo list \<Rightarrow> nat list \<Rightarrow> FileInfo list option" where
  "shuffle_parts_metadata metas dist = shuffle_list FileInfo_default dist metas"

definition shuffle_check_parts :: "nat list \<Rightarrow> nat list \<Rightarrow> nat list option" where
  "shuffle_check_parts parts_errs dist = shuffle_list 0 dist parts_errs"

text \<open>Drives and metadata are placed together; what is left out keeps the default.\<close>

definition place_both :: "nat list \<Rightarrow> nat list \<Rightarrow> 'd option list \<Rightarrow> FileInfo list \<Rightarrow> ('d option list \<times> FileInfo list) option" where
  "place_both dist ks disks metas =
    (if list_all (\<lambda>k. k < length disks \<and> k < length metas) ks then
       (case (shuffle_loop dist (map (\<lambda>k. (k, disks ! k)) ks) (replicate (length disks) None),
              shuffle_loop dist (map (\<lambda>k. (k, metas ! k)) ks) (replicate (length metas) FileInfo_default)) of
          (Some ds, Some ms) \<Rightarrow> Some (ds, ms)
        | _ \<Rightarrow> None)
     else None)"

definition shuffle_disks_and_parts_metadata ::
  "'d option list \<Rightarrow> FileInfo list \<Rightarrow> FileInfo \<Rightarrow> ('d option list \<times> FileInfo list) option" where
  "shuffle_disks_and_parts_metadata disks metas fi =
    (let init = (fi_mod_time fi = None) in
     if list_all (\<lambda>k. disks ! k \<noteq> None \<longrightarrow> k < length metas) [0..<length disks] then
       place_both (distribution (erasure fi))
         (filter (\<lambda>k. disks ! k \<noteq> None \<and> (init \<or> FileInfo_is_valid (metas ! k))) [0..<length disks]) disks metas
     else None)"

text \<open>The drives whose metadata names the position the distribution gives them.\<close>

definition consistent_at :: "nat list \<Rightarrow> 'd option list \<Rightarrow> FileInfo list \<Rightarrow> nat \<Rightarrow> bool" where
  "consistent_at dist disks metas k \<longleftrightarrow>
    disks ! k \<noteq> None \<and> FileInfo_is_valid (metas ! k) \<and> dist ! k = ei_index (erasure (metas ! k))"

definition shuffle_disks_and_parts_metadata_by_index ::
  "'d option list \<Rightarrow> FileInfo list \<Rightarrow> FileInfo \<Rightarrow> ('d option list \<times> FileInfo list) option" where
  "shuffle_disks_and_parts_metadata_by_index disks metas fi =
    (let dist = distribution (erasure fi); ks = [0..<length metas] in
     if length disks < length metas
       \<or> list_ex (\<lambda>k. disks ! k \<noteq> None \<and> FileInfo_is_valid (metas ! k) \<and> length dist \<le> k) ks then None
     else
       (case place_both dist (filter (consistent_at dist disks metas) ks) disks metas of
          None \<Rightarrow> None
        | Some r \<Rightarrow>
            if length (filter (\<lambda>k. \<not> consistent_at dist disks metas k) ks) < parity_blocks (erasure fi) then Some r
            else shuffle_disks_and_parts_metadata disks metas fi))"

end
