(* ===== verification/SetMetadataSpec.thy ===== *)
theory SetMetadataSpec
  imports SetMetadata
begin

text \<open>
  What the decisions over the metadata of a set guarantee: quorums that intersect, a common time
  that does not depend on the order of the hash map, a description that enough drives have, and
  drives in the order of their shards.
\<close>

interpretation int_counts: tally_key "(=) :: int \<Rightarrow> int \<Rightarrow> bool" "\<lambda>x. x"
  by unfold_locales auto

interpretation string_counts: tally_key "(=) :: string \<Rightarrow> string \<Rightarrow> bool" "\<lambda>x. x"
  by unfold_locales auto

interpretation props_counts: tally_key "(=) :: obj_props \<Rightarrow> obj_props \<Rightarrow> bool" "\<lambda>x. x"
  by unfold_locales auto

subsection \<open>Signed numbers\<close>

lemma as_i32_small: "n < 2 ^ 31 \<Longrightarrow> as_i32 n = int n"
proof -
  assume a: "n < 2 ^ 31"
  have "as_i32 n = signed_take_bit 31 (int n)" by (simp add: as_i32_def signed_of_nat)
  then show ?thesis using a by (simp add: signed_take_bit_int_eq_self)
qed

subsection \<open>The common time\<close>

lemma time_loop_spec:
  assumes "time_loop m mx0 l0 = (mx, l)"
  shows "(mx, l) = (mx0, l0) \<or> (l, mx) \<in> set m" "mx0 < mx \<or> mx0 = mx \<and> l0 \<le> l"
    "\<And>t c. (t, c) \<in> set m \<Longrightarrow> c < mx \<or> c = mx \<and> t \<le> l"
proof -
  have "((mx, l) = (mx0, l0) \<or> (l, mx) \<in> set m) \<and> (mx0 < mx \<or> mx0 = mx \<and> l0 \<le> l)
    \<and> (\<forall>t c. (t, c) \<in> set m \<longrightarrow> c < mx \<or> c = mx \<and> t \<le> l)"
    using assms
  proof (induction m mx0 l0 rule: time_loop.induct)
    case (2 nano occ m mx0 l0)
    then show ?case by (auto split: if_splits)
  qed simp
  then show "(mx, l) = (mx0, l0) \<or> (l, mx) \<in> set m" "mx0 < mx \<or> mx0 = mx \<and> l0 \<le> l"
    "\<And>t c. (t, c) \<in> set m \<Longrightarrow> c < mx \<or> c = mx \<and> t \<le> l" by blast+
qed

lemma flatten_count: "occurrences (=) t (flatten ts) = length (filter (\<lambda>x. x = Some t) ts)"
  by (induction ts) (auto simp: flatten_def List.map_filter_def)

definition time_votes :: "time option list \<Rightarrow> time \<Rightarrow> nat" where
  "time_votes ts t = length (filter (\<lambda>x. x = Some t) ts)"

lemma flatten_mem: "t \<in> set (flatten ts) \<longleftrightarrow> Some t \<in> set ts"
  by (force simp: flatten_def List.map_filter_def)

lemma common_time_loop:
  assumes "iteration_order ord" "time_loop (ord (tally (=) (\<lambda>t. t) (flatten ts))) 0 0 = (mx, l)"
  shows "mx = 0 \<and> l = 0 \<and> flatten ts = [] \<or> 0 < mx \<and> mx = time_votes ts l"
    "\<And>t. Some t \<in> set ts \<Longrightarrow> time_votes ts t < mx \<or> time_votes ts t = mx \<and> t \<le> l"
proof -
  note set = iteration_order_set [OF assms(1), of "tally (=) (\<lambda>t. t) (flatten ts)"]
  note sp = time_loop_spec [OF assms(2)]
  have mem: "(t, time_votes ts t) \<in> set (tally (=) (\<lambda>t. t) (flatten ts))" if "Some t \<in> set ts" for t
    using int_counts.tally_covers [of t "flatten ts"] that by (metis flatten_mem flatten_count time_votes_def)
  show "time_votes ts t < mx \<or> time_votes ts t = mx \<and> t \<le> l" if "Some t \<in> set ts" for t
    using sp(3) mem [OF that] set by blast
  have e: "mx = time_votes ts l \<and> Some l \<in> set ts" if "(l, mx) \<in> set (tally (=) (\<lambda>t. t) (flatten ts))"
    using int_counts.tally_entry [OF that] flatten_count [of l ts] flatten_mem [of l ts] by (auto simp: time_votes_def)
  have p: "0 < time_votes ts t" if "Some t \<in> set ts" for t
    using that by (auto simp: time_votes_def filter_empty_conv)
  have z: "flatten ts = []" if "(mx, l) = (0, 0)"
  proof (rule ccontr)
    assume "flatten ts \<noteq> []"
    then obtain t where "Some t \<in> set ts" using flatten_mem [of _ ts] by (metis list.set_intros(1) neq_Nil_conv)
    then show False using p [of t] sp(3) mem [of t] set that by fastforce
  qed
  show "mx = 0 \<and> l = 0 \<and> flatten ts = [] \<or> 0 < mx \<and> mx = time_votes ts l"
    using sp(1)
  proof
    assume "(l, mx) \<in> set (ord (tally (=) (\<lambda>t. t) (flatten ts)))"
    then show ?thesis using e p [of l] set by auto
  qed (use z in auto)
qed

text \<open>
  C40: The common modification time of the drives, when there is one, is a time that at least a
  quorum of drives has, no other time has more drives, and of the times with equally many it is
  the latest; it does not depend on the order in which the hash map is visited.
\<close>

theorem common_time_latest_majority:
  assumes "iteration_order ord" "iteration_order ord'"
  shows "common_time ord ts quorum = common_time ord' ts quorum
    \<and> (\<forall>t. common_time ord ts quorum = Some t \<longrightarrow> quorum \<le> time_votes ts t
      \<and> (\<forall>t'. Some t' \<in> set ts \<longrightarrow> time_votes ts t' < time_votes ts t \<or> time_votes ts t' = time_votes ts t \<and> t' \<le> t))"
proof -
  obtain mx l where r: "time_loop (ord (tally (=) (\<lambda>t. t) (flatten ts))) 0 0 = (mx, l)" by fastforce
  obtain mx' l' where r': "time_loop (ord' (tally (=) (\<lambda>t. t) (flatten ts))) 0 0 = (mx', l')" by fastforce
  note c = common_time_loop [OF assms(1) r] and c' = common_time_loop [OF assms(2) r']
  have pos: "Some t \<in> set ts" if "0 < time_votes ts t" for t using that by (auto simp: time_votes_def filter_empty_conv)
  have none: "time_votes ts t = 0" if "flatten ts = []" for t
    using that flatten_count [of t ts] by (simp add: time_votes_def)
  have eq: "mx = mx' \<and> l = l'"
  proof (cases "flatten ts = []")
    case True
    then show ?thesis using c(1) c'(1) none [OF True, of l] none [OF True, of l'] by auto
  next
    case False
    then have m: "0 < mx" "mx = time_votes ts l" "0 < mx'" "mx' = time_votes ts l'" using c(1) c'(1) by simp_all
    have "Some l \<in> set ts" "Some l' \<in> set ts" using m pos by simp_all
    from c(2) [OF this(2)] c'(2) [OF this(1)] show ?thesis unfolding m(2,4) [symmetric] by linarith
  qed
  have "quorum \<le> time_votes ts t
      \<and> (\<forall>t'. Some t' \<in> set ts \<longrightarrow> time_votes ts t' < time_votes ts t \<or> time_votes ts t' = time_votes ts t \<and> t' \<le> t)"
    if "common_time ord ts quorum = Some t" for t
  proof -
    have "t = l" "l \<noteq> 0" "quorum \<le> mx" using that r by (auto simp: common_time_def common_time_and_occurrence_def split: if_splits)
    then show ?thesis using c by auto
  qed
  then show ?thesis using eq r r' by (simp add: common_time_def common_time_and_occurrence_def)
qed

theorem common_time_latest_majority_witness:
  "common_time rev [Some 5, Some 7, None, Some 7, Some 5] 2 = common_time (\<lambda>m. m) [Some 5, Some 7, None, Some 7, Some 5] 2
    \<and> common_time rev [Some 5, Some 7, None, Some 7, Some 5] 2 = Some 7"
proof -
  have "common_time (\<lambda>m. m) [Some 5, Some 7, None, Some 7, Some 5] 2 = Some 7"
    by (simp add: common_time_def common_time_and_occurrence_def flatten_def List.map_filter_def tally_def)
  then show ?thesis
    using common_time_latest_majority [of rev "\<lambda>m. m" "[Some 5, Some 7, None, Some 7, Some 5]" 2] by simp
qed

subsection \<open>The quorums of an object\<close>

lemma parity_loop_spec:
  assumes "parity_loop n dp m mo cp = (mo', cp')"
  shows "(mo', cp') = (mo, cp) \<or> (cp', mo') \<in> set m \<and> cp' \<noteq> -1 \<and> 0 < mo'
    \<and> (if dp > 0 \<and> cp' = 0 then n div 2 + 1 else n - cp') \<le> int mo'"
  using assms
proof (induction n dp m mo cp rule: parity_loop.induct)
  case (2 n dp parity occ m mo cp)
  let ?rq = "if dp > 0 \<and> parity = 0 then n div 2 + 1 else n - parity"
  consider (skip) "parity_loop n dp m mo cp = (mo', cp')"
    | (take) "parity \<noteq> -1" "?rq \<le> int occ" "mo < occ" "parity_loop n dp m occ parity = (mo', cp')"
    using "2.prems" by (auto simp: Let_def split: if_splits)
  then show ?case
  proof cases
    case skip
    then show ?thesis using "2.IH" "2.prems" by (auto simp: Let_def split: if_splits)
  next
    case take
    then show ?thesis using "2.IH"(3) [OF take(1) refl _ take(3,4)] by (auto split: if_splits)
  qed
qed simp

lemma common_parity_spec:
  assumes "iteration_order ord" "common_parity ord ps dp = p" "0 \<le> p"
  shows "p \<in> set ps" "(if dp > 0 \<and> p = 0 then as_i32 (length ps) div 2 + 1 else as_i32 (length ps) - p) \<le> int (occurrences (=) p ps)"
proof -
  obtain mo cp where r: "parity_loop (as_i32 (length ps)) dp (ord (tally (=) (\<lambda>p. p) ps)) 0 0 = (mo, cp)" by fastforce
  have "mo \<noteq> 0" "p = cp" using assms(2,3) r by (auto simp: common_parity_def split: if_splits)
  then have m: "(p, mo) \<in> set (tally (=) (\<lambda>p. p) ps)"
    and q: "(if dp > 0 \<and> p = 0 then as_i32 (length ps) div 2 + 1 else as_i32 (length ps) - p) \<le> int mo"
    using parity_loop_spec [OF r] iteration_order_set [OF assms(1)] by auto
  show "p \<in> set ps" using int_counts.tally_entry [OF m] by auto
  show "(if dp > 0 \<and> p = 0 then as_i32 (length ps) div 2 + 1 else as_i32 (length ps) - p) \<le> int (occurrences (=) p ps)"
    using q int_counts.tally_entry [OF m] by simp
qed

text \<open>The objects are laid out over all drives of the set.\<close>

definition set_layout :: "FileInfo list \<Rightarrow> bool" where
  "set_layout metas \<longleftrightarrow> list_all (\<lambda>m. FileInfo_is_valid m \<and> \<not> deleted m \<and> fi_size m \<noteq> 0 \<longrightarrow>
     data_blocks (erasure m) + parity_blocks (erasure m) = length metas) metas"

definition usable :: "FileInfo \<times> DiskError option \<Rightarrow> bool" where
  "usable d \<longleftrightarrow> snd d = None \<and> FileInfo_is_valid (fst d)"

lemma parity_of_range:
  assumes "length metas < 2 ^ 31" "set_layout metas" "m \<in> set metas" "parity_of (as_i32 (length metas) div 2) m e = p" "0 \<le> p"
  shows "2 * p \<le> int (length metas)" "usable (m, e)"
proof -
  have n: "as_i32 (length metas) = int (length metas)" by (rule as_i32_small [OF assms(1)])
  show u: "usable (m, e)" using assms(4,5) by (auto simp: parity_of_def usable_def split: if_splits)
  show "2 * p \<le> int (length metas)"
  proof (cases "deleted m \<or> fi_size m = 0")
    case True
    then have "p = int (length metas) div 2" using assms(4) u n by (auto simp: parity_of_def usable_def)
    then show ?thesis by linarith
  next
    case False
    have v: "FileInfo_is_valid m" using u by (simp add: usable_def)
    have "data_blocks (erasure m) + parity_blocks (erasure m) = length metas"
      by (rule assms(2) [unfolded set_layout_def list_all_iff, rule_format, OF assms(3)]) (use v False in simp)
    moreover have "parity_blocks (erasure m) \<le> data_blocks (erasure m)"
      using v False by (simp add: FileInfo_is_valid_def Let_def)
    moreover have "p = as_i32 (parity_blocks (erasure m))" using assms(4) False u by (auto simp: parity_of_def usable_def)
    ultimately show ?thesis using as_i32_small [of "parity_blocks (erasure m)"] assms(1) by auto
  qed
qed

text \<open>
  C11: When an object has a read and a write quorum, every read quorum and every write quorum of
  the drives of the set have a drive in common, and the read quorum is met by drives with valid
  metadata unless it is the whole set.
\<close>

theorem object_quorums_intersect:
  assumes "iteration_order ord" "object_quorum_from_meta eord ord metas errs dp = Some (Inr (r, w))"
    and n: "0 < length metas" "length metas < 2 ^ 31" "length errs = length metas" "set_layout metas"
  shows "0 < r \<and> r \<le> w \<and> int (length metas) < r + w
    \<and> (r < int (length metas) \<longrightarrow> r \<le> int (length (filter usable (zip metas errs))))"
proof -
  have i: "as_i32 (length metas) = int (length metas)" by (rule as_i32_small [OF n(2)])
  show ?thesis
  proof (cases "dp = 0")
    case True
    then have "r = int (length metas)" "w = int (length metas)"
      using assms(2) i by (auto simp: object_quorum_from_meta_def split: option.splits)
    then show ?thesis using n(1) by simp
  next
    case False
    define ps where "ps = map2 (parity_of (as_i32 (length metas) div 2)) metas errs"
    define p where "p = common_parity ord ps (as_i32 dp)"
    have "list_object_parities metas errs = Some ps" using n(3) by (simp add: list_object_parities_def ps_def)
    then have r: "0 \<le> p" "r = int (length metas) - p" "w = (if r = p then r + 1 else r)"
      using assms(2) False i by (auto simp: object_quorum_from_meta_def p_def Let_def split: option.splits if_splits)
    have len: "length ps = length metas" using n(3) by (simp add: ps_def)
    note c = common_parity_spec [OF assms(1) p_def [symmetric] r(1)]
    obtain m e where me: "m \<in> set metas" "parity_of (as_i32 (length metas) div 2) m e = p"
      using c(1) by (auto simp: ps_def dest: set_zip_leftD)
    have half: "2 * p \<le> int (length metas)" using parity_of_range(1) [OF n(2,4) me r(1)] .
    have "length (filter ((=) p) ps) \<le> length (filter usable (zip metas errs))"
    proof -
      have "usable (m, e)" if "(m, e) \<in> set (zip metas errs)" "p = parity_of (as_i32 (length metas) div 2) m e" for m e
        using that parity_of_range(2) [OF n(2,4) _ _ r(1)] set_zip_leftD by metis
      then show ?thesis unfolding ps_def filter_map length_map by (intro filter_length_le) auto
    qed
    then have met: "r \<le> int (length (filter usable (zip metas errs)))" if "r < int (length metas)"
      using c(2) that r(2) unfolding len i by (auto split: if_splits)
    have N: "0 < int (length metas)" using n(1) by linarith
    have "0 < r" using half r(2) N by linarith
    moreover have "int (length metas) < r + w" using half r(2,3) N by (simp split: if_splits)
    ultimately show ?thesis using met r(3) by simp
  qed
qed

definition sample_metas :: "FileInfo list" where
  "sample_metas = map (\<lambda>i. FileInfo_default\<lparr>fi_size := 10, erasure := ErasureInfo_default
     \<lparr>data_blocks := 2, parity_blocks := 2, ei_index := i, distribution := [1, 2, 3, 4]\<rparr>\<rparr>) [1, 2, 3, 4]"

theorem object_quorums_intersect_witness:
  "\<exists>r w. object_quorum_from_meta (\<lambda>m. m) (\<lambda>m. m) sample_metas [None, None, None, Some FileNotFound] 2 = Some (Inr (r, w))
    \<and> int (length sample_metas) < r + w"
proof -
  let ?e = "[None, None, None, Some FileNotFound]"
  have f: "tally DiskError_eq DiskError_clone [FileNotFound] = [(DiskError_clone FileNotFound, 1)]" by (simp add: tally_def)
  have run: "object_quorum_from_meta (\<lambda>m. m) (\<lambda>m. m) sample_metas ?e 2 = Some (Inr (2, 3))"
  proof -
    have "reduce_read_quorum_errs (\<lambda>m. m) ?e OBJECT_OP_IGNORED_ERRS 2 = None"
      by (simp add: reduce_read_quorum_errs_def reduce_quorum_errs_def reduce_errs_def nil_count_def
          is_ignored_err_def OBJECT_OP_IGNORED_ERRS_def DiskError_eq_iff f)
    moreover have "list_object_parities sample_metas ?e = Some [2, 2, 2, -1]"
      by (simp add: list_object_parities_def sample_metas_def parity_of_def FileInfo_is_valid_def FileInfo_default_def
          ErasureInfo_default_def as_i32_small)
    moreover have "common_parity (\<lambda>m. m) [2, 2, 2, -1] 2 = 2" by (simp add: common_parity_def tally_def as_i32_small)
    moreover have "length sample_metas = 4" by (simp add: sample_metas_def)
    ultimately show ?thesis by (simp add: object_quorum_from_meta_def as_i32_small)
  qed
  have "0 < length sample_metas" "length sample_metas < 2 ^ 31" "length ?e = length sample_metas" "set_layout sample_metas"
    by (simp_all add: sample_metas_def set_layout_def FileInfo_default_def)
  from object_quorums_intersect [OF iteration_order_id run this] run show ?thesis by blast
qed

subsection \<open>The description a quorum agrees on\<close>

definition agreement :: "time option \<Rightarrow> string option \<Rightarrow> FileInfo list \<Rightarrow> FileInfo \<Rightarrow> nat" where
  "agreement mod_time etag metas m = length (filter (\<lambda>m'. meta_matches mod_time etag m' \<and> meta_text m' = meta_text m) metas)"

lemma hash_occurrences:
  assumes "inj_on sha (meta_text ` set metas)" "m \<in> set metas"
  shows "occurrences (=) (sha (meta_text m)) (flatten (map (meta_hash sha mod_time etag) metas)) = agreement mod_time etag metas m"
proof -
  have "sha (meta_text m) = sha (meta_text m') \<longleftrightarrow> meta_text m' = meta_text m" if "m' \<in> set metas" for m'
    using assms that by (auto dest: inj_onD)
  then have "occurrences (=) (sha (meta_text m)) (flatten (map (meta_hash sha mod_time etag) ms))
    = length (filter (\<lambda>m'. meta_matches mod_time etag m' \<and> meta_text m' = meta_text m) ms)" if "set ms \<subseteq> set metas" for ms
    using that by (induction ms) (auto simp: flatten_def List.map_filter_def meta_hash_def)
  then show ?thesis by (simp add: agreement_def)
qed

lemma hash_mem: "h \<in> set (flatten (map (meta_hash sha mod_time etag) metas)) \<longleftrightarrow>
    (\<exists>m \<in> set metas. meta_matches mod_time etag m \<and> h = sha (meta_text m))"
  by (force simp: flatten_def List.map_filter_def meta_hash_def split: if_splits)

lemma first_above_mem: "first_above q m = Some v \<Longrightarrow> \<exists>c. (v, c) \<in> set m"
  by (induction q m rule: first_above.induct) (auto split: if_splits)

text \<open>The maximum over the counts of the hashes.\<close>

lemma hash_maximum:
  assumes "iteration_order hord" "inj_on sha (meta_text ` set metas)"
    and "max_above (hord (tally (=) (\<lambda>h. h) (flatten (map (meta_hash sha mod_time etag) metas)))) None 0 = (mv, mc)"
  shows "m \<in> set metas \<Longrightarrow> meta_matches mod_time etag m \<Longrightarrow> agreement mod_time etag metas m \<le> mc"
    "0 < mc \<Longrightarrow> \<exists>m \<in> set metas. meta_matches mod_time etag m \<and> mv = Some (sha (meta_text m)) \<and> mc = agreement mod_time etag metas m"
proof -
  let ?hs = "flatten (map (meta_hash sha mod_time etag) metas)"
  note set = iteration_order_set [OF assms(1), of "tally (=) (\<lambda>h. h) ?hs"]
  note mx = max_above_spec [OF assms(3)]
  show "agreement mod_time etag metas m \<le> mc" if "m \<in> set metas" "meta_matches mod_time etag m"
  proof -
    have "sha (meta_text m) \<in> set ?hs" using that hash_mem by blast
    then obtain k where "(k, occurrences (=) (sha (meta_text m)) ?hs) \<in> set (tally (=) (\<lambda>h. h) ?hs)"
      using string_counts.tally_covers by metis
    then show ?thesis using mx set unfolding hash_occurrences [OF assms(2) that(1)] by fastforce
  qed
  show "\<exists>m \<in> set metas. meta_matches mod_time etag m \<and> mv = Some (sha (meta_text m)) \<and> mc = agreement mod_time etag metas m"
    if pos: "0 < mc"
  proof -
    obtain k where k: "mv = Some k" "(k, mc) \<in> set (tally (=) (\<lambda>h. h) ?hs)" using mx set pos by auto
    then have e: "mc = occurrences (=) k ?hs" "k \<in> set ?hs" using string_counts.tally_entry [OF k(2)] by auto
    then obtain m where m: "m \<in> set metas" "meta_matches mod_time etag m" "k = sha (meta_text m)" using hash_mem by blast
    show ?thesis using m k(1) e(1) hash_occurrences [OF assms(2) m(1)] by (intro bexI [OF _ m(1)]) simp
  qed
qed

lemma props_of_agreeing:
  assumes "iteration_order pord"
    and "first_above q (pord (tally (=) (\<lambda>p. p) (map (\<lambda>m. (fi_mod_time m, num_versions m)) ag))) = Some (t, n)"
    and "\<And>m. m \<in> set ag \<Longrightarrow> meta_matches mod_time etag m"
  shows "mod_time \<noteq> None \<longrightarrow> t = mod_time"
proof -
  let ?ps = "map (\<lambda>m. (fi_mod_time m, num_versions m)) ag"
  obtain c where "((t, n), c) \<in> set (tally (=) (\<lambda>p. p) ?ps)"
    using first_above_mem [OF assms(2)] iteration_order_set [OF assms(1)] by auto
  from props_counts.tally_entry [OF this] have "(t, n) \<in> set ?ps" by auto
  then obtain m where "m \<in> set ag" "t = fi_mod_time m" by auto
  then show ?thesis using assms(3) [of m] by (auto simp: meta_matches_def)
qed

definition agreed_description :: "time option \<Rightarrow> string option \<Rightarrow> FileInfo list \<Rightarrow> nat \<Rightarrow> FileInfo \<Rightarrow> bool" where
  "agreed_description mod_time etag metas quorum fi \<longleftrightarrow>
    (\<exists>m \<in> set metas. meta_matches mod_time etag m \<and> quorum \<le> agreement mod_time etag metas m
      \<and> (\<exists>t n l. fi = m\<lparr>fi_mod_time := t, num_versions := n, is_latest := l\<rparr>)) \<and> (mod_time \<noteq> None \<longrightarrow> fi_mod_time fi = mod_time)"

lemma agreed_choice:
  assumes "fi \<in> set metas" "meta_matches mod_time etag fi" "quorum \<le> agreement mod_time etag metas fi"
    and "\<And>t n. first = Some (t, n) \<Longrightarrow> mod_time \<noteq> None \<longrightarrow> t = mod_time"
  shows "agreed_description mod_time etag metas quorum
    (case first of None \<Rightarrow> fi | Some (t, n) \<Rightarrow> fi\<lparr>fi_mod_time := t, num_versions := n, is_latest := (t = None)\<rparr>)"
proof (cases first)
  case None
  have "fi = fi\<lparr>fi_mod_time := fi_mod_time fi, num_versions := num_versions fi, is_latest := is_latest fi\<rparr>" by simp
  moreover have "mod_time \<noteq> None \<longrightarrow> fi_mod_time fi = mod_time" using assms(2) by (auto simp: meta_matches_def)
  ultimately show ?thesis using assms(1-3) unfolding agreed_description_def None option.case by blast
next
  case (Some p)
  obtain t n where p: "p = (t, n)" by fastforce
  have "mod_time \<noteq> None \<longrightarrow> fi_mod_time (fi\<lparr>fi_mod_time := t, num_versions := n, is_latest := (t = None)\<rparr>) = mod_time"
    using assms(4) Some p by simp
  then show ?thesis using assms(1-3) unfolding agreed_description_def Some p option.case prod.case by blast
qed

text \<open>
  C12: The description chosen for an object is that of a drive with which at least a quorum of
  drives agrees on time or entity tag, parts and erasure layout, and has the time asked for; the
  only error is the read quorum error, returned exactly when no description has a quorum.  The hash
  is assumed not to collide on the descriptions read.
\<close>

theorem found_description_has_quorum:
  assumes "iteration_order hord" "iteration_order pord" "inj_on sha (meta_text ` set metas)" "1 \<le> quorum"
  shows "case find_file_info_in_quorum sha hord pord metas mod_time etag quorum of
      Inr fi \<Rightarrow> agreed_description mod_time etag metas quorum fi
    | Inl e \<Rightarrow> e = ErasureReadQuorum \<and> (\<forall>m \<in> set metas. meta_matches mod_time etag m \<longrightarrow> agreement mod_time etag metas m < quorum)"
proof -
  let ?hash = "meta_hash sha mod_time etag"
  obtain mv mc where mx: "max_above (hord (tally (=) (\<lambda>h. h) (flatten (map ?hash metas)))) None 0 = (mv, mc)" by fastforce
  note h = hash_maximum [OF assms(1,3) mx]
  show ?thesis
  proof (cases "mc < quorum")
    case True
    then have "find_file_info_in_quorum sha hord pord metas mod_time etag quorum = Inl ErasureReadQuorum"
      using assms(4) mx by (simp add: find_file_info_in_quorum_def Let_def)
    then show ?thesis using h(1) True by fastforce
  next
    case False
    define ag where "ag = filter (\<lambda>m. ?hash m \<noteq> None \<and> ?hash m = mv) metas"
    have "0 < mc" using False assms(4) by simp
    then obtain m0 where m0: "m0 \<in> set metas" "meta_matches mod_time etag m0" "mv = Some (sha (meta_text m0))"
      "mc = agreement mod_time etag metas m0" using h(2) by blast
    have agD: "meta_matches mod_time etag m \<and> m \<in> set metas \<and> meta_text m = meta_text m0" if "m \<in> set ag" for m
      using that m0(1,3) assms(3) by (auto simp: ag_def meta_hash_def dest: inj_onD split: if_splits)
    have "m0 \<in> set ag" using m0 by (simp add: ag_def meta_hash_def)
    moreover have "FileInfo_is_valid m" if "m \<in> set ag" for m using agD [OF that] by (simp add: meta_matches_def)
    ultimately obtain fi rest where fi: "filter FileInfo_is_valid ag = fi # rest" "fi \<in> set ag"
      by (metis filter_True list.set_intros(1) neq_Nil_conv equals0D set_empty)
    let ?props = "pord (tally (=) (\<lambda>p. p) (map (\<lambda>m. (fi_mod_time m, num_versions m)) ag))"
    have run: "find_file_info_in_quorum sha hord pord metas mod_time etag quorum =
      Inr (case first_above quorum ?props of None \<Rightarrow> fi
       | Some (t, n) \<Rightarrow> fi\<lparr>fi_mod_time := t, num_versions := n, is_latest := (t = None)\<rparr>)"
      using assms(4) mx False fi(1) by (simp add: find_file_info_in_quorum_def Let_def ag_def split: option.split)
    have "quorum \<le> agreement mod_time etag metas fi" using agD [OF fi(2)] m0(4) False by (simp add: agreement_def)
    then show ?thesis
      unfolding run sum.case using agD [OF fi(2)] props_of_agreeing [OF assms(2)] agD by (intro agreed_choice) blast+
  qed
qed

theorem found_description_has_quorum_witness:
  "\<exists>fi. find_file_info_in_quorum (\<lambda>s. s) (\<lambda>m. m) rev sample_metas None None 3 = Inr fi
    \<and> agreed_description None None sample_metas 3 fi"
proof -
  have "agreement None None sample_metas (hd sample_metas) = 4"
    by (simp add: agreement_def meta_matches_def meta_text_def sample_metas_def FileInfo_is_valid_def FileInfo_default_def
        ErasureInfo_default_def)
  moreover have "hd sample_metas \<in> set sample_metas" "meta_matches None None (hd sample_metas)"
    by (simp_all add: meta_matches_def sample_metas_def FileInfo_is_valid_def FileInfo_default_def ErasureInfo_default_def)
  ultimately show ?thesis
    using found_description_has_quorum [of "\<lambda>m. m" rev "\<lambda>s. s" sample_metas 3 None None]
    by (fastforce simp: iteration_order_def split: sum.splits)
qed

subsection \<open>The order of the drives\<close>

text \<open>A distribution gives every drive a position of its own, counted from one.\<close>

definition is_distribution :: "nat \<Rightarrow> nat list \<Rightarrow> bool" where
  "is_distribution n dist \<longleftrightarrow> length dist = n \<and> distinct dist \<and> set dist = {1..n}"

lemma is_distribution_nth:
  assumes "is_distribution n dist" "k < n"
  shows "0 < dist ! k" "dist ! k \<le> n"
  using assms nth_mem [of k dist] by (auto simp: is_distribution_def)

lemma is_distribution_inj:
  assumes "is_distribution n dist" "k < n" "k' < n" "dist ! k - 1 = dist ! k' - 1"
  shows "k = k'"
proof -
  have "dist ! k = dist ! k'"
    using is_distribution_nth(1) [OF assms(1,2)] is_distribution_nth(1) [OF assms(1,3)] assms(4) by linarith
  then show ?thesis using assms(1-3) by (simp add: is_distribution_def nth_eq_iff_index_eq)
qed

lemma is_distribution_onto:
  assumes "is_distribution n dist" "j < n"
  obtains k where "k < n" "dist ! k = j + 1"
  using assms by (auto simp: is_distribution_def in_set_conv_nth dest!: equalityD2 [THEN subsetD, of _ _ "j + 1"])

text \<open>What the loop places: the listed drives at their positions, everything else untouched.\<close>

lemma shuffle_loop_places:
  assumes "is_distribution n dist" "distinct ks" "\<forall>k \<in> set ks. k < n" "length acc = n"
  shows "\<exists>r. shuffle_loop dist (map (\<lambda>k. (k, f k)) ks) acc = Some r \<and> length r = n
    \<and> (\<forall>k < n. r ! (dist ! k - 1) = (if k \<in> set ks then f k else acc ! (dist ! k - 1)))"
  using assms(2-)
proof (induction ks arbitrary: acc)
  case (Cons k ks)
  have k: "k < n" "k < length dist" "0 < dist ! k" "dist ! k \<le> n"
    using Cons.prems assms(1) is_distribution_nth [OF assms(1), of k] by (auto simp: is_distribution_def)
  let ?acc = "acc[dist ! k - 1 := f k]"
  obtain r where r: "shuffle_loop dist (map (\<lambda>k. (k, f k)) ks) ?acc = Some r" "length r = n"
    "\<forall>k < n. r ! (dist ! k - 1) = (if k \<in> set ks then f k else ?acc ! (dist ! k - 1))"
    using Cons.IH [of ?acc] Cons.prems by auto
  have "?acc ! (dist ! k' - 1) = (if k' = k then f k else acc ! (dist ! k' - 1))" if "k' < n" for k'
    using is_distribution_inj [OF assms(1) k(1) that] k Cons.prems(3) by (auto simp: nth_list_update)
  then show ?case using r k Cons.prems by (intro exI [where x = r]) (auto simp: put_at_def)
qed auto

lemma zip_as_map: "zip [0..<length xs] xs = map (\<lambda>k. (k, xs ! k)) [0..<length xs]"
  by (rule nth_equalityI) auto

text \<open>Every drive handed out stands at the position the distribution gives it, with its own metadata.\<close>

definition in_place :: "nat list \<Rightarrow> 'd option list \<Rightarrow> FileInfo list \<Rightarrow> 'd option list \<times> FileInfo list \<Rightarrow> bool" where
  "in_place dist disks metas = (\<lambda>(ds, ms). length ds = length disks \<and> length ms = length metas
    \<and> (\<forall>j < length disks. \<forall>d. ds ! j = Some d \<longrightarrow> (\<exists>k < length disks. dist ! k = j + 1 \<and> disks ! k = Some d \<and> ms ! j = metas ! k)))"

lemma place_both_in_place:
  assumes "is_distribution (length disks) dist" "length metas = length disks" "distinct ks" "\<forall>k \<in> set ks. k < length disks"
  obtains r where "place_both dist ks disks metas = Some r" "in_place dist disks metas r"
proof -
  let ?n = "length disks"
  obtain ds where ds: "shuffle_loop dist (map (\<lambda>k. (k, disks ! k)) ks) (replicate ?n None) = Some ds" "length ds = ?n"
    "\<forall>k < ?n. ds ! (dist ! k - 1) = (if k \<in> set ks then disks ! k else replicate ?n None ! (dist ! k - 1))"
    using shuffle_loop_places [OF assms(1,3,4), of "replicate ?n None" "\<lambda>k. disks ! k"] by auto
  obtain ms where ms: "shuffle_loop dist (map (\<lambda>k. (k, metas ! k)) ks) (replicate ?n FileInfo_default) = Some ms" "length ms = ?n"
    "\<forall>k < ?n. ms ! (dist ! k - 1) = (if k \<in> set ks then metas ! k else replicate ?n FileInfo_default ! (dist ! k - 1))"
    using shuffle_loop_places [OF assms(1,3,4), of "replicate ?n FileInfo_default" "\<lambda>k. metas ! k"] by auto
  have "\<exists>k < ?n. dist ! k = j + 1 \<and> disks ! k = Some d \<and> ms ! j = metas ! k" if j: "j < ?n" "ds ! j = Some d" for j d
  proof -
    obtain k where k: "k < ?n" "dist ! k = j + 1" using is_distribution_onto [OF assms(1) j(1)] by blast
    then have "ds ! j = (if k \<in> set ks then disks ! k else None)" "ms ! j = (if k \<in> set ks then metas ! k else FileInfo_default)"
      using ds(3) [rule_format, OF k(1)] ms(3) [rule_format, OF k(1)] j(1) by simp_all
    then show ?thesis using j(2) k by (auto split: if_splits)
  qed
  then have "in_place dist disks metas (ds, ms)" using ds(2) ms(2) assms(2) by (simp add: in_place_def)
  moreover have "place_both dist ks disks metas = Some (ds, ms)"
    using ds(1) ms(1) assms(2,4) by (simp add: place_both_def list_all_iff)
  ultimately show ?thesis by (intro that)
qed

lemma shuffle_both_in_place:
  assumes "is_distribution (length disks) (distribution (erasure fi))" "length metas = length disks"
  shows "\<exists>r. shuffle_disks_and_parts_metadata disks metas fi = Some r \<and> in_place (distribution (erasure fi)) disks metas r"
proof -
  let ?ks = "filter (\<lambda>k. disks ! k \<noteq> None \<and> (fi_mod_time fi = None \<or> FileInfo_is_valid (metas ! k))) [0..<length disks]"
  obtain r where "place_both (distribution (erasure fi)) ?ks disks metas = Some r" "in_place (distribution (erasure fi)) disks metas r"
    by (rule place_both_in_place [OF assms, of ?ks]) simp_all
  moreover have "shuffle_disks_and_parts_metadata disks metas fi = place_both (distribution (erasure fi)) ?ks disks metas"
    using assms(2) by (simp add: shuffle_disks_and_parts_metadata_def Let_def list_all_iff)
  ultimately show ?thesis by simp
qed



text \<open>Ordering the drives alone is inverted by reading them back through the distribution.\<close>

lemma shuffle_disks_positions:
  assumes "is_distribution (length disks) dist" "disks \<noteq> []"
  shows "\<exists>r. shuffle_disks disks dist = Some r \<and> map (\<lambda>p. r ! (p - 1)) dist = disks"
proof -
  obtain r where r: "shuffle_loop dist (map (\<lambda>k. (k, disks ! k)) [0..<length disks]) (replicate (length disks) None) = Some r"
    "\<forall>k < length disks. r ! (dist ! k - 1) = disks ! k"
    using shuffle_loop_places [OF assms(1), of "[0..<length disks]" "replicate (length disks) None" "\<lambda>k. disks ! k"] by auto
  moreover have "map (\<lambda>p. r ! (p - 1)) dist = disks"
    using r(2) assms(1) by (intro nth_equalityI) (auto simp: is_distribution_def)
  moreover have "dist \<noteq> []" using assms by (auto simp: is_distribution_def)
  ultimately show ?thesis by (simp add: shuffle_disks_def shuffle_list_def zip_as_map)
qed

end
