(* ===== verification/Spec2Isabelle.thy ===== *)
theory Spec2Isabelle
  imports LockInterleave LocalSpec PolicySpec ErasureFaults ErasureHeal FileMetaDelete FileMetaMerge
    SetMetadataSpec
begin

text \<open>Verification of RustFS.\<close>

end
